(* ===== verification/Prelude.thy ===== *)
theory Prelude
  imports Main "HOL-Library.Word"
begin

text \<open>
  What every component of the development shares.

  \<^item> \<open>('e, 's, 'a) exec\<close>: a C++ statement or member function as explicit state
    passing. It takes the state, and returns either a failure of type \<open>'e\<close> (an
    exception on its way out, or the end of the process) or a value, together with the
    state it leaves behind: what was written before a \<open>throw\<close> stays written.
  \<^item> \<open>block\<close>: a sequence of statements. \<open>catchE\<close>: a try/catch. \<open>withE\<close>: a
    statement that reads the current state.
  \<^item> \<open>triple P m Q E\<close>: from a state with \<open>P\<close>, \<open>m\<close> returns with \<open>Q\<close> or
    fails with \<open>E\<close>; its rules are collected in \<open>triple_intros\<close>.
  \<^item> \<open>usub\<close>, \<open>uadd\<close>: the wrap-around of \<open>std::size_t\<close> (64 bits) on \<open>nat\<close>.
\<close>

named_theorems exec_simps "evaluation of statements"
named_theorems triple_intros "rules for triples"

section \<open>Statements\<close>

type_synonym ('e, 's, 'a) exec = "'s \<Rightarrow> ('e + 'a) \<times> 's"

definition retE :: "'a \<Rightarrow> ('e, 's, 'a) exec" where
  "retE a s = (Inr a, s)"

definition throwE :: "'e \<Rightarrow> ('e, 's, 'a) exec" where
  "throwE e s = (Inl e, s)"

definition bindE :: "('e, 's, 'a) exec \<Rightarrow> ('a \<Rightarrow> ('e, 's, 'b) exec) \<Rightarrow> ('e, 's, 'b) exec" where
  "bindE m f s = (case m s of (Inl e, s') \<Rightarrow> (Inl e, s') | (Inr a, s') \<Rightarrow> f a s')"

definition thenE :: "('e, 's, 'a) exec \<Rightarrow> ('e, 's, 'b) exec \<Rightarrow> ('e, 's, 'b) exec" where
  "thenE m n = bindE m (\<lambda>_. n)"

definition modifyE :: "('s \<Rightarrow> 's) \<Rightarrow> ('e, 's, unit) exec" where
  "modifyE f s = (Inr (), f s)"

definition withE :: "('s \<Rightarrow> ('e, 's, 'a) exec) \<Rightarrow> ('e, 's, 'a) exec" where
  "withE f s = f s s"

definition whenE :: "bool \<Rightarrow> ('e, 's, unit) exec \<Rightarrow> ('e, 's, unit) exec" where
  "whenE c m = (if c then m else retE ())"

definition liftE :: "'e + 'a \<Rightarrow> ('e, 's, 'a) exec" where
  "liftE r s = (r, s)"

definition catchE :: "('e, 's, 'a) exec \<Rightarrow> ('e \<Rightarrow> ('e, 's, 'a) exec) \<Rightarrow> ('e, 's, 'a) exec" where
  "catchE m h s = (case m s of (Inl e, s') \<Rightarrow> h e s' | (Inr a, s') \<Rightarrow> (Inr a, s'))"

primrec block :: "('e, 's, unit) exec list \<Rightarrow> ('e, 's, unit) exec" where
  "block [] = retE ()"
| "block (m # ms) = thenE m (block ms)"

primrec forE :: "('x \<Rightarrow> ('e, 's, unit) exec) \<Rightarrow> 'x list \<Rightarrow> ('e, 's, unit) exec" where
  "forE f [] = retE ()"
| "forE f (x # xs) = thenE (f x) (forE f xs)"

lemma retE_simp [simp, exec_simps]: "retE a s = (Inr a, s)"
  by (simp add: retE_def)

lemma throwE_simp [simp, exec_simps]: "throwE e s = (Inl e, s)"
  by (simp add: throwE_def)

lemma modifyE_simp [simp, exec_simps]: "modifyE f s = (Inr (), f s)"
  by (simp add: modifyE_def)

lemma withE_simp [simp, exec_simps]: "withE f s = f s s"
  by (simp add: withE_def)

lemma liftE_simp [simp, exec_simps]: "liftE r s = (r, s)"
  by (simp add: liftE_def)

lemma whenE_True [simp, exec_simps]: "whenE True m = m"
  and whenE_False [simp, exec_simps]: "whenE False m = retE ()"
  by (simp_all add: whenE_def)

lemmas seq_defs [exec_simps] = thenE_def bindE_def catchE_def

lemma bindE_ret [simp]: "bindE (Pair (Inr a)) f = f a"
  by (rule ext) (simp add: bindE_def)

lemma thenE_ret [simp]: "thenE (Pair (Inr a)) m = m"
  by (simp add: thenE_def)

lemma thenE_ret_left: "thenE (retE a) m = m"
  by (rule ext) (simp add: thenE_def bindE_def)

lemma thenE_assoc: "thenE (thenE a b) c = thenE a (thenE b c)"
  by (rule ext) (simp add: thenE_def bindE_def split: prod.splits sum.splits)

lemma block_append: "block (xs @ ys) = thenE (block xs) (block ys)"
  by (induction xs) (simp_all add: thenE_assoc)

lemma forE_append: "forE f (xs @ ys) = thenE (forE f xs) (forE f ys)"
  by (induction xs) (simp_all add: thenE_assoc)

lemma forE_block: "forE f xs = block (map f xs)"
  by (induction xs) simp_all

text \<open>A statement that fails stops the sequence.\<close>

lemma thenE_fails: "m s = (Inl e, s') \<Longrightarrow> thenE m n s = (Inl e, s')"
  by (simp add: thenE_def bindE_def)

lemma thenE_ok: "m s = (Inr a, s') \<Longrightarrow> thenE m n s = n s'"
  by (simp add: thenE_def bindE_def)

section \<open>Triples\<close>

definition triple ::
  "('s \<Rightarrow> bool) \<Rightarrow> ('e, 's, 'a) exec \<Rightarrow> ('a \<Rightarrow> 's \<Rightarrow> bool) \<Rightarrow> ('e \<Rightarrow> 's \<Rightarrow> bool) \<Rightarrow> bool" where
  "triple P m Q E \<longleftrightarrow>
     (\<forall>s. P s \<longrightarrow> (case m s of (Inr a, s') \<Rightarrow> Q a s' | (Inl e, s') \<Rightarrow> E e s'))"

lemma tripleI:
  "(\<And>s. P s \<Longrightarrow> case m s of (Inr a, s') \<Rightarrow> Q a s' | (Inl e, s') \<Rightarrow> E e s') \<Longrightarrow> triple P m Q E"
  by (simp add: triple_def)

lemma tripleD:
  "triple P m Q E \<Longrightarrow> P s \<Longrightarrow> case m s of (Inr a, s') \<Rightarrow> Q a s' | (Inl e, s') \<Rightarrow> E e s'"
  by (simp add: triple_def)

lemma triple_ok:
  assumes "triple P m Q E" and "P s" and "m s = (Inr a, s')"
  shows "Q a s'"
  using tripleD [OF assms(1,2)] assms(3) by simp

lemma triple_fail:
  assumes "triple P m Q E" and "P s" and "m s = (Inl e, s')"
  shows "E e s'"
  using tripleD [OF assms(1,2)] assms(3) by simp

lemma triple_ret [triple_intros]: "(\<And>s. P s \<Longrightarrow> Q a s) \<Longrightarrow> triple P (retE a) Q E"
  by (simp add: triple_def)

lemma triple_throw [triple_intros]: "(\<And>s. P s \<Longrightarrow> E e s) \<Longrightarrow> triple P (throwE e) Q E"
  by (simp add: triple_def)

lemma triple_modify [triple_intros]: "(\<And>s. P s \<Longrightarrow> Q () (f s)) \<Longrightarrow> triple P (modifyE f) Q E"
  by (simp add: triple_def)

lemma triple_bind:
  assumes "triple P m R E" and "\<And>a. triple (R a) (f a) Q E"
  shows "triple P (bindE m f) Q E"
proof (rule tripleI)
  fix s assume P: "P s"
  show "case bindE m f s of (Inr a, s') \<Rightarrow> Q a s' | (Inl e, s') \<Rightarrow> E e s'"
  proof (cases "m s")
    case (Pair r s')
    with tripleD [OF assms(1) P] tripleD [OF assms(2)] show ?thesis
      by (cases r) (simp_all add: bindE_def)
  qed
qed

lemma triple_then: "triple P m (\<lambda>_. R) E \<Longrightarrow> triple R n Q E \<Longrightarrow> triple P (thenE m n) Q E"
  unfolding thenE_def by (rule triple_bind)

lemma triple_with [triple_intros]:
  "(\<And>w. triple (\<lambda>s. P s \<and> s = w) (f w) Q E) \<Longrightarrow> triple P (withE f) Q E"
  by (auto simp: triple_def)

lemma triple_when [triple_intros]:
  "(c \<Longrightarrow> triple P m Q E) \<Longrightarrow> (\<not> c \<Longrightarrow> triple P (retE ()) Q E) \<Longrightarrow> triple P (whenE c m) Q E"
  by (cases c) simp_all

lemma triple_conseq:
  assumes "triple P' m Q' E'" and "\<And>s. P s \<Longrightarrow> P' s"
    and "\<And>a s. Q' a s \<Longrightarrow> Q a s" and "\<And>e s. E' e s \<Longrightarrow> E e s"
  shows "triple P m Q E"
proof (rule tripleI)
  fix s assume "P s"
  then have "P' s" by (rule assms(2))
  with assms(1) have d: "case m s of (Inr a, s') \<Rightarrow> Q' a s' | (Inl e, s') \<Rightarrow> E' e s'"
    by (rule tripleD)
  show "case m s of (Inr a, s') \<Rightarrow> Q a s' | (Inl e, s') \<Rightarrow> E e s'"
  proof (cases "m s")
    case (Pair r s')
    with d assms(3,4) show ?thesis by (cases r) simp_all
  qed
qed

lemma triple_catch:
  assumes "triple P m Q F" and "\<And>e. triple (F e) (h e) Q E"
  shows "triple P (catchE m h) Q E"
proof (rule tripleI)
  fix s assume P: "P s"
  show "case catchE m h s of (Inr a, s') \<Rightarrow> Q a s' | (Inl e, s') \<Rightarrow> E e s'"
  proof (cases "m s")
    case (Pair r s')
    with tripleD [OF assms(1) P] tripleD [OF assms(2)] show ?thesis
      by (cases r) (simp_all add: catchE_def)
  qed
qed

lemma triple_block_Nil [triple_intros]: "(\<And>s. P s \<Longrightarrow> Q () s) \<Longrightarrow> triple P (block []) Q E"
  by (simp add: triple_def)

lemma triple_for:
  assumes "\<And>x. x \<in> set xs \<Longrightarrow> triple P (f x) (\<lambda>_. P) E"
  shows "triple P (forE f xs) (\<lambda>_. P) E"
  using assms
proof (induction xs)
  case Nil
  then show ?case by (simp add: triple_def)
next
  case (Cons x xs)
  then show ?case by (auto intro!: triple_then)
qed

section \<open>Preserving a predicate\<close>

text \<open>
  \<open>preserves P m\<close>: \<open>m\<close> keeps \<open>P\<close> whether it returns or fails.
\<close>

named_theorems preserves_intros "rules for preserved predicates"

definition preserves :: "('s \<Rightarrow> bool) \<Rightarrow> ('e, 's, 'a) exec \<Rightarrow> bool" where
  "preserves P m \<longleftrightarrow> (\<forall>s. P s \<longrightarrow> P (snd (m s)))"

lemma preservesI: "(\<And>s. P s \<Longrightarrow> P (snd (m s))) \<Longrightarrow> preserves P m"
  by (simp add: preserves_def)

lemma preservesD: "preserves P m \<Longrightarrow> P s \<Longrightarrow> P (snd (m s))"
  by (simp add: preserves_def)

lemma preserves_result: "preserves P m \<Longrightarrow> P s \<Longrightarrow> m s = (r, s') \<Longrightarrow> P s'"
  by (metis preservesD snd_conv)

lemma preserves_ret [preserves_intros]: "preserves P (retE a)"
  by (simp add: preserves_def)

lemma preserves_Pair [preserves_intros]: "preserves P (Pair r)"
  by (simp add: preserves_def)

lemma preserves_throw [preserves_intros]: "preserves P (throwE e)"
  by (simp add: preserves_def)

lemma preserves_lift [preserves_intros]: "preserves P (liftE r)"
  by (simp add: preserves_def)

lemma preserves_modify: "(\<And>s. P s \<Longrightarrow> P (f s)) \<Longrightarrow> preserves P (modifyE f)"
  by (simp add: preserves_def)

lemma preserves_with: "(\<And>w. P w \<Longrightarrow> preserves P (f w)) \<Longrightarrow> preserves P (withE f)"
  by (simp add: preserves_def)

lemma preserves_bind [preserves_intros]:
  assumes m: "preserves P m" and f: "\<And>a. preserves P (f a)"
  shows "preserves P (bindE m f)"
proof (rule preservesI)
  fix s assume P: "P s"
  obtain r s' where ms: "m s = (r, s')" by fastforce
  have "P s'" using m P ms by (rule preserves_result)
  then show "P (snd (bindE m f s))"
    using ms preservesD [OF f] by (cases r) (simp_all add: bindE_def)
qed

lemma preserves_then [preserves_intros]:
  "preserves P m \<Longrightarrow> preserves P n \<Longrightarrow> preserves P (thenE m n)"
  unfolding thenE_def by (intro preserves_bind)

lemma preserves_when [preserves_intros]: "(c \<Longrightarrow> preserves P m) \<Longrightarrow> preserves P (whenE c m)"
  by (simp add: whenE_def preserves_def)

lemma preserves_if [preserves_intros]:
  "(c \<Longrightarrow> preserves P m) \<Longrightarrow> (\<not> c \<Longrightarrow> preserves P n) \<Longrightarrow> preserves P (if c then m else n)"
  by simp

lemma preserves_catch [preserves_intros]:
  assumes m: "preserves P m" and h: "\<And>e. preserves P (h e)"
  shows "preserves P (catchE m h)"
proof (rule preservesI)
  fix s assume P: "P s"
  obtain r s' where ms: "m s = (r, s')" by fastforce
  have "P s'" using m P ms by (rule preserves_result)
  then show "P (snd (catchE m h s))"
    using ms preservesD [OF h] by (cases r) (simp_all add: catchE_def)
qed

lemma preserves_block [preserves_intros]:
  "(\<And>m. m \<in> set ms \<Longrightarrow> preserves P m) \<Longrightarrow> preserves P (block ms)"
  by (induction ms) (auto intro: preserves_then preserves_ret simp del: retE_simp)

lemma preserves_for [preserves_intros]:
  "(\<And>x. x \<in> set xs \<Longrightarrow> preserves P (f x)) \<Longrightarrow> preserves P (forE f xs)"
  by (auto simp: forE_block intro!: preserves_block)

section \<open>What a statement may change\<close>

text \<open>
  \<open>moves R m\<close>: the states before and after \<open>m\<close> are related by \<open>R\<close>, whether it
  returns or fails. For a reflexive and transitive \<open>R\<close> (a frame condition such as
  "this field is unchanged", or "this queue only grows") it is closed under sequencing.
\<close>

named_theorems moves_intros "rules for frame relations"

definition preorder_rel :: "('s \<Rightarrow> 's \<Rightarrow> bool) \<Rightarrow> bool" where
  "preorder_rel R \<longleftrightarrow> (\<forall>s. R s s) \<and> (\<forall>s t u. R s t \<longrightarrow> R t u \<longrightarrow> R s u)"

definition moves :: "('s \<Rightarrow> 's \<Rightarrow> bool) \<Rightarrow> ('e, 's, 'a) exec \<Rightarrow> bool" where
  "moves R m \<longleftrightarrow> (\<forall>s. R s (snd (m s)))"

lemma preorder_eq_field: "preorder_rel (\<lambda>s t. f t = f s)"
  by (simp add: preorder_rel_def)

lemma movesI: "(\<And>s. R s (snd (m s))) \<Longrightarrow> moves R m"
  by (simp add: moves_def)

lemma movesD: "moves R m \<Longrightarrow> m s = (r, s') \<Longrightarrow> R s s'"
  unfolding moves_def by (metis snd_conv)

lemma moves_ret [moves_intros]: "preorder_rel R \<Longrightarrow> moves R (retE a)"
  and moves_Pair [moves_intros]: "preorder_rel R \<Longrightarrow> moves R (Pair r)"
  and moves_throw [moves_intros]: "preorder_rel R \<Longrightarrow> moves R (throwE e)"
  and moves_lift [moves_intros]: "preorder_rel R \<Longrightarrow> moves R (liftE r)"
  by (simp_all add: moves_def preorder_rel_def)

lemma moves_modify: "(\<And>s. R s (f s)) \<Longrightarrow> moves R (modifyE f)"
  by (simp add: moves_def)

lemma moves_with [moves_intros]: "(\<And>w. moves R (f w)) \<Longrightarrow> moves R (withE f)"
  by (simp add: moves_def)

lemma moves_bind [moves_intros]:
  assumes R: "preorder_rel R" and m: "moves R m" and f: "\<And>a. moves R (f a)"
  shows "moves R (bindE m f)"
proof (rule movesI)
  fix s
  obtain r s1 where ms: "m s = (r, s1)" by fastforce
  have "R s s1" using movesD [OF m ms] .
  then show "R s (snd (bindE m f s))"
  proof (cases r)
    case (Inl e)
    with ms \<open>R s s1\<close> show ?thesis by (simp add: bindE_def)
  next
    case (Inr a)
    have "R s1 (snd (f a s1))" using f [of a] by (simp add: moves_def)
    with ms Inr \<open>R s s1\<close> R show ?thesis unfolding preorder_rel_def by (auto simp: bindE_def)
  qed
qed

lemma moves_then [moves_intros]:
  "preorder_rel R \<Longrightarrow> moves R m \<Longrightarrow> moves R n \<Longrightarrow> moves R (thenE m n)"
  unfolding thenE_def by (rule moves_bind)

lemma moves_when [moves_intros]: "preorder_rel R \<Longrightarrow> (c \<Longrightarrow> moves R m) \<Longrightarrow> moves R (whenE c m)"
  by (simp add: whenE_def moves_def preorder_rel_def)

lemma moves_if [moves_intros]:
  "(c \<Longrightarrow> moves R m) \<Longrightarrow> (\<not> c \<Longrightarrow> moves R n) \<Longrightarrow> moves R (if c then m else n)"
  by simp

lemma moves_catch [moves_intros]:
  assumes R: "preorder_rel R" and m: "moves R m" and h: "\<And>e. moves R (h e)"
  shows "moves R (catchE m h)"
proof (rule movesI)
  fix s
  obtain r s1 where ms: "m s = (r, s1)" by fastforce
  have "R s s1" using movesD [OF m ms] .
  then show "R s (snd (catchE m h s))"
  proof (cases r)
    case (Inr a)
    with ms \<open>R s s1\<close> show ?thesis by (simp add: catchE_def)
  next
    case (Inl e)
    have "R s1 (snd (h e s1))" using h [of e] by (simp add: moves_def)
    with ms Inl \<open>R s s1\<close> R show ?thesis unfolding preorder_rel_def by (auto simp: catchE_def)
  qed
qed

lemma moves_block [moves_intros]:
  "preorder_rel R \<Longrightarrow> (\<And>m. m \<in> set ms \<Longrightarrow> moves R m) \<Longrightarrow> moves R (block ms)"
  by (induction ms) (auto intro: moves_then moves_ret simp del: retE_simp)

lemma moves_for [moves_intros]:
  "preorder_rel R \<Longrightarrow> (\<And>x. x \<in> set xs \<Longrightarrow> moves R (f x)) \<Longrightarrow> moves R (forE f xs)"
  by (auto simp: forE_block intro!: moves_block)

lemma moves_mono: "moves R m \<Longrightarrow> (\<And>s t. R s t \<Longrightarrow> S s t) \<Longrightarrow> moves S m"
  by (simp add: moves_def)

section \<open>Unsigned 64-bit sizes\<close>

text \<open>
  Sizes and positions are \<open>std::size_t\<close>. They are kept as \<open>nat\<close> values below
  \<open>2 ^ 64\<close>; subtraction and addition wrap as the machine's do, which
  \<open>usub_word\<close> and \<open>uadd_word\<close> state against the 64-bit words.
\<close>

definition usub :: "nat \<Rightarrow> nat \<Rightarrow> nat" where
  "usub a b = (if b \<le> a then a - b else 2 ^ 64 + a - b)"

definition uadd :: "nat \<Rightarrow> nat \<Rightarrow> nat" where
  "uadd a b = (a + b) mod 2 ^ 64"

lemma usub_le [simp]: "b \<le> a \<Longrightarrow> usub a b = a - b"
  by (simp add: usub_def)

lemma usub_under: "a < b \<Longrightarrow> usub a b = 2 ^ 64 + a - b"
  by (simp add: usub_def)

lemma uadd_small [simp]: "a + b < 2 ^ 64 \<Longrightarrow> uadd a b = a + b"
  by (simp add: uadd_def)

lemma uadd_word:
  "uadd a b = unat ((of_nat a :: 64 word) + of_nat b)"
  by (simp add: uadd_def unat_word_ariths unat_of_nat mod_add_eq)

lemma usub_word:
  assumes "a < 2 ^ 64" and "b < 2 ^ 64"
  shows "usub a b = unat ((of_nat a :: 64 word) - of_nat b)"
proof (cases "b \<le> a")
  case True
  then have "(of_nat a :: 64 word) - of_nat b = of_nat (a - b)"
    by (simp add: of_nat_diff)
  then have "unat ((of_nat a :: 64 word) - of_nat b) = (a - b) mod 2 ^ 64"
    by (simp only: unat_of_nat) simp
  with assms True show ?thesis by simp
next
  case False
  have "(of_nat a :: 64 word) - of_nat b = of_nat (2 ^ 64 + a - b)"
    using assms False by (simp add: of_nat_diff)
  then have "unat ((of_nat a :: 64 word) - of_nat b) = (2 ^ 64 + a - b) mod 2 ^ 64"
    by (simp only: unat_of_nat) simp
  moreover have "2 ^ 64 + a - b < 2 ^ 64" using False by simp
  ultimately show ?thesis using False by (simp add: usub_def)
qed

section \<open>Lists\<close>

lemma take_drop_append_tail:
  "n \<le> length xs \<Longrightarrow> take n xs @ drop n xs = xs"
  by simp

lemma take_min_length: "take (min n (length xs)) xs = take n xs"
  by (simp add: min_def)

end
