(* ===== verification/Errors.thy ===== *)
theory Errors
  imports Prelude
begin

text \<open>
  How an operation of the library can fail (\<open>include/base/Error.h\<close>,
  \<open>include/http/HttpError.h\<close>, the \<open>assertTrue\<close> and \<open>LOG_FATAL\<close> macros of
  \<open>include/base/Log.h\<close>). A failure is a value: an exception that propagates, or an
  outcome after which nothing of the process runs any more.
\<close>

datatype RequestErrorType = BadRequest | UnsupportMethod | PartialPacket

datatype ResponseErrorType =
  BadResponse | BadContentType | BadContent | BadVersion | BadStatus | FileNotFound

text \<open>
  \<open>Terminate\<close> is \<open>std::terminate\<close>, reached by a failed \<open>assertTrue\<close> and by
  an exception that leaves a \<open>noexcept\<close> function. \<open>Undefined\<close> is a step the C++
  standard gives no meaning (an access outside an object, a null dereference). \<open>Hang\<close>
  is a call that never returns.
\<close>

datatype failure =
    NetworkException string int
  | SystemException string
  | RequestError string RequestErrorType
  | ResponseError string ResponseErrorType
  | LengthError
  | OutOfRange
  | InvalidArgument
  | RuntimeError string
  | Terminate string
  | Undefined string
  | Hang

text \<open>After a fatal outcome no handler runs; every other failure is a C++ exception.\<close>

fun fatal :: "failure \<Rightarrow> bool" where
  "fatal (Terminate _) = True"
| "fatal (Undefined _) = True"
| "fatal Hang = True"
| "fatal _ = False"

fun getNetErr :: "failure \<Rightarrow> int option" where
  "getNetErr (NetworkException _ e) = Some e"
| "getNetErr _ = None"

fun getRequestErrorType :: "failure \<Rightarrow> RequestErrorType option" where
  "getRequestErrorType (RequestError _ t) = Some t"
| "getRequestErrorType _ = None"

fun getResponseErrorType :: "failure \<Rightarrow> ResponseErrorType option" where
  "getResponseErrorType (ResponseError _ t) = Some t"
| "getResponseErrorType _ = None"

fun request_error_view :: "RequestErrorType \<Rightarrow> string" where
  "request_error_view BadRequest = ''BadRequest''"
| "request_error_view UnsupportMethod = ''UnsupportMethod''"
| "request_error_view PartialPacket = ''PartialPacket''"

fun response_error_view :: "ResponseErrorType \<Rightarrow> string" where
  "response_error_view BadResponse = ''BadResponse''"
| "response_error_view BadContentType = ''BadContentType''"
| "response_error_view BadContent = ''BadContent''"
| "response_error_view BadVersion = ''BadVersion''"
| "response_error_view BadStatus = ''BadStatus''"
| "response_error_view FileNotFound = ''FileNotFound''"

text \<open>
  \<open>assertTrue(cond, msg)\<close> is guarded by \<open>#ifdef DEBUG_BUILD\<close>. The top
  \<open>CMakeLists.txt\<close> defines the macro in both configurations (\<open>DEBUG_BUILD=1\<close> for
  Debug and \<open>DEBUG_BUILD=0\<close> for release), so the \<open>LOG_FATAL\<close> branch is the one
  that is compiled: a failed assertion ends the process.
\<close>

definition assertTrue :: "bool \<Rightarrow> string \<Rightarrow> (failure, 's, unit) exec" where
  "assertTrue c msg = (if c then retE () else throwE (Terminate msg))"

text \<open>A failure inside a \<open>noexcept\<close> function ends the process.\<close>

definition noexcept :: "(failure, 's, 'a) exec \<Rightarrow> (failure, 's, 'a) exec" where
  "noexcept m = catchE m (\<lambda>e. throwE (if fatal e then e else Terminate ''noexcept''))"

text \<open>\<open>catch (const std::exception\& e)\<close>: every exception of the model, and no fatal outcome.\<close>

definition catch_std :: "(failure, 's, 'a) exec \<Rightarrow> (failure \<Rightarrow> (failure, 's, 'a) exec)
    \<Rightarrow> (failure, 's, 'a) exec" where
  "catch_std m h = catchE m (\<lambda>e. if fatal e then throwE e else h e)"

text \<open>\<open>catch (SystemException\& e)\<close>.\<close>

fun is_sys :: "failure \<Rightarrow> bool" where
  "is_sys (SystemException _) = True"
| "is_sys _ = False"

definition catch_sys :: "(failure, 's, 'a) exec \<Rightarrow> (failure, 's, 'a) exec \<Rightarrow> (failure, 's, 'a) exec" where
  "catch_sys m h = catchE m (\<lambda>e. if is_sys e then h else throwE e)"

text \<open>\<open>catch (const NetworkException\& e)\<close>: the handler gets the error number.\<close>

definition catch_net :: "(failure, 's, 'a) exec \<Rightarrow> (int \<Rightarrow> (failure, 's, 'a) exec)
    \<Rightarrow> (failure, 's, 'a) exec" where
  "catch_net m h = catchE m (\<lambda>e. case getNetErr e of Some n \<Rightarrow> h n | None \<Rightarrow> throwE e)"

lemma assertTrue_True [simp, exec_simps]: "assertTrue True msg = retE ()"
  by (simp add: assertTrue_def)

lemma assertTrue_False [simp, exec_simps]: "assertTrue False msg = throwE (Terminate msg)"
  by (simp add: assertTrue_def)

lemma triple_assert [triple_intros]:
  "(\<And>s. P s \<Longrightarrow> c \<Longrightarrow> Q () s) \<Longrightarrow> (\<And>s. P s \<Longrightarrow> \<not> c \<Longrightarrow> E (Terminate msg) s)
   \<Longrightarrow> triple P (assertTrue c msg) Q E"
  by (auto simp: triple_def assertTrue_def)

lemma preserves_assert [preserves_intros]: "preserves P (assertTrue c msg)"
  by (simp add: assertTrue_def preserves_def)

lemma preserves_noexcept [preserves_intros]: "preserves P m \<Longrightarrow> preserves P (noexcept m)"
  unfolding noexcept_def by (intro preserves_catch preserves_throw)

lemma preserves_catch_std [preserves_intros]:
  "preserves P m \<Longrightarrow> (\<And>e. preserves P (h e)) \<Longrightarrow> preserves P (catch_std m h)"
  unfolding catch_std_def by (intro preserves_catch preserves_if preserves_throw)

lemma moves_assert [moves_intros]: "preorder_rel R \<Longrightarrow> moves R (assertTrue c msg)"
  by (simp add: assertTrue_def moves_def preorder_rel_def)

lemma moves_noexcept [moves_intros]: "preorder_rel R \<Longrightarrow> moves R m \<Longrightarrow> moves R (noexcept m)"
  unfolding noexcept_def by (intro moves_catch moves_throw)

lemma moves_catch_std [moves_intros]:
  "preorder_rel R \<Longrightarrow> moves R m \<Longrightarrow> (\<And>e. moves R (h e)) \<Longrightarrow> moves R (catch_std m h)"
  unfolding catch_std_def by (intro moves_catch moves_if moves_throw)

lemma moves_catch_sys [moves_intros]:
  "preorder_rel R \<Longrightarrow> moves R m \<Longrightarrow> moves R h \<Longrightarrow> moves R (catch_sys m h)"
  unfolding catch_sys_def by (intro moves_catch moves_if moves_throw)

lemma moves_catch_net [moves_intros]:
  "preorder_rel R \<Longrightarrow> moves R m \<Longrightarrow> (\<And>n. moves R (h n)) \<Longrightarrow> moves R (catch_net m h)"
  unfolding catch_net_def by (intro moves_catch) (auto intro: moves_throw split: option.split simp del: throwE_simp)

lemma noexcept_ok: "m s = (Inr a, s') \<Longrightarrow> noexcept m s = (Inr a, s')"
  by (simp add: noexcept_def catchE_def)

lemma noexcept_fatal: "noexcept m s = (Inl e, s') \<Longrightarrow> fatal e"
  by (auto simp: noexcept_def catchE_def split: prod.splits sum.splits if_splits)

lemma getNetErr_Some: "getNetErr e = Some n \<longleftrightarrow> (\<exists>m. e = NetworkException m n)"
  by (cases e) auto

lemma getNetErr_not_fatal: "getNetErr e = Some n \<Longrightarrow> \<not> fatal e"
  by (auto simp: getNetErr_Some)

section \<open>Keeping an invariant up to an allowed end\<close>

text \<open>
  Two steps outside the language can be reached: the write of \<open>appendToBuffer\<close> beyond
  its vector (\<open>TcpBuffer\<close> says when) and the read of \<open>strip\<close> beyond the request
  line (\<open>HttpProofs\<close> says when). Every other undefined step, such as an access to a
  deleted object, is an outcome that is not allowed.
\<close>

definition buffer_overrun :: string where
  "buffer_overrun = ''write outside the buffer''"

definition line_overrun :: string where
  "line_overrun = ''strip reads outside the request line''"

fun allowed :: "failure \<Rightarrow> bool" where
  "allowed (Undefined m) \<longleftrightarrow> m = buffer_overrun \<or> m = line_overrun"
| "allowed _ = True"

text \<open>
  \<open>keeps P m\<close>: when \<open>m\<close> starts with \<open>P\<close>, it returns or throws with \<open>P\<close>, or
  ends the process in an allowed way.
\<close>

named_theorems keeps_intros "rules for keeps"

definition keeps :: "('s \<Rightarrow> bool) \<Rightarrow> (failure, 's, 'a) exec \<Rightarrow> bool" where
  "keeps P m \<longleftrightarrow> triple P m (\<lambda>_. P) (\<lambda>e s. allowed e \<and> (fatal e \<or> P s))"

lemma keepsI:
  "(\<And>s a s'. P s \<Longrightarrow> m s = (Inr a, s') \<Longrightarrow> P s')
   \<Longrightarrow> (\<And>s e s'. P s \<Longrightarrow> m s = (Inl e, s') \<Longrightarrow> allowed e \<and> (fatal e \<or> P s')) \<Longrightarrow> keeps P m"
proof -
  assume ok: "\<And>s a s'. P s \<Longrightarrow> m s = (Inr a, s') \<Longrightarrow> P s'"
    and fl: "\<And>s e s'. P s \<Longrightarrow> m s = (Inl e, s') \<Longrightarrow> allowed e \<and> (fatal e \<or> P s')"
  show ?thesis unfolding keeps_def
  proof (rule tripleI)
    fix s assume P: "P s"
    obtain r s' where ms: "m s = (r, s')" by fastforce
    show "case m s of (Inr a, s') \<Rightarrow> P s' | (Inl e, s') \<Rightarrow> allowed e \<and> (fatal e \<or> P s')"
      using ok [OF P] fl [OF P] ms by (cases r) auto
  qed
qed

lemma keeps_ok: "keeps P m \<Longrightarrow> P s \<Longrightarrow> m s = (Inr a, s') \<Longrightarrow> P s'"
  unfolding keeps_def by (rule triple_ok)

lemma keeps_fail: "keeps P m \<Longrightarrow> P s \<Longrightarrow> m s = (Inl e, s') \<Longrightarrow> allowed e \<and> (fatal e \<or> P s')"
  unfolding keeps_def by (rule triple_fail)

lemma keeps_case:
  "keeps P m \<Longrightarrow> P s \<Longrightarrow> (case m s of (Inr a, s') \<Rightarrow> P s' | (Inl e, s') \<Rightarrow> allowed e \<and> (fatal e \<or> P s'))"
  unfolding keeps_def by (rule tripleD)

lemma keepsI_case:
  "(\<And>s. P s \<Longrightarrow> case m s of (Inr a, s') \<Rightarrow> P s' | (Inl e, s') \<Rightarrow> allowed e \<and> (fatal e \<or> P s')) \<Longrightarrow> keeps P m"
  unfolding keeps_def by (rule tripleI)

lemma keeps_ret [keeps_intros]: "keeps P (retE a)"
  and keeps_throw: "allowed e \<Longrightarrow> keeps P (throwE e)"
  and keeps_assert [keeps_intros]: "keeps P (assertTrue c msg)"
  by (auto simp: keeps_def triple_def assertTrue_def split: sum.splits)

lemma keeps_Pair_ret [keeps_intros]: "keeps P (Pair (Inr a))"
  by (simp add: keeps_def triple_def)

lemma keeps_modify: "(\<And>s. P s \<Longrightarrow> P (f s)) \<Longrightarrow> keeps P (modifyE f)"
  by (simp add: keeps_def triple_def)

lemma keeps_with: "(\<And>w. P w \<Longrightarrow> keeps P (f w)) \<Longrightarrow> keeps P (withE f)"
  by (simp add: keeps_def triple_def)

lemma keeps_bind [keeps_intros]: "keeps P m \<Longrightarrow> (\<And>a. keeps P (f a)) \<Longrightarrow> keeps P (bindE m f)"
  unfolding keeps_def by (rule triple_bind)

lemma keeps_then [keeps_intros]: "keeps P m \<Longrightarrow> keeps P n \<Longrightarrow> keeps P (thenE m n)"
  unfolding thenE_def by (intro keeps_bind)

lemma keeps_when [keeps_intros]: "(c \<Longrightarrow> keeps P m) \<Longrightarrow> keeps P (whenE c m)"
  by (cases c) (simp_all add: keeps_Pair_ret keeps_ret del: retE_simp)

lemma keeps_if [keeps_intros]: "(c \<Longrightarrow> keeps P m) \<Longrightarrow> (\<not> c \<Longrightarrow> keeps P n) \<Longrightarrow> keeps P (if c then m else n)"
  by simp

lemma keeps_block [keeps_intros]: "(\<And>m. m \<in> set ms \<Longrightarrow> keeps P m) \<Longrightarrow> keeps P (block ms)"
  by (induction ms) (auto intro: keeps_then keeps_ret simp del: retE_simp)

lemma keeps_for [keeps_intros]: "(\<And>x. x \<in> set xs \<Longrightarrow> keeps P (f x)) \<Longrightarrow> keeps P (forE f xs)"
  by (auto simp: forE_block intro!: keeps_block)

text \<open>A try block whose handlers do nothing after a fatal outcome.\<close>

lemma keeps_catch:
  assumes m: "keeps P m" and h: "\<And>e. \<not> fatal e \<Longrightarrow> keeps P (h e)"
    and f: "\<And>e s. fatal e \<Longrightarrow> h e s = (Inl e, s)"
  shows "keeps P (catchE m h)"
proof (rule keepsI_case)
  fix s assume P: "P s"
  obtain r s1 where ms: "m s = (r, s1)" by fastforce
  show "case catchE m h s of (Inr a, s') \<Rightarrow> P s' | (Inl e, s') \<Rightarrow> allowed e \<and> (fatal e \<or> P s')"
  proof (cases r)
    case (Inr a)
    with ms keeps_ok [OF m P] show ?thesis by (simp add: catchE_def)
  next
    case (Inl e)
    show ?thesis
    proof (cases "fatal e")
      case True
      with f [OF True, of s1] ms Inl keeps_fail [OF m P] show ?thesis by (simp add: catchE_def)
    next
      case False
      then have "P s1" using keeps_fail [OF m P] ms Inl by simp
      from keeps_case [OF h [OF False] this] ms Inl show ?thesis by (simp add: catchE_def)
    qed
  qed
qed

lemma is_sys_not_fatal: "is_sys e \<Longrightarrow> \<not> fatal e"
  by (cases e) auto

lemma not_fatal_allowed: "\<not> fatal e \<Longrightarrow> allowed e"
  by (cases e) auto

lemma keeps_throw_exn: "\<not> fatal e \<Longrightarrow> keeps P (throwE e)"
  by (rule keeps_throw) (rule not_fatal_allowed)

lemma keeps_catch_sys [keeps_intros]: "keeps P m \<Longrightarrow> keeps P h \<Longrightarrow> keeps P (catch_sys m h)"
  unfolding catch_sys_def
  by (rule keeps_catch) (auto intro: keeps_throw_exn simp del: throwE_simp dest: is_sys_not_fatal simp: throwE_def)

lemma keeps_catch_net [keeps_intros]:
  "keeps P m \<Longrightarrow> (\<And>n. keeps P (h n)) \<Longrightarrow> keeps P (catch_net m h)"
  unfolding catch_net_def
  by (rule keeps_catch) (auto intro: keeps_throw_exn simp del: throwE_simp dest: getNetErr_not_fatal
      simp: throwE_def split: option.splits)

lemma keeps_catch_std [keeps_intros]:
  "keeps P m \<Longrightarrow> (\<And>e. keeps P (h e)) \<Longrightarrow> keeps P (catch_std m h)"
  unfolding catch_std_def by (rule keeps_catch) (auto simp: throwE_def)

text \<open>A handler that cleans up and throws on.\<close>

lemma keeps_cleanup:
  "keeps P m \<Longrightarrow> (\<And>e. \<not> fatal e \<Longrightarrow> keeps P (h e)) \<Longrightarrow> keeps P (catchE m (\<lambda>e. if fatal e then throwE e else h e))"
  by (rule keeps_catch) (auto simp: throwE_def)

lemma keeps_noexcept [keeps_intros]: "keeps P m \<Longrightarrow> keeps P (noexcept m)"
  unfolding noexcept_def by (rule keeps_catch) (auto simp: throwE_def keeps_throw simp del: throwE_simp)

lemma keeps_mono_preserves:
  "preserves P m \<Longrightarrow> (\<And>s e s'. P s \<Longrightarrow> m s = (Inl e, s') \<Longrightarrow> allowed e) \<Longrightarrow> keeps P m"
  by (rule keepsI) (auto dest: preserves_result)

section \<open>One step from a given state\<close>

text \<open>\<open>good P m s\<close>: what \<open>keeps P m\<close> says, at the state \<open>s\<close>.\<close>

definition good :: "('s \<Rightarrow> bool) \<Rightarrow> (failure, 's, 'a) exec \<Rightarrow> 's \<Rightarrow> bool" where
  "good P m s \<longleftrightarrow> (case m s of (Inr a, s') \<Rightarrow> P s' | (Inl e, s') \<Rightarrow> allowed e \<and> (fatal e \<or> P s'))"

lemma keeps_good: "keeps P m \<longleftrightarrow> (\<forall>s. P s \<longrightarrow> good P m s)"
  by (simp add: keeps_def triple_def good_def)

lemma keepsI_good: "(\<And>s. P s \<Longrightarrow> good P m s) \<Longrightarrow> keeps P m"
  by (simp add: keeps_good)

lemma good_keeps: "keeps P m \<Longrightarrow> P s \<Longrightarrow> good P m s"
  by (simp add: keeps_good)

lemma good_ret: "P s \<Longrightarrow> good P (retE a) s"
  by (simp add: good_def)

lemma good_throw: "allowed e \<Longrightarrow> P s \<Longrightarrow> good P (throwE e) s"
  by (simp add: good_def)

lemma good_bind:
  assumes m: "good P m s" and f: "\<And>a s'. m s = (Inr a, s') \<Longrightarrow> P s' \<Longrightarrow> good P (f a) s'"
  shows "good P (bindE m f) s"
proof (cases "m s")
  case (Pair r s')
  with m f show ?thesis by (cases r) (simp_all add: good_def bindE_def)
qed

lemma good_then: "good P m s \<Longrightarrow> (\<And>s'. P s' \<Longrightarrow> good P n s') \<Longrightarrow> good P (thenE m n) s"
  unfolding thenE_def by (rule good_bind)

lemma good_then_strong:
  assumes "good P m s" and "\<And>s'. P s' \<Longrightarrow> good Q n s'" and "\<And>s'. P s' \<Longrightarrow> Q s'"
  shows "good Q (thenE m n) s"
proof (cases "m s")
  case (Pair r s')
  with assms show ?thesis by (cases r) (auto simp: good_def thenE_def bindE_def)
qed

lemma good_assert_then: "P s \<Longrightarrow> (c \<Longrightarrow> good P n s) \<Longrightarrow> good P (thenE (assertTrue c msg) n) s"
  by (cases c) (simp_all add: good_def thenE_def bindE_def)

lemma good_modify_then: "good P n (f s) \<Longrightarrow> good P (thenE (modifyE f) n) s"
  by (simp add: good_def thenE_def bindE_def)

lemma good_with: "good P (f s) s \<Longrightarrow> good P (withE f) s"
  by (simp add: good_def)

lemma good_when: "P s \<Longrightarrow> (c \<Longrightarrow> good P m s) \<Longrightarrow> good P (whenE c m) s"
  by (cases c) (simp_all add: good_def)

lemma good_block: "good P (block []) s \<longleftrightarrow> P s" "good P (block (m # ms)) s \<longleftrightarrow> good P (thenE m (block ms)) s"
  by (simp_all add: good_def)

lemma good_block_last: "good P m s \<Longrightarrow> good P (block [m :: (failure, 's, unit) exec]) s"
  unfolding good_block by (rule good_then) (simp_all add: good_ret del: retE_simp)

lemma good_catch:
  assumes m: "good P m s" and h: "\<And>e s'. \<not> fatal e \<Longrightarrow> P s' \<Longrightarrow> good P (h e) s'"
    and f: "\<And>e s. fatal e \<Longrightarrow> h e s = (Inl e, s)"
  shows "good P (catchE m h) s"
proof (cases "m s")
  case (Pair r s')
  show ?thesis
  proof (cases r)
    case (Inr a)
    with Pair m show ?thesis by (simp add: good_def catchE_def)
  next
    case (Inl e)
    with Pair m h f [of e s'] show ?thesis
      by (cases "fatal e") (auto simp: good_def catchE_def)
  qed
qed

lemma good_catch_std: "good P m s \<Longrightarrow> (\<And>e s'. P s' \<Longrightarrow> good P (h e) s') \<Longrightarrow> good P (catch_std m h) s"
  unfolding catch_std_def by (rule good_catch) (auto simp: throwE_def)

lemma good_catch_net: "good P m s \<Longrightarrow> (\<And>n s'. P s' \<Longrightarrow> good P (h n) s') \<Longrightarrow> good P (catch_net m h) s"
  unfolding catch_net_def
  by (rule good_catch) (auto simp: good_def throwE_def not_fatal_allowed dest: getNetErr_not_fatal split: option.splits)

lemma good_cleanup:
  "good P m s \<Longrightarrow> (\<And>e s'. \<not> fatal e \<Longrightarrow> P s' \<Longrightarrow> good P (h e) s') \<Longrightarrow>
   good P (catchE m (\<lambda>e. if fatal e then throwE e else h e)) s"
  by (rule good_catch) (auto simp: throwE_def)

lemma good_noexcept: "good P m s \<Longrightarrow> good P (noexcept m) s"
  unfolding noexcept_def by (rule good_catch) (auto simp: good_def throwE_def)

lemma good_for:
  "P s \<Longrightarrow> (\<And>x s'. x \<in> set xs \<Longrightarrow> P s' \<Longrightarrow> good P (f x) s') \<Longrightarrow> good P (forE f xs) s"
proof (induction xs arbitrary: s)
  case Nil
  then show ?case by (simp add: good_def)
next
  case (Cons x xs)
  then show ?case by (auto intro!: good_then)
qed

section \<open>Allowed ends\<close>

text \<open>\<open>sound P m s\<close>: from \<open>s\<close>, \<open>m\<close> returns with \<open>P\<close> or fails in an allowed way.\<close>

definition sound :: "('s \<Rightarrow> bool) \<Rightarrow> (failure, 's, 'a) exec \<Rightarrow> 's \<Rightarrow> bool" where
  "sound P m s \<longleftrightarrow> (case m s of (Inr a, s') \<Rightarrow> P s' | (Inl e, s') \<Rightarrow> allowed e)"

lemma good_sound: "good P m s \<Longrightarrow> sound P m s"
  by (auto simp: good_def sound_def split: prod.splits sum.splits)

lemma keeps_sound: "keeps P m \<Longrightarrow> P s \<Longrightarrow> sound P m s"
  by (intro good_sound good_keeps)

lemma sound_ret: "P s \<Longrightarrow> sound P (retE a) s"
  by (simp add: sound_def)

lemma sound_throw: "allowed e \<Longrightarrow> sound P (throwE e) s"
  by (simp add: sound_def)

lemma sound_mono: "sound P m s \<Longrightarrow> (\<And>t. P t \<Longrightarrow> Q t) \<Longrightarrow> sound Q m s"
  by (auto simp: sound_def split: prod.splits sum.splits)

lemma sound_bind:
  assumes "sound P m s" and "\<And>a s'. m s = (Inr a, s') \<Longrightarrow> P s' \<Longrightarrow> sound Q (f a) s'"
  shows "sound Q (bindE m f) s"
proof (cases "m s")
  case (Pair r s')
  with assms show ?thesis by (cases r) (simp_all add: sound_def bindE_def)
qed

lemma sound_then: "sound P m s \<Longrightarrow> (\<And>s'. P s' \<Longrightarrow> sound Q n s') \<Longrightarrow> sound Q (thenE m n) s"
  unfolding thenE_def by (rule sound_bind)

lemma sound_modify: "P (f s) \<Longrightarrow> sound P (modifyE f) s"
  by (simp add: sound_def)

lemma sound_when: "P s \<Longrightarrow> (c \<Longrightarrow> sound P m s) \<Longrightarrow> sound P (whenE c m) s"
  by (cases c) (simp_all add: sound_def)

lemma sound_with: "sound P (f s) s \<Longrightarrow> sound P (withE f) s"
  by (simp add: sound_def)

lemma sound_for:
  "P s \<Longrightarrow> (\<And>x s'. x \<in> set xs \<Longrightarrow> P s' \<Longrightarrow> sound P (f x) s') \<Longrightarrow> sound P (forE f xs) s"
proof (induction xs arbitrary: s)
  case Nil
  then show ?case by (simp add: sound_def)
next
  case (Cons x xs)
  then show ?case by (auto intro!: sound_then [where P = P])
qed

end
