(* ===== verification/CppStd.thy ===== *)
theory CppStd
  imports Errors
begin

text \<open>
  What the code uses of the C++ standard library: \<open>memcpy\<close> on a byte vector,
  \<open>std::vector::resize\<close>, and the search functions of \<open>std::string_view\<close>.
  An access outside the object is the outcome \<open>Undefined\<close>.
\<close>

type_synonym byte = "8 word"

text \<open>\<open>std::vector<uint8_t>::max_size()\<close>: the largest object is \<open>PTRDIFF_MAX\<close> bytes.\<close>

definition max_size :: nat where
  "max_size = 2 ^ 63 - 1"

definition vec_resize :: "byte list \<Rightarrow> nat \<Rightarrow> failure + byte list" where
  "vec_resize xs n = (if n \<le> max_size then Inr (take n xs @ replicate (n - length xs) 0)
                      else Inl LengthError)"

definition mem_read :: "'a list \<Rightarrow> nat \<Rightarrow> nat \<Rightarrow> failure + 'a list" where
  "mem_read xs pos n = (if pos + n \<le> length xs then Inr (take n (drop pos xs))
                        else Inl (Undefined ''read outside the buffer''))"

definition mem_write :: "'a list \<Rightarrow> nat \<Rightarrow> 'a list \<Rightarrow> failure + 'a list" where
  "mem_write xs pos ds = (if pos + length ds \<le> length xs
                          then Inr (take pos xs @ ds @ drop (pos + length ds) xs)
                          else Inl (Undefined buffer_overrun))"

text \<open>\<open>memcpy\<close> inside one vector: source and destination must not overlap.\<close>

definition mem_copy_down :: "'a list \<Rightarrow> nat \<Rightarrow> nat \<Rightarrow> failure + 'a list" where
  "mem_copy_down xs src n =
     (if n \<le> src then
        (case mem_read xs src n of Inl f \<Rightarrow> Inl f | Inr ds \<Rightarrow> mem_write xs 0 ds)
      else Inl (Undefined ''memcpy on overlapping ranges''))"

lemma max_size_bound: "n \<le> max_size \<Longrightarrow> n < 2 ^ 63"
  by (simp add: max_size_def)

lemma vec_resize_length: "vec_resize xs n = Inr ys \<Longrightarrow> length ys = n"
  by (auto simp: vec_resize_def split: if_splits)

lemma vec_resize_take: "vec_resize xs n = Inr ys \<Longrightarrow> m \<le> n \<Longrightarrow> m \<le> length xs \<Longrightarrow> take m ys = take m xs"
  by (auto simp: vec_resize_def min_def split: if_splits)

lemma mem_write_length: "mem_write xs pos ds = Inr ys \<Longrightarrow> length ys = length xs"
  by (auto simp: mem_write_def split: if_splits)

lemma mem_write_take: "mem_write xs pos ds = Inr ys \<Longrightarrow> m \<le> pos \<Longrightarrow> take m ys = take m xs"
  by (auto simp: mem_write_def min_def split: if_splits)

section \<open>Bytes and characters\<close>

text \<open>\<open>reinterpret_cast<char *>\<close> and back.\<close>

definition to_chars :: "byte list \<Rightarrow> string" where
  "to_chars bs = map (\<lambda>b. char_of (unat b)) bs"

definition to_bytes :: "string \<Rightarrow> byte list" where
  "to_bytes s = map (\<lambda>c. of_nat (of_char c)) s"

lemma to_bytes_to_chars [simp]: "to_bytes (to_chars bs) = bs"
proof -
  have "of_nat (of_char (char_of (unat b) :: char)) = b" for b :: byte
  proof -
    have "of_char (char_of (unat b) :: char) = unat b mod 256"
      by (simp add: of_char_of)
    moreover have "unat b < 256" using unsigned_less [of b] by simp
    ultimately show ?thesis by simp
  qed
  then show ?thesis by (simp add: to_bytes_def to_chars_def o_def)
qed

lemma to_chars_to_bytes [simp]: "to_chars (to_bytes s) = s"
proof -
  have "char_of (unat (of_nat (of_char c) :: byte)) = c" for c :: char
  proof -
    have "(of_char c :: nat) < 256" by simp
    then have "unat (of_nat (of_char c) :: byte) = of_char c"
      by (simp add: unat_of_nat)
    then show ?thesis by simp
  qed
  then show ?thesis by (simp add: to_bytes_def to_chars_def o_def)
qed

lemma length_to_chars [simp]: "length (to_chars bs) = length bs"
  by (simp add: to_chars_def)

lemma length_to_bytes [simp]: "length (to_bytes s) = length s"
  by (simp add: to_bytes_def)

section \<open>Searching in a string\<close>

text \<open>
  \<open>std::string_view::npos\<close> is \<open>None\<close>. \<open>sv_find s pat pos\<close> is
  \<open>s.find(pat, pos)\<close>, \<open>sv_find_first_not_of s cs pos\<close> is
  \<open>s.find_first_not_of(cs, pos)\<close>, with \<open>cs\<close> a set of characters.
\<close>

fun find_at :: "'a list \<Rightarrow> 'a list \<Rightarrow> nat \<Rightarrow> nat option" where
  "find_at pat [] i = (if pat = [] then Some i else None)"
| "find_at pat (c # cs) i =
     (if take (length pat) (c # cs) = pat then Some i else find_at pat cs (Suc i))"

definition sv_find :: "string \<Rightarrow> string \<Rightarrow> nat \<Rightarrow> nat option" where
  "sv_find s pat pos = (if pos \<le> length s then find_at pat (drop pos s) pos else None)"

fun find_not_at :: "string \<Rightarrow> string \<Rightarrow> nat \<Rightarrow> nat option" where
  "find_not_at cs [] i = None"
| "find_not_at cs (x # xs) i = (if x \<in> set cs then find_not_at cs xs (Suc i) else Some i)"

definition sv_find_first_not_of :: "string \<Rightarrow> string \<Rightarrow> nat \<Rightarrow> nat option" where
  "sv_find_first_not_of s cs pos = find_not_at cs (drop pos s) pos"

lemma find_at_Some:
  "find_at pat xs i = Some j \<Longrightarrow>
     i \<le> j \<and> j + length pat \<le> i + length xs \<and> take (length pat) (drop (j - i) xs) = pat
     \<and> (\<forall>k. i \<le> k \<and> k < j \<longrightarrow> take (length pat) (drop (k - i) xs) \<noteq> pat)"
proof (induction pat xs i rule: find_at.induct)
  case (1 pat i)
  then show ?case by (simp split: if_splits)
next
  case (2 pat c cs i)
  show ?case
  proof (cases "take (length pat) (c # cs) = pat")
    case True
    with 2 have "j = i" by simp
    moreover have "length pat \<le> length (c # cs)"
      using True by (metis length_take min.cobounded1)
    ultimately show ?thesis using True by simp
  next
    case False
    with 2 have IH: "Suc i \<le> j" "j + length pat \<le> Suc i + length cs"
      "take (length pat) (drop (j - Suc i) cs) = pat"
      "\<And>k. Suc i \<le> k \<Longrightarrow> k < j \<Longrightarrow> take (length pat) (drop (k - Suc i) cs) \<noteq> pat"
      by auto
    have min: "\<forall>k. i \<le> k \<and> k < j \<longrightarrow> take (length pat) (drop (k - i) (c # cs)) \<noteq> pat"
    proof (intro allI impI)
      fix k assume "i \<le> k \<and> k < j"
      then have that: "i \<le> k" "k < j" by auto
      show "take (length pat) (drop (k - i) (c # cs)) \<noteq> pat"
      proof (cases "k = i")
        case True
        with False show ?thesis by simp
      next
        case ne: False
        with that have "Suc i \<le> k" by simp
        with IH(4) that have "take (length pat) (drop (k - Suc i) cs) \<noteq> pat" by simp
        with ne that show ?thesis by (simp add: drop_Cons')
      qed
    qed
    have "drop (j - i) (c # cs) = drop (j - Suc i) cs" using IH(1) by (simp add: drop_Cons')
    with IH(1-3) min show ?thesis by simp
  qed
qed

lemma find_at_None:
  "find_at pat xs i = None \<Longrightarrow> take (length pat) (drop k xs) = pat \<Longrightarrow> k \<le> length xs \<Longrightarrow> False"
proof (induction pat xs i arbitrary: k rule: find_at.induct)
  case (1 pat i)
  then show ?case by (simp split: if_splits)
next
  case (2 pat c cs i)
  then show ?case by (cases k) (auto split: if_splits)
qed

lemma sv_find_Some:
  assumes "sv_find s pat pos = Some j"
  shows "pos \<le> j" "j + length pat \<le> length s" "take (length pat) (drop j s) = pat"
    "\<And>k. pos \<le> k \<Longrightarrow> k < j \<Longrightarrow> take (length pat) (drop k s) \<noteq> pat"
  using assms find_at_Some [of pat "drop pos s" pos j]
  by (auto simp: sv_find_def split: if_splits)

lemma sv_find_None:
  assumes "sv_find s pat pos = None" and "pos \<le> k" and "k \<le> length s"
  shows "take (length pat) (drop k s) \<noteq> pat"
proof
  assume eq: "take (length pat) (drop k s) = pat"
  from assms have "find_at pat (drop pos s) pos = None" by (simp add: sv_find_def)
  moreover have "take (length pat) (drop (k - pos) (drop pos s)) = pat"
    using assms eq by simp
  moreover have "k - pos \<le> length (drop pos s)" using assms by simp
  ultimately show False by (rule find_at_None)
qed

lemma find_not_at_Some:
  "find_not_at cs xs i = Some j \<Longrightarrow> i \<le> j \<and> j < i + length xs \<and> xs ! (j - i) \<notin> set cs
     \<and> set (take (j - i) xs) \<subseteq> set cs"
proof (induction cs xs i rule: find_not_at.induct)
  case (1 cs i)
  then show ?case by simp
next
  case (2 cs x xs i)
  show ?case
  proof (cases "x \<in> set cs")
    case True
    with 2 have IH: "Suc i \<le> j" "j < Suc i + length xs" "xs ! (j - Suc i) \<notin> set cs"
      "set (take (j - Suc i) xs) \<subseteq> set cs" by auto
    from IH(1) obtain d where "j = Suc i + d" using le_Suc_ex by blast
    with IH True show ?thesis by simp
  next
    case False
    with 2 show ?thesis by simp
  qed
qed

lemma find_not_at_None: "find_not_at cs xs i = None \<longleftrightarrow> set xs \<subseteq> set cs"
  by (induction cs xs i rule: find_not_at.induct) auto

text \<open>A C string: the characters before the terminating zero.\<close>

definition c_str :: "string \<Rightarrow> string" where
  "c_str s = takeWhile (\<lambda>c. c \<noteq> CHR 0x00) s"

end
