(* ===== verification/StringHelper.thy ===== *)
theory StringHelper
  imports CppStd
begin

text \<open>
  \<open>split\<close> and \<open>strip\<close> of \<open>include/base/StringHelper.h\<close>, and what they compute:
  \<open>strip\<close> is \<open>trim\<close>, and \<open>split\<close> on a one-character token returns the non-empty
  fields that are \<^emph>\<open>followed\<close> by the token (\<open>term_fields\<close>).
\<close>

section \<open>split\<close>

text \<open>
  The pair of the loop's \<open>start_pos\<close> and \<open>end_pos\<close> computed from a position;
  \<open>None\<close> when \<open>end_pos\<close> is \<open>npos\<close> (\<open>find\<close> from \<open>npos\<close> finds nothing).
\<close>

definition split_next :: "string \<Rightarrow> string \<Rightarrow> nat \<Rightarrow> (nat \<times> nat) option" where
  "split_next str token pos =
     (case sv_find_first_not_of str token pos of
        None \<Rightarrow> None
      | Some start_pos \<Rightarrow>
          (case sv_find str token start_pos of
             None \<Rightarrow> None
           | Some end_pos \<Rightarrow> Some (start_pos, end_pos)))"

partial_function (option) split_loop ::
  "string \<Rightarrow> string \<Rightarrow> (nat \<times> nat) option \<Rightarrow> string list \<Rightarrow> string list option" where
  "split_loop str token cur result =
     (case cur of
        None \<Rightarrow> Some result
      | Some se \<Rightarrow> split_loop str token (split_next str token (snd se))
          (result @ [take (snd se - fst se) (drop (fst se) str)]))"

declare split_loop.simps [code]

definition split :: "string \<Rightarrow> string \<Rightarrow> string list option" where
  "split str token =
     (case split_next str token 0 of
        None \<Rightarrow> Some [c_str str]
      | Some se \<Rightarrow> split_loop str token (Some se) [])"

lemma split_loop_None [simp]: "split_loop str token None result = Some result"
  by (simp add: split_loop.simps)

lemma split_loop_Some:
  "split_loop str token (Some (s, e)) result =
     split_loop str token (split_next str token e) (result @ [take (e - s) (drop s str)])"
  by (subst split_loop.simps) simp

lemma split_next_bounds:
  assumes "split_next str token pos = Some (s, e)"
  shows "pos \<le> s" "s \<le> e" "e + length token \<le> length str" "take (length token) (drop e str) = token"
    "s < length str" "str ! s \<notin> set token"
proof -
  from assms have ns: "sv_find_first_not_of str token pos = Some s"
    and fe: "sv_find str token s = Some e"
    by (auto simp: split_next_def split: option.splits)
  note f = find_not_at_Some [OF ns [unfolded sv_find_first_not_of_def]]
  from f show "pos \<le> s" by simp
  show "s \<le> e" "e + length token \<le> length str" "take (length token) (drop e str) = token"
    using sv_find_Some [OF fe] by simp_all
  show "s < length str" using f by simp linarith
  have "drop pos str ! (s - pos) = str ! s" using f by (subst nth_drop) auto
  then show "str ! s \<notin> set token" using f by simp
qed

text \<open>With a non-empty token every round starts beyond the token found by the last one.\<close>

lemma split_next_progress:
  assumes "take (length token) (drop e str) = token" and "token \<noteq> []"
    and "split_next str token e = Some (s', e')"
  shows "e < s'"
proof -
  note b = split_next_bounds [OF assms(3)]
  have "e < length str" using assms(1,2) by (metis drop_all leI list.size(3) take_Nil length_0_conv)
  then have "str ! e = token ! 0"
    using assms(1,2) by (metis Cons_nth_drop_Suc length_greater_0_conv nth_Cons_0 nth_take)
  then have "str ! e \<in> set token" using assms(2) by simp
  with b(1,6) show ?thesis by (metis le_neq_implies_less)
qed

lemma split_loop_terminates:
  assumes "token \<noteq> []"
  shows "take (length token) (drop e str) = token \<Longrightarrow> e \<le> length str
     \<Longrightarrow> \<exists>r. split_loop str token (split_next str token e) res = Some r"
proof (induction "length str - e" arbitrary: e res rule: less_induct)
  case less
  show ?case
  proof (cases "split_next str token e")
    case None
    then show ?thesis by simp
  next
    case (Some p)
    obtain s' e' where p: "p = (s', e')" by fastforce
    note b = split_next_bounds [OF Some [unfolded p]]
    have "e < s'" using split_next_progress [OF less.prems(1) assms Some [unfolded p]] .
    then have "length str - e' < length str - e" using b by linarith
    then have "\<exists>r. split_loop str token (split_next str token e')
        (res @ [take (e' - s') (drop s' str)]) = Some r"
      using less.hyps b by simp
    with Some p show ?thesis by (simp add: split_loop_Some)
  qed
qed

lemma split_total: "token \<noteq> [] \<Longrightarrow> \<exists>r. split str token = Some r"
  using split_next_bounds split_loop_terminates
  by (fastforce simp: split_def split_loop_Some split: option.splits)

lemma after_separators:
  "u = dropWhile (\<lambda>x. x = c) t \<Longrightarrow> c \<in> set u \<Longrightarrow> \<exists>x xs. u = x # xs \<and> x \<noteq> c"
  by (induction t) (auto split: if_splits)

text \<open>The fields of \<open>t\<close> that are followed by the separator, the empty ones left out.\<close>

function term_fields :: "char \<Rightarrow> string \<Rightarrow> string list" where
  "term_fields c t =
     (let u = dropWhile (\<lambda>x. x = c) t in
      if c \<in> set u then takeWhile (\<lambda>x. x \<noteq> c) u # term_fields c (dropWhile (\<lambda>x. x \<noteq> c) u)
      else [])"
  by pat_completeness auto
termination
proof (relation "measure (\<lambda>(c, t). length t)", goal_cases)
  case 1
  show ?case by simp
next
  case (2 c t u)
  then obtain x xs where x: "u = x # xs" "x \<noteq> c" using after_separators [OF 2] by blast
  have "length (dropWhile (\<lambda>x. x \<noteq> c) u) < length u"
    unfolding x(1) using x(2) by (simp add: less_Suc_eq_le length_dropWhile_le)
  also have "\<dots> \<le> length t" using 2 by (simp add: length_dropWhile_le)
  finally show ?case by simp
qed

declare term_fields.simps [simp del]

text \<open>The fields between separators, as usually understood.\<close>

fun pieces :: "char \<Rightarrow> string \<Rightarrow> string list" where
  "pieces c [] = [[]]"
| "pieces c (x # xs) =
     (if x = c then [] # pieces c xs
      else (case pieces c xs of [] \<Rightarrow> [[x]] | p # ps \<Rightarrow> (x # p) # ps))"

lemma pieces_nonempty [simp]: "pieces c s \<noteq> []"
  by (cases s) (auto split: list.splits)

lemma pieces_no_sep: "c \<notin> set s \<Longrightarrow> pieces c s = [s]"
  by (induction s) auto

lemma pieces_field: "c \<notin> set f \<Longrightarrow> pieces c (f @ c # rest) = f # pieces c rest"
  by (induction f) auto

lemma term_fields_pieces:
  "term_fields c t = filter (\<lambda>p. p \<noteq> []) (butlast (pieces c t))"
proof (induction c t rule: term_fields.induct)
  case (1 c t)
  let ?u = "dropWhile (\<lambda>x. x = c) t"
  have strip: "filter (\<lambda>p. p \<noteq> []) (butlast (pieces c s))
     = filter (\<lambda>p. p \<noteq> []) (butlast (pieces c (dropWhile (\<lambda>x. x = c) s)))" for s
    by (induction s) auto
  show ?case
  proof (cases "c \<in> set ?u")
    case True
    let ?f = "takeWhile (\<lambda>x. x \<noteq> c) ?u"
    have "c \<in> set v \<Longrightarrow> \<exists>rest. dropWhile (\<lambda>x. x \<noteq> c) v = c # rest" for v
      by (induction v) auto
    with True obtain rest where rest: "dropWhile (\<lambda>x. x \<noteq> c) ?u = c # rest" by blast
    have u: "?u = ?f @ c # rest" using rest by (metis takeWhile_dropWhile_id)
    have "c \<notin> set ?f" by (auto dest: set_takeWhileD)
    then have pu: "pieces c ?u = ?f # pieces c rest"
      using pieces_field by (subst u) blast
    have "?f \<noteq> []" using after_separators [OF refl True] by (auto simp del: dropWhile_eq_Nil_conv)
    then have "filter (\<lambda>p. p \<noteq> []) (butlast (pieces c t))
       = ?f # filter (\<lambda>p. p \<noteq> []) (butlast (pieces c rest))"
      by (subst strip) (simp add: pu)
    moreover have "filter (\<lambda>p. p \<noteq> []) (butlast (pieces c (c # rest)))
       = filter (\<lambda>p. p \<noteq> []) (butlast (pieces c rest))"
      by simp
    ultimately show ?thesis
      using 1 [OF refl True] True rest by (simp add: term_fields.simps [of c t] Let_def)
  next
    case False
    then have "filter (\<lambda>p. p \<noteq> []) (butlast (pieces c t)) = []"
      by (subst strip) (simp add: pieces_no_sep)
    with False show ?thesis by (simp add: term_fields.simps [of c t] Let_def)
  qed
qed

text \<open>One round of the code, seen on the rest of the string.\<close>

lemma find_not_at_single:
  "find_not_at [c] xs i =
     (let u = dropWhile (\<lambda>x. x = c) xs in if u = [] then None else Some (i + length xs - length u))"
proof (induction "[c]" xs i rule: find_not_at.induct)
  case (2 x xs i)
  have "length (dropWhile (\<lambda>x. x = c) xs) \<le> length xs" by (rule length_dropWhile_le)
  with 2 show ?case by (auto simp: Let_def)
qed simp

lemma find_at_single:
  "find_at [c] xs i = (if c \<in> set xs then Some (i + length (takeWhile (\<lambda>x. x \<noteq> c) xs)) else None)"
  by (induction "[c]" xs i rule: find_at.induct) auto

lemma drop_dropWhile:
  "drop (length xs - length (dropWhile P xs)) xs = dropWhile P xs"
proof -
  have "length xs - length (dropWhile P xs) = length (takeWhile P xs)"
    by (metis add_diff_cancel_right' length_append takeWhile_dropWhile_id)
  then show ?thesis by (simp add: dropWhile_eq_drop)
qed

lemma split_next_single:
  assumes "pos \<le> length str" and t: "t = drop pos str" and u: "u = dropWhile (\<lambda>x. x = c) t"
  shows "split_next str [c] pos =
     (if c \<in> set u then Some (length str - length u, length str - length u + length (takeWhile (\<lambda>x. x \<noteq> c) u))
      else None)"
    and "drop (length str - length u) str = u"
proof -
  have lu: "length u \<le> length t" using u by (simp add: length_dropWhile_le)
  have lt: "length t = length str - pos" using t by simp
  have "drop (length t - length u) t = u" using u drop_dropWhile by blast
  then have du: "drop (length str - length u) str = u"
    using t lu lt assms(1) by simp
  then show "drop (length str - length u) str = u" .
  have fn: "sv_find_first_not_of str [c] pos = (if u = [] then None else Some (length str - length u))"
    using t u lt assms(1) by (simp add: sv_find_first_not_of_def find_not_at_single Let_def)
  have "sv_find str [c] (length str - length u) =
    (if c \<in> set u then Some (length str - length u + length (takeWhile (\<lambda>x. x \<noteq> c) u)) else None)"
    by (simp add: sv_find_def du find_at_single)
  with fn show "split_next str [c] pos =
     (if c \<in> set u then Some (length str - length u, length str - length u + length (takeWhile (\<lambda>x. x \<noteq> c) u))
      else None)"
    by (auto simp: split_next_def)
qed

lemma split_loop_single:
  "pos \<le> length str \<Longrightarrow>
   split_loop str [c] (split_next str [c] pos) res = Some (res @ term_fields c (drop pos str))"
proof (induction "length str - pos" arbitrary: pos res rule: less_induct)
  case less
  define t where "t = drop pos str"
  define u where "u = dropWhile (\<lambda>x. x = c) t"
  note nx = split_next_single [OF less.prems t_def u_def]
  show ?case
  proof (cases "c \<in> set u")
    case False
    then have "term_fields c t = []" by (simp add: term_fields.simps [of c t] Let_def u_def)
    with False nx(1) t_def show ?thesis by simp
  next
    case True
    let ?f = "takeWhile (\<lambda>x. x \<noteq> c) u"
    let ?s = "length str - length u"
    let ?e = "?s + length ?f"
    have "length ?f > 0" using after_separators [OF u_def True] by auto
    moreover have "length ?f \<le> length u" by (rule length_takeWhile_le)
    moreover have "length u \<le> length str - pos"
      using u_def t_def by (metis length_dropWhile_le length_drop)
    ultimately have "length str - ?e < length str - pos" "?e \<le> length str"
      using less.prems by linarith+
    then have IH: "split_loop str [c] (split_next str [c] ?e) r = Some (r @ term_fields c (drop ?e str))" for r
      using less.hyps by blast
    have "take (?e - ?s) (drop ?s str) = ?f"
      using nx(2) by (simp add: takeWhile_eq_take [symmetric])
    moreover have "drop ?e str = dropWhile (\<lambda>x. x \<noteq> c) u"
      using nx(2) by (metis add.commute drop_drop dropWhile_eq_drop)
    moreover have "term_fields c t = ?f # term_fields c (dropWhile (\<lambda>x. x \<noteq> c) u)"
      using True by (subst term_fields.simps) (simp add: Let_def u_def)
    ultimately show ?thesis
      using True IH t_def by (simp add: nx(1) split_loop_Some)
  qed
qed

lemma split_single:
  "split str [c] = Some (if term_fields c str = [] then [c_str str] else term_fields c str)"
proof -
  have l: "split_loop str [c] (split_next str [c] 0) [] = Some (term_fields c str)"
    using split_loop_single [of 0 str c "[]"] by simp
  show ?thesis
  proof (cases "split_next str [c] 0")
    case None
    with l show ?thesis by (simp add: split_def)
  next
    case (Some p)
    have "term_fields c str \<noteq> []"
      using Some split_next_single(1) [of 0 str str "dropWhile (\<lambda>x. x = c) str" c]
      by (subst term_fields.simps) (auto simp: Let_def split: if_splits)
    with Some l show ?thesis by (simp add: split_def)
  qed
qed

section \<open>strip\<close>

function strip_loop :: "string \<Rightarrow> nat \<Rightarrow> nat \<Rightarrow> nat \<times> nat" where
  "strip_loop str start_pos end_pos =
     (if start_pos < end_pos then
        if str ! start_pos \<noteq> CHR '' '' \<and> str ! (end_pos - 1) \<noteq> CHR '' '' then (start_pos, end_pos)
        else strip_loop str
          (if str ! start_pos = CHR '' '' then start_pos + 1 else start_pos)
          (if str ! (end_pos - 1) = CHR '' '' then end_pos - 1 else end_pos)
      else (start_pos, end_pos))"
  by pat_completeness auto
termination
  by (relation "measure (\<lambda>(str, s, e). e - s)") auto

declare strip_loop.simps [simp del]

definition strip :: "string \<Rightarrow> string" where
  "strip str =
     (if str = [] then []
      else case strip_loop str 0 (length str) of
        (start_pos, end_pos) \<Rightarrow>
          if start_pos \<ge> end_pos then [] else take (end_pos - start_pos) (drop start_pos str))"

definition trim :: "string \<Rightarrow> string" where
  "trim s = rev (dropWhile (\<lambda>c. c = CHR '' '') (rev (dropWhile (\<lambda>c. c = CHR '' '') s)))"

lemma trim_Nil [simp]: "trim [] = []"
  by (simp add: trim_def)

lemma trim_space_front: "trim (CHR '' '' # s) = trim s"
  by (simp add: trim_def)

lemma trim_space_back: "trim (s @ [CHR '' '']) = trim s"
  by (induction s) (simp_all add: trim_def)

lemma trim_tight: "s \<noteq> [] \<Longrightarrow> hd s \<noteq> CHR '' '' \<Longrightarrow> last s \<noteq> CHR '' '' \<Longrightarrow> trim s = s"
proof -
  assume s: "s \<noteq> []" "hd s \<noteq> CHR '' ''" "last s \<noteq> CHR '' ''"
  then have "dropWhile (\<lambda>c. c = CHR '' '') s = s" by (cases s) auto
  moreover have "dropWhile (\<lambda>c. c = CHR '' '') (rev s) = rev s"
    using s by (cases "rev s") (auto simp: hd_rev [symmetric])
  ultimately show ?thesis by (simp add: trim_def)
qed

abbreviation segment :: "'a list \<Rightarrow> nat \<Rightarrow> nat \<Rightarrow> 'a list" where
  "segment s a b \<equiv> take (b - a) (drop a s)"

lemma segment_Cons: "a < b \<Longrightarrow> b \<le> length s \<Longrightarrow> segment s a b = s ! a # segment s (Suc a) b"
  by (simp add: Cons_nth_drop_Suc [symmetric] take_Cons' )

lemma segment_snoc:
  assumes "a < b" and "b \<le> length s"
  shows "segment s a b = segment s a (b - 1) @ [s ! (b - 1)]"
proof -
  have "b - a = Suc (b - 1 - a)" using assms by simp
  moreover have "b - 1 - a < length (drop a s)" using assms by simp
  ultimately show ?thesis using assms by (simp add: take_Suc_conv_app_nth)
qed

lemma strip_loop_trim:
  "e \<le> length str \<Longrightarrow>
   (case strip_loop str s e of (a, b) \<Rightarrow> if a \<ge> b then [] else segment str a b) = trim (segment str s e)"
proof (induction str s e rule: strip_loop.induct)
  case (1 str s e)
  show ?case
  proof (cases "s < e")
    case False
    then show ?thesis by (simp add: strip_loop.simps [of str s e])
  next
    case lt: True
    note front = segment_Cons [OF lt "1.prems"] and rear = segment_snoc [OF lt "1.prems"]
    show ?thesis
    proof (cases "str ! s \<noteq> CHR '' '' \<and> str ! (e - 1) \<noteq> CHR '' ''")
      case True
      have "hd (segment str s e) = str ! s" by (simp only: front list.sel)
      moreover have "last (segment str s e) = str ! (e - 1)" by (simp only: rear last_snoc)
      moreover have "segment str s e \<noteq> []" by (simp only: front list.distinct not_False_eq_True)
      ultimately have "trim (segment str s e) = segment str s e"
        using True by (intro trim_tight) simp_all
      with True lt show ?thesis by (simp add: strip_loop.simps [of str s e])
    next
      case False
      let ?s = "if str ! s = CHR '' '' then s + 1 else s"
      let ?e = "if str ! (e - 1) = CHR '' '' then e - 1 else e"
      have IH: "(case strip_loop str ?s ?e of (a, b) \<Rightarrow> if a \<ge> b then [] else segment str a b)
          = trim (segment str ?s ?e)"
      proof (rule "1.IH" [OF lt False])
        show "?e \<le> length str" using "1.prems" le_trans [OF diff_le_self] by simp
      qed
      have t1: "trim (segment str s e) = trim (segment str ?s e)"
        by (cases "str ! s = CHR '' ''") (simp_all only: front trim_space_front if_True if_False Suc_eq_plus1 simp_thms)
      have t2: "trim (segment str ?s e) = trim (segment str ?s ?e)"
      proof (cases "?s < e")
        case True
        show ?thesis
          by (cases "str ! (e - 1) = CHR '' ''")
            (simp_all only: segment_snoc [OF True "1.prems"] trim_space_back if_True if_False simp_thms)
      next
        case False
        then have e: "e \<le> ?s" by (simp only: not_less)
        have "?e \<le> e" by simp
        then have "?e \<le> ?s" using e by (rule le_trans)
        then have "?e - ?s = 0" by (simp only: diff_is_0_eq)
        moreover have "e - ?s = 0" using e by (simp only: diff_is_0_eq)
        ultimately show ?thesis by (simp only: take_0)
      qed
      have "strip_loop str s e = strip_loop str ?s ?e"
        using False lt by (subst strip_loop.simps) (simp only: if_True if_False)
      with IH t1 t2 show ?thesis by (simp only:)
    qed
  qed
qed

lemma strip_trim: "strip s = trim s"
  using strip_loop_trim [of "length s" s 0] by (simp add: strip_def)

section \<open>Properties\<close>


text \<open>C18: \<open>split\<close> ends for every string and every non-empty token.\<close>

theorem split_terminates:
  assumes "token \<noteq> []"
  shows "\<exists>r. split str token = Some r"
  using assms by (rule split_total)

theorem split_terminates_witness: "\<exists>r. split ''a, b, c'' '', '' = Some r"
  by (rule split_terminates) simp

text \<open>C19: \<open>strip\<close> removes the leading and the trailing spaces and nothing else.\<close>

theorem strip_is_trim: "strip str = trim str"
  by (rule strip_trim)

end
