(* ===== verification/Decimal.thy ===== *)
theory Decimal
  imports CppStd
begin

text \<open>
  Decimal numbers as the C++ library writes and reads them: \<open>std::to_string\<close> (and
  \<open>fmt\<close>'s default format) of an unsigned number, and \<open>strtoull\<close>'s digits, which
  \<open>std::stoul\<close> and \<open>std::stoi\<close> read after white space and a sign.
\<close>

definition digit :: "nat \<Rightarrow> char" where
  "digit d = char_of (48 + d)"

definition is_digit :: "char \<Rightarrow> bool" where
  "is_digit c \<longleftrightarrow> 48 \<le> (of_char c :: nat) \<and> (of_char c :: nat) \<le> 57"

definition digit_val :: "char \<Rightarrow> nat" where
  "digit_val c = of_char c - 48"

fun to_dec :: "nat \<Rightarrow> string" where
  "to_dec n = (if n < 10 then [digit n] else to_dec (n div 10) @ [digit (n mod 10)])"

declare to_dec.simps [simp del]

definition dec_val :: "string \<Rightarrow> nat" where
  "dec_val ds = foldl (\<lambda>v c. v * 10 + digit_val c) 0 ds"

lemma digit_code: "d < 10 \<Longrightarrow> of_char (digit d) = 48 + (d :: nat)"
  by (simp add: digit_def of_char_of)

lemma digit_is_digit [simp]: "d < 10 \<Longrightarrow> is_digit (digit d)"
  by (simp add: is_digit_def digit_code)

lemma digit_val_digit [simp]: "d < 10 \<Longrightarrow> digit_val (digit d) = d"
  by (simp add: digit_val_def digit_code)

lemma to_dec_nonempty [simp]: "to_dec n \<noteq> []"
  by (subst to_dec.simps) simp

lemma to_dec_digits: "c \<in> set (to_dec n) \<Longrightarrow> is_digit c"
proof (induction n rule: to_dec.induct)
  case (1 n)
  then show ?case by (subst (asm) to_dec.simps) (auto split: if_splits)
qed

lemma dec_val_to_dec [simp]: "dec_val (to_dec n) = n"
proof (induction n rule: to_dec.induct)
  case (1 n)
  show ?case
  proof (cases "n < 10")
    case True
    then show ?thesis by (simp add: to_dec.simps [of n] dec_val_def)
  next
    case False
    then have "dec_val (to_dec n) = dec_val (to_dec (n div 10)) * 10 + n mod 10"
      by (simp add: to_dec.simps [of n] dec_val_def)
    with 1 [OF False] show ?thesis by simp
  qed
qed

lemma to_dec_inj: "to_dec m = to_dec n \<longleftrightarrow> m = n"
  by (metis dec_val_to_dec)

lemma dot_no_digit: "CHR ''.'' \<notin> set (to_dec n)"
  using to_dec_digits [of "CHR ''.''" n] by (auto simp: is_digit_def)

text \<open>The longest prefix of digits.\<close>

lemma takeWhile_to_dec:
  "(\<forall>c \<in> set rest. \<not> is_digit c) \<or> rest = [] \<or> \<not> is_digit (hd rest) \<Longrightarrow> takeWhile is_digit (to_dec n @ rest) = to_dec n"
  using to_dec_digits [of _ n] by (cases rest) (auto simp: takeWhile_append takeWhile_eq_all_conv)

end
