(* ===== verification/Kernel.thy ===== *)
theory Kernel
  imports CppStd
begin

text \<open>
  What the library asks of the operating system: one record with the answers of the
  system calls, an argument of the operations that make them. The calls are not part of
  the program; what the code relies on is stated as hypotheses on this record
  (\<open>read_ok\<close> and \<open>write_ok\<close> of \<open>TcpBuffer\<close>, \<open>ctl_ok\<close> and \<open>new_fd_ok\<close> here).
\<close>

datatype ctl_op = CTL_ADD | CTL_MOD | CTL_DEL

datatype IP_PROTOCOL = IPv4 | IPv6

text \<open>
  \<open>k_epoll_ctl op fd i\<close> is the answer of \<open>epoll_ctl\<close>, \<open>i\<close> being the entry of
  \<open>fd\<close> in the kernel's interest list. A call that makes a descriptor gets the list of
  the open ones. \<open>k_connect\<close> is 0 or an error number.
  \<open>k_now n\<close> is the steady clock when it is read for the n-th time.
\<close>

record kernel =
  k_epoll_ctl :: "ctl_op \<Rightarrow> int \<Rightarrow> 32 word option \<Rightarrow> int"
  k_epoll_wait :: "int \<times> (int \<times> 32 word) list"
  k_fcntl :: "int \<Rightarrow> int"
  k_eventfd_write :: int
  k_eventfd_read :: int
  k_read :: "int \<Rightarrow> nat \<Rightarrow> int \<times> byte list"
  k_write :: "int \<Rightarrow> byte list \<Rightarrow> int"
  k_so_error :: "int \<Rightarrow> int"
  k_errno :: int
  k_new_fd :: "int list \<Rightarrow> int"
  k_accept :: "int \<Rightarrow> int list \<Rightarrow> int"
  k_inet_pton :: "IP_PROTOCOL \<Rightarrow> string \<Rightarrow> bool"
  k_connect :: "int \<Rightarrow> int"
  k_bind :: "int \<Rightarrow> int"
  k_listen :: "int \<Rightarrow> int"
  k_setsockopt :: "int \<Rightarrow> int"
  k_sockname :: "int \<Rightarrow> (byte list \<times> nat) option"
  k_peername :: "int \<Rightarrow> byte list \<times> nat"
  k_now :: "nat \<Rightarrow> int"

text \<open>
  A kernel whose calls all succeed: no event is pending, a read delivers nothing beyond
  end of file, a write takes everything, a new descriptor is the successor of the
  largest one. Concrete runs start from it.
\<close>

definition next_fd :: "int list \<Rightarrow> int" where
  "next_fd fds = foldr max fds 2 + 1"

definition quiet_kernel :: kernel where
  "quiet_kernel = \<lparr>k_epoll_ctl = (\<lambda>op _ i. if op = CTL_ADD \<and> i \<noteq> None then -1 else 0),
     k_epoll_wait = (0, []), k_fcntl = (\<lambda>_. 0),
     k_eventfd_write = 8, k_eventfd_read = 8, k_read = (\<lambda>_ _. (0, [])),
     k_write = (\<lambda>_ ds. int (length ds)), k_so_error = (\<lambda>_. 0), k_errno = 0,
     k_new_fd = next_fd, k_accept = (\<lambda>_. next_fd), k_inet_pton = (\<lambda>_ _. True),
     k_connect = (\<lambda>_. 0), k_bind = (\<lambda>_. 0), k_listen = (\<lambda>_. 0), k_setsockopt = (\<lambda>_. 0),
     k_sockname = (\<lambda>_. Some ([127, 0, 0, 1], 8848)), k_peername = (\<lambda>_. ([127, 0, 0, 1], 40000)),
     k_now = (\<lambda>n. int n + 1)\<rparr>"

text \<open>What the manual pages promise.\<close>

text \<open>\<open>EPOLL_CTL_ADD\<close> fails with \<open>EEXIST\<close> on a descriptor that is in the list.\<close>

definition ctl_ok :: "kernel \<Rightarrow> bool" where
  "ctl_ok k \<longleftrightarrow> (\<forall>fd e. k_epoll_ctl k CTL_ADD fd (Some e) \<noteq> 0)"

text \<open>A new descriptor is not one of the open ones.\<close>

definition new_fd_ok :: "kernel \<Rightarrow> bool" where
  "new_fd_ok k \<longleftrightarrow> (\<forall>fds. k_new_fd k fds \<notin> set fds) \<and> (\<forall>l fds. k_accept k l fds \<notin> set fds)"

lemma next_fd_fresh: "next_fd fds \<notin> set fds"
proof -
  have "fd \<in> set fds \<Longrightarrow> fd \<le> foldr max fds 2" for fd
    by (induction fds) auto
  then show ?thesis by (force simp: next_fd_def)
qed

lemma quiet_ok: "ctl_ok quiet_kernel" "new_fd_ok quiet_kernel"
  by (simp_all add: ctl_ok_def new_fd_ok_def quiet_kernel_def next_fd_fresh)

end
