(* ===== verification/Channel.thy ===== *)
theory Channel
  imports Kernel
begin

unbundle bit_operations_syntax

text \<open>
  A channel (\<open>include/net/Channel.h\<close>, \<open>src/net/Channel.cpp\<close>): a file descriptor, the
  events it asks for, the events the last poll returned, and four callbacks. The callbacks
  are closures; \<open>'cb\<close> names them, and who runs a name is a parameter of the event loop.
  The operations that register the channel with its loop are in \<open>EventLoop\<close>.
\<close>

datatype ChannelPriority = Normal | High

text \<open>The underlying values of the enumeration, and its order.\<close>

fun prio_val :: "ChannelPriority \<Rightarrow> nat" where
  "prio_val Normal = 0"
| "prio_val High = 1"

lemma prio_val_inject: "prio_val p = prio_val q \<longleftrightarrow> p = q"
  by (cases p; cases q) simp_all

instantiation ChannelPriority :: linorder
begin

definition less_eq_ChannelPriority :: "ChannelPriority \<Rightarrow> ChannelPriority \<Rightarrow> bool" where
  "p \<le> q \<longleftrightarrow> prio_val p \<le> prio_val q"

definition less_ChannelPriority :: "ChannelPriority \<Rightarrow> ChannelPriority \<Rightarrow> bool" where
  "p < q \<longleftrightarrow> prio_val p < prio_val q"

instance
  by standard (auto simp: less_eq_ChannelPriority_def less_ChannelPriority_def prio_val_inject)

end

definition EPOLLIN :: "32 word" where "EPOLLIN = 0x1"
definition EPOLLPRI :: "32 word" where "EPOLLPRI = 0x2"
definition EPOLLOUT :: "32 word" where "EPOLLOUT = 0x4"
definition EPOLLERR :: "32 word" where "EPOLLERR = 0x8"
definition EPOLLHUP :: "32 word" where "EPOLLHUP = 0x10"
definition EPOLLRDHUP :: "32 word" where "EPOLLRDHUP = 0x2000"

lemmas epoll_defs = EPOLLIN_def EPOLLPRI_def EPOLLOUT_def EPOLLERR_def EPOLLHUP_def EPOLLRDHUP_def

definition CHANNEL_READ_EVENT :: "32 word" where
  "CHANNEL_READ_EVENT = EPOLLIN OR EPOLLPRI"

definition CHANNEL_WRITE_EVENT :: "32 word" where
  "CHANNEL_WRITE_EVENT = EPOLLOUT"

definition CHANNEL_NONE_EVENT :: "32 word" where
  "CHANNEL_NONE_EVENT = 0"

lemmas channel_event_defs = CHANNEL_READ_EVENT_def CHANNEL_WRITE_EVENT_def CHANNEL_NONE_EVENT_def epoll_defs

record 'cb channel =
  mReadCb :: 'cb
  mWriteCb :: 'cb
  mErrorCb :: 'cb
  mCloseCb :: 'cb
  mEvent :: "32 word"
  mRevent :: "32 word"
  mFd :: int
  mPriority :: ChannelPriority
  mChannelInfo :: string

text \<open>The members after the constructor; the default callbacks do nothing.\<close>

definition Channel_init :: "'cb \<Rightarrow> int \<Rightarrow> ChannelPriority \<Rightarrow> 'cb channel" where
  "Channel_init nop fd priority =
     \<lparr>mReadCb = nop, mWriteCb = nop, mErrorCb = nop, mCloseCb = nop,
      mEvent = EPOLLERR, mRevent = 0, mFd = fd, mPriority = priority, mChannelInfo = []\<rparr>"

text \<open>The callbacks that \<open>handleEvent\<close> runs, in their order.\<close>

definition handleEvent_calls :: "'cb channel \<Rightarrow> 'cb list" where
  "handleEvent_calls c =
     (if mRevent c AND EPOLLHUP \<noteq> 0 \<and> \<not> mRevent c AND EPOLLIN \<noteq> 0 then [mCloseCb c]
      else if mRevent c AND EPOLLERR \<noteq> 0 then [mErrorCb c]
      else
        (if mRevent c AND (EPOLLIN OR EPOLLPRI OR EPOLLRDHUP) \<noteq> 0 then [mReadCb c] else [])
        @ (if mRevent c AND EPOLLOUT \<noteq> 0 then [mWriteCb c] else []))"

definition isWriting :: "'cb channel \<Rightarrow> bool" where
  "isWriting c \<longleftrightarrow> mEvent c AND CHANNEL_WRITE_EVENT \<noteq> 0"

definition isReading :: "'cb channel \<Rightarrow> bool" where
  "isReading c \<longleftrightarrow> mEvent c AND CHANNEL_READ_EVENT \<noteq> 0"

section \<open>The masks\<close>

lemma epoll_bits:
  "EPOLLIN = push_bit 0 1" "EPOLLPRI = push_bit 1 1" "EPOLLOUT = push_bit 2 1"
  "EPOLLERR = push_bit 3 1" "EPOLLHUP = push_bit 4 1" "EPOLLRDHUP = push_bit 13 1"
  by (simp_all add: epoll_defs)

lemma revent_bits:
  "(x :: 32 word) AND EPOLLIN \<noteq> 0 \<longleftrightarrow> bit x 0"
  "x AND EPOLLPRI \<noteq> 0 \<longleftrightarrow> bit x 1"
  "x AND EPOLLOUT \<noteq> 0 \<longleftrightarrow> bit x 2"
  "x AND EPOLLERR \<noteq> 0 \<longleftrightarrow> bit x 3"
  "x AND EPOLLHUP \<noteq> 0 \<longleftrightarrow> bit x 4"
  "x AND EPOLLRDHUP \<noteq> 0 \<longleftrightarrow> bit x 13"
  by (simp_all only: epoll_bits bit_iff_and_push_bit_not_eq_0)

lemma and_or_nonzero:
  "(x :: 32 word) AND (a OR b) \<noteq> 0 \<longleftrightarrow> x AND a \<noteq> 0 \<or> x AND b \<noteq> 0"
  by (simp add: bit.conj_disj_distrib or_eq_0_iff)

lemma write_bit: "(x :: 32 word) AND CHANNEL_WRITE_EVENT \<noteq> 0 \<longleftrightarrow> bit x 2"
  by (simp only: CHANNEL_WRITE_EVENT_def revent_bits)

lemma read_bits: "(x :: 32 word) AND CHANNEL_READ_EVENT \<noteq> 0 \<longleftrightarrow> bit x 0 \<or> bit x 1"
  by (simp only: CHANNEL_READ_EVENT_def and_or_nonzero revent_bits)

lemma bit_READ: "bit CHANNEL_READ_EVENT n \<longleftrightarrow> n = 0 \<or> n = 1"
  by (simp only: CHANNEL_READ_EVENT_def epoll_bits bit_or_iff bit_push_bit_iff bit_1_iff)
    (auto simp: possible_bit_word)

lemma bit_WRITE: "bit CHANNEL_WRITE_EVENT n \<longleftrightarrow> n = 2"
  by (simp only: CHANNEL_WRITE_EVENT_def epoll_bits bit_push_bit_iff bit_1_iff)
    (auto simp: possible_bit_word)

text \<open>\<open>isWriting\<close> and \<open>isReading\<close> as bits of \<open>mEvent\<close>.\<close>

lemma isWriting_bit: "isWriting c \<longleftrightarrow> bit (mEvent c) 2"
  by (simp add: isWriting_def write_bit)

lemma isReading_bits: "isReading c \<longleftrightarrow> bit (mEvent c) 0 \<or> bit (mEvent c) 1"
  by (simp add: isReading_def read_bits)

text \<open>Enabling and disabling one direction leaves the other alone.\<close>

lemma enable_read_mask:
  "isReading (c\<lparr>mEvent := mEvent c OR CHANNEL_READ_EVENT\<rparr>)"
  "isWriting (c\<lparr>mEvent := mEvent c OR CHANNEL_READ_EVENT\<rparr>) = isWriting c"
  by (simp_all add: isReading_bits isWriting_bit bit_or_iff bit_READ)

lemma enable_write_mask:
  "isWriting (c\<lparr>mEvent := mEvent c OR CHANNEL_WRITE_EVENT\<rparr>)"
  "isReading (c\<lparr>mEvent := mEvent c OR CHANNEL_WRITE_EVENT\<rparr>) = isReading c"
  by (simp_all add: isReading_bits isWriting_bit bit_or_iff bit_WRITE)

lemma disable_read_mask:
  "\<not> isReading (c\<lparr>mEvent := mEvent c AND NOT CHANNEL_READ_EVENT\<rparr>)"
  "isWriting (c\<lparr>mEvent := mEvent c AND NOT CHANNEL_READ_EVENT\<rparr>) = isWriting c"
  by (simp_all add: isReading_bits isWriting_bit bit_and_iff bit_not_iff bit_READ)

lemma disable_write_mask:
  "\<not> isWriting (c\<lparr>mEvent := mEvent c AND NOT CHANNEL_WRITE_EVENT\<rparr>)"
  "isReading (c\<lparr>mEvent := mEvent c AND NOT CHANNEL_WRITE_EVENT\<rparr>) = isReading c"
  by (simp_all add: isReading_bits isWriting_bit bit_and_iff bit_not_iff bit_WRITE)

lemma disable_all_mask:
  "\<not> isWriting (c\<lparr>mEvent := CHANNEL_NONE_EVENT\<rparr>)"
  "\<not> isReading (c\<lparr>mEvent := CHANNEL_NONE_EVENT\<rparr>)"
  by (simp_all add: isReading_bits isWriting_bit CHANNEL_NONE_EVENT_def)

lemma init_mask: "\<not> isReading (Channel_init nop fd p)" "\<not> isWriting (Channel_init nop fd p)"
  by (simp_all add: isReading_def isWriting_def Channel_init_def channel_event_defs)

section \<open>Dispatch\<close>

text \<open>
  Which callbacks run, by the bits of the returned events (0 IN, 1 PRI, 2 OUT, 3 ERR,
  4 HUP, 13 RDHUP).
\<close>

lemma handleEvent_calls_bits:
  "handleEvent_calls c =
     (let r = bit (mRevent c) in
      if r 4 \<and> \<not> r 0 then [mCloseCb c]
      else if r 3 then [mErrorCb c]
      else (if r 0 \<or> r 1 \<or> r 13 then [mReadCb c] else []) @ (if r 2 then [mWriteCb c] else []))"
  by (simp add: handleEvent_calls_def Let_def revent_bits and_or_nonzero)

lemma handleEvent_at_most_two: "length (handleEvent_calls c) \<le> 2"
  by (simp add: handleEvent_calls_def)

end
