(* ===== verification/Epoller.thy ===== *)
theory Epoller
  imports Channel "HOL-Library.Multiset"
begin

text \<open>
  The wrapper of epoll (\<open>include/net/Epoller.h\<close>, \<open>src/net/Epoller.cpp\<close>): the map from
  file descriptors to channels and the set of registered channels. A \<open>Channel *\<close> is an
  address, a \<open>nat\<close>. The field \<open>interest\<close> is the kernel's interest list as the
  successful \<open>epoll_ctl\<close> calls of this program built it; no operation reads it.
\<close>

type_synonym addr = nat

record epoller =
  mChannelMap :: "int \<Rightarrow> addr option"
  mChannelSet :: "addr set"
  interest :: "int \<Rightarrow> 32 word option"

definition Epoller_new :: epoller where
  "Epoller_new = \<lparr>mChannelMap = Map.empty, mChannelSet = {}, interest = Map.empty\<rparr>"

definition transEventToStr :: "32 word \<Rightarrow> string" where
  "transEventToStr event =
     (if event AND EPOLLIN \<noteq> 0 then ''IN '' else [])
     @ (if event AND EPOLLOUT \<noteq> 0 then ''OUT '' else [])
     @ (if event AND EPOLLERR \<noteq> 0 then ''ERR '' else [])
     @ (if event AND EPOLLHUP \<noteq> 0 then ''HUP '' else [])
     @ (if event AND EPOLLRDHUP \<noteq> 0 then ''RDHUP '' else [])
     @ (if event AND EPOLLPRI \<noteq> 0 then ''PRI '' else [])"

definition hasChannel :: "epoller \<Rightarrow> addr \<Rightarrow> bool" where
  "hasChannel p a \<longleftrightarrow> a \<in> mChannelSet p"

text \<open>\<open>std::unordered_map::insert\<close> leaves an existing entry alone.\<close>

definition umap_insert :: "('k \<Rightarrow> 'v option) \<Rightarrow> 'k \<Rightarrow> 'v \<Rightarrow> ('k \<Rightarrow> 'v option)" where
  "umap_insert m k v = (case m k of None \<Rightarrow> m(k := Some v) | Some _ \<Rightarrow> m)"

definition epoll_ctl :: "kernel \<Rightarrow> ctl_op \<Rightarrow> int \<Rightarrow> 32 word option \<Rightarrow> string \<Rightarrow> (failure, epoller, unit) exec" where
  "epoll_ctl k op fd ev msg =
     withE (\<lambda>p. if k_epoll_ctl k op fd (interest p fd) \<noteq> 0 then throwE (SystemException msg)
      else modifyE (\<lambda>p. p\<lparr>interest := (interest p)(fd := ev)\<rparr>))"

definition Epoller_addChannel :: "kernel \<Rightarrow> addr \<Rightarrow> 'cb channel \<Rightarrow> (failure, epoller, unit) exec" where
  "Epoller_addChannel k a c = withE (\<lambda>p. block
     [assertTrue (\<not> hasChannel p a) ''addChannel: channel has existed.'',
      epoll_ctl k CTL_ADD (mFd c) (Some 0) ''addChannel failed.'',
      modifyE (\<lambda>p. p\<lparr>mChannelMap := umap_insert (mChannelMap p) (mFd c) a\<rparr>),
      modifyE (\<lambda>p. p\<lparr>mChannelSet := insert a (mChannelSet p)\<rparr>)])"

definition Epoller_updateChannel :: "kernel \<Rightarrow> addr \<Rightarrow> 'cb channel \<Rightarrow> (failure, epoller, unit) exec" where
  "Epoller_updateChannel k a c = withE (\<lambda>p. block
     [assertTrue (hasChannel p a) ''updateChannel: channel has not existed.'',
      epoll_ctl k CTL_MOD (mFd c) (Some (mEvent c)) ''updateChannel failed.''])"

definition Epoller_removeChannel :: "kernel \<Rightarrow> addr \<Rightarrow> 'cb channel \<Rightarrow> (failure, epoller, unit) exec" where
  "Epoller_removeChannel k a c = withE (\<lambda>p. block
     [assertTrue (hasChannel p a) ''removeChannel: channel has not exist.'',
      epoll_ctl k CTL_DEL (mFd c) None ''removeChannel failed.'',
      modifyE (\<lambda>p. p\<lparr>mChannelMap := (mChannelMap p)(mFd c := None)\<rparr>),
      modifyE (\<lambda>p. p\<lparr>mChannelSet := mChannelSet p - {a}\<rparr>)])"

lemmas epoller_defs = Epoller_addChannel_def Epoller_updateChannel_def Epoller_removeChannel_def
  epoll_ctl_def hasChannel_def umap_insert_def

section \<open>Each call either fails without a change or does all of its work\<close>

lemma addChannel_cases:
  "\<not> hasChannel p a \<Longrightarrow> k_epoll_ctl k CTL_ADD (mFd c) (interest p (mFd c)) = 0 \<Longrightarrow>
     Epoller_addChannel k a c p =
       (Inr (), p\<lparr>interest := (interest p)(mFd c := Some 0),
                  mChannelMap := umap_insert (mChannelMap p) (mFd c) a,
                  mChannelSet := insert a (mChannelSet p)\<rparr>)"
  "hasChannel p a \<Longrightarrow> Epoller_addChannel k a c p =
       (Inl (Terminate ''addChannel: channel has existed.''), p)"
  "\<not> hasChannel p a \<Longrightarrow> k_epoll_ctl k CTL_ADD (mFd c) (interest p (mFd c)) \<noteq> 0 \<Longrightarrow>
     Epoller_addChannel k a c p = (Inl (SystemException ''addChannel failed.''), p)"
  by (simp_all add: epoller_defs exec_simps split: option.split)

lemma updateChannel_cases:
  "hasChannel p a \<Longrightarrow> k_epoll_ctl k CTL_MOD (mFd c) (interest p (mFd c)) = 0 \<Longrightarrow>
     Epoller_updateChannel k a c p = (Inr (), p\<lparr>interest := (interest p)(mFd c := Some (mEvent c))\<rparr>)"
  "\<not> hasChannel p a \<Longrightarrow> Epoller_updateChannel k a c p =
       (Inl (Terminate ''updateChannel: channel has not existed.''), p)"
  "hasChannel p a \<Longrightarrow> k_epoll_ctl k CTL_MOD (mFd c) (interest p (mFd c)) \<noteq> 0 \<Longrightarrow>
     Epoller_updateChannel k a c p = (Inl (SystemException ''updateChannel failed.''), p)"
  by (simp_all add: epoller_defs exec_simps)

lemma removeChannel_cases:
  "hasChannel p a \<Longrightarrow> k_epoll_ctl k CTL_DEL (mFd c) (interest p (mFd c)) = 0 \<Longrightarrow>
     Epoller_removeChannel k a c p =
       (Inr (), p\<lparr>interest := (interest p)(mFd c := None),
                  mChannelMap := (mChannelMap p)(mFd c := None),
                  mChannelSet := mChannelSet p - {a}\<rparr>)"
  "\<not> hasChannel p a \<Longrightarrow> Epoller_removeChannel k a c p =
       (Inl (Terminate ''removeChannel: channel has not exist.''), p)"
  "hasChannel p a \<Longrightarrow> k_epoll_ctl k CTL_DEL (mFd c) (interest p (mFd c)) \<noteq> 0 \<Longrightarrow>
     Epoller_removeChannel k a c p = (Inl (SystemException ''removeChannel failed.''), p)"
  by (simp_all add: epoller_defs exec_simps)

section \<open>Sorting the active channels\<close>

text \<open>
  \<open>poll\<close> sorts with \<open>std::sort\<close>, which is not stable: the sort is an argument, and
  \<open>std_sort_ok\<close> is its contract for the comparison
  \<open>left->getPriority() > right->getPriority()\<close>.
\<close>

type_synonym prio_sort = "(addr \<Rightarrow> ChannelPriority) \<Rightarrow> addr list \<Rightarrow> addr list"

definition std_sort_ok :: "prio_sort \<Rightarrow> bool" where
  "std_sort_ok srt \<longleftrightarrow>
     (\<forall>pr xs. mset (srt pr xs) = mset xs \<and> sorted_wrt (\<lambda>a b. pr a \<ge> pr b) (srt pr xs))"

text \<open>One sort that meets the contract, for concrete runs.\<close>

definition stable_prio_sort :: prio_sort where
  "stable_prio_sort pr xs = filter (\<lambda>a. pr a = High) xs @ filter (\<lambda>a. pr a \<noteq> High) xs"

lemma stable_prio_sort_ok: "std_sort_ok stable_prio_sort"
proof -
  have "mset (stable_prio_sort pr xs) = mset xs" for pr xs
    by (simp add: stable_prio_sort_def)
  moreover have "sorted_wrt (\<lambda>a b. pr a \<ge> pr b) (filter (\<lambda>a. pr a = High) xs)" for pr and xs :: "addr list"
    by (induction xs) auto
  moreover have nh: "pr a \<noteq> High \<longleftrightarrow> pr a = Normal" for pr and a :: addr
    by (cases "pr a") auto
  moreover have "sorted_wrt (\<lambda>a b. pr a \<ge> pr b) (filter (\<lambda>a. pr a = Normal) xs)" for pr and xs :: "addr list"
    by (induction xs) auto
  ultimately show ?thesis
    by (auto simp: std_sort_ok_def stable_prio_sort_def sorted_wrt_append less_eq_ChannelPriority_def)
qed

end
