(* ===== verification/EventLoop.thy ===== *)
theory EventLoop
  imports Epoller
begin

text \<open>
  The event loop (\<open>include/net/EventLoop.h\<close>, \<open>src/net/EventLoop.cpp\<close>) with the channels
  registered in it, and the channel operations that call the loop
  (\<open>src/net/Channel.cpp\<close>). The record is the state one loop thread sees; the components
  above extend it with their own fields.

  \<open>channels\<close> is the heap of the live \<open>Channel\<close> objects; an access through an address
  that is not in it is \<open>Undefined\<close>. \<open>tCurrentLoop\<close> is the thread-local pointer of the
  thread that runs the code, \<open>loopId\<close> the identity of this loop. \<open>openFds\<close> are the
  descriptors the process holds, as the kernel sees them. Closures are names: the
  callbacks of a channel are of type \<open>'cb\<close>, the queued functors of type \<open>'t\<close>, and
  \<open>run_cb\<close>, \<open>run_task\<close> say what running one does.
\<close>

record ('cb, 't) event_loop =
  mIsExit :: bool
  mIsLoopingNow :: bool
  mIsDoPendingWorks :: bool
  mPendingTasks :: "'t list"
  mpPoller :: epoller
  mWakeups :: nat
  tCurrentLoop :: "nat option"
  loopId :: nat
  channels :: "addr \<Rightarrow> 'cb channel option"
  nextAddr :: addr
  openFds :: "int list"

type_synonym ('cb, 't, 'z, 'a) loop_exec = "(failure, ('cb, 't, 'z) event_loop_scheme, 'a) exec"

section \<open>Operations of the loop\<close>

definition isInLoopThread :: "('cb, 't, 'z) event_loop_scheme \<Rightarrow> bool" where
  "isInLoopThread w \<longleftrightarrow> tCurrentLoop w \<noteq> None"

definition assertInLoopThread :: "('cb, 't, 'z, unit) loop_exec" where
  "assertInLoopThread = withE (\<lambda>w.
     assertTrue (isInLoopThread w) ''[EventLoop] assertInLoopThread failed!'')"

definition on_poller :: "(failure, epoller, unit) exec \<Rightarrow> ('cb, 't, 'z, unit) loop_exec" where
  "on_poller m w = (case m (mpPoller w) of (r, p) \<Rightarrow> (r, w\<lparr>mpPoller := p\<rparr>))"

definition with_channel :: "addr \<Rightarrow> ('cb channel \<Rightarrow> ('cb, 't, 'z, 'a) loop_exec) \<Rightarrow> ('cb, 't, 'z, 'a) loop_exec" where
  "with_channel a f = withE (\<lambda>w. case channels w a of
     None \<Rightarrow> throwE (Undefined ''access to a deleted Channel'') | Some c \<Rightarrow> f c)"

definition set_channel :: "addr \<Rightarrow> 'cb channel \<Rightarrow> ('cb, 't, 'z, unit) loop_exec" where
  "set_channel a c = modifyE (\<lambda>w. w\<lparr>channels := (channels w)(a := Some c)\<rparr>)"

definition EventLoop_addChannel :: "kernel \<Rightarrow> addr \<Rightarrow> ('cb, 't, 'z, unit) loop_exec" where
  "EventLoop_addChannel k a = with_channel a (\<lambda>c. block
     [assertInLoopThread, on_poller (Epoller_addChannel k a c)])"

text \<open>\<open>unwinding\<close> is \<open>std::uncaught_exceptions() > 0\<close>.\<close>

definition EventLoop_removeChannel :: "kernel \<Rightarrow> bool \<Rightarrow> addr \<Rightarrow> ('cb, 't, 'z, unit) loop_exec" where
  "EventLoop_removeChannel k unwinding a = with_channel a (\<lambda>c. withE (\<lambda>w. block
     [assertInLoopThread,
      assertTrue (mIsLoopingNow w = False \<or> unwinding) ''Don't remove channel in loop! Should queueInLoop...'',
      on_poller (Epoller_removeChannel k a c)]))"

definition EventLoop_updateChannel :: "kernel \<Rightarrow> addr \<Rightarrow> ('cb, 't, 'z, unit) loop_exec" where
  "EventLoop_updateChannel k a = with_channel a (\<lambda>c. block
     [assertInLoopThread, on_poller (Epoller_updateChannel k a c)])"

definition wakeup :: "kernel \<Rightarrow> ('cb, 't, 'z, unit) loop_exec" where
  "wakeup k = (if k_eventfd_write k < 0 then throwE (SystemException ''[EventFd] handleRead failed.'')
               else modifyE (\<lambda>w. w\<lparr>mWakeups := mWakeups w + 1\<rparr>))"

definition queueInLoop :: "kernel \<Rightarrow> 't \<Rightarrow> ('cb, 't, 'z, unit) loop_exec" where
  "queueInLoop k t = block
     [modifyE (\<lambda>w. w\<lparr>mPendingTasks := mPendingTasks w @ [t]\<rparr>), wakeup k]"

definition quitLoop :: "kernel \<Rightarrow> ('cb, 't, 'z, unit) loop_exec" where
  "quitLoop k = block
     [modifyE (\<lambda>w. w\<lparr>mIsExit := True\<rparr>),
      withE (\<lambda>w. whenE (\<not> isInLoopThread w) (wakeup k))]"

text \<open>
  \<open>runInLoop\<close> runs the functor at once when \<open>isInLoopThread()\<close> says so, and
  otherwise queues it and blocks until the loop has run it.
\<close>

definition runInLoop :: "kernel \<Rightarrow> ('t \<Rightarrow> ('cb, 't, 'z, unit) loop_exec) \<Rightarrow> 't \<Rightarrow> ('cb, 't, 'z, unit) loop_exec" where
  "runInLoop k run t = withE (\<lambda>w. if isInLoopThread w then run t else queueInLoop k t)"

text \<open>
  \<open>discard\<close> destroys a functor with what it captured: the swapped-out vector of tasks is
  destroyed when \<open>doPendingTasks\<close> is left, by its end or by an exception.
\<close>

definition doPendingTasks :: "('t \<Rightarrow> ('cb, 't, 'z, unit) loop_exec) \<Rightarrow> ('t \<Rightarrow> ('cb, 't, 'z, unit) loop_exec)
    \<Rightarrow> ('cb, 't, 'z, unit) loop_exec" where
  "doPendingTasks run_task discard = block
     [modifyE (\<lambda>w. w\<lparr>mIsDoPendingWorks := True\<rparr>),
      withE (\<lambda>w. block
        [modifyE (\<lambda>w. w\<lparr>mPendingTasks := []\<rparr>),
         catchE (forE run_task (mPendingTasks w))
           (\<lambda>e. if fatal e then throwE e else block [forE discard (mPendingTasks w), throwE e]),
         modifyE (\<lambda>w. w\<lparr>mIsDoPendingWorks := False\<rparr>),
         forE discard (mPendingTasks w)])]"

section \<open>Operations of a channel\<close>

text \<open>
  The constructor: the object exists from here on, and registers itself. When the
  constructor throws there is no object.
\<close>

definition Channel_create :: "kernel \<Rightarrow> 'cb \<Rightarrow> int \<Rightarrow> ChannelPriority \<Rightarrow> ('cb, 't, 'z, addr) loop_exec" where
  "Channel_create k nop fd priority = withE (\<lambda>w.
     let a = nextAddr w in
     catchE
       (bindE (block
          [modifyE (\<lambda>w. w\<lparr>nextAddr := a + 1\<rparr>),
           assertInLoopThread,
           assertTrue (fd \<ge> 0) ''[Channl] File descriptor must be valid!'',
           (if k_fcntl k fd \<noteq> 0 then throwE (SystemException ''[Channl] File descriptor must be non-blocking!'')
            else retE ()),
           set_channel a (Channel_init nop fd priority),
           EventLoop_addChannel k a])
         (\<lambda>_. retE a))
       (\<lambda>e. thenE (modifyE (\<lambda>w. w\<lparr>channels := (channels w)(a := None)\<rparr>)) (throwE e)))"

text \<open>The destructor, a \<open>noexcept\<close> function.\<close>

definition Channel_destroy :: "kernel \<Rightarrow> bool \<Rightarrow> addr \<Rightarrow> ('cb, 't, 'z, unit) loop_exec" where
  "Channel_destroy k unwinding a = noexcept (with_channel a (\<lambda>c. block
     [assertInLoopThread,
      EventLoop_removeChannel k unwinding a,
      modifyE (\<lambda>w. w\<lparr>channels := (channels w)(a := None)\<rparr>)]))"

definition enableRead :: "kernel \<Rightarrow> addr \<Rightarrow> ('cb, 't, 'z, unit) loop_exec" where
  "enableRead k a = with_channel a (\<lambda>c.
     if mEvent c AND CHANNEL_READ_EVENT \<noteq> 0 then retE ()
     else block [set_channel a (c\<lparr>mEvent := mEvent c OR CHANNEL_READ_EVENT\<rparr>), EventLoop_updateChannel k a])"

definition enableWrite :: "kernel \<Rightarrow> addr \<Rightarrow> ('cb, 't, 'z, unit) loop_exec" where
  "enableWrite k a = with_channel a (\<lambda>c.
     if mEvent c AND CHANNEL_WRITE_EVENT \<noteq> 0 then retE ()
     else block [set_channel a (c\<lparr>mEvent := mEvent c OR CHANNEL_WRITE_EVENT\<rparr>), EventLoop_updateChannel k a])"

definition disableRead :: "kernel \<Rightarrow> addr \<Rightarrow> ('cb, 't, 'z, unit) loop_exec" where
  "disableRead k a = with_channel a (\<lambda>c.
     if \<not> mEvent c AND CHANNEL_READ_EVENT \<noteq> 0 then retE ()
     else block [set_channel a (c\<lparr>mEvent := mEvent c AND NOT CHANNEL_READ_EVENT\<rparr>), EventLoop_updateChannel k a])"

definition disableWrite :: "kernel \<Rightarrow> addr \<Rightarrow> ('cb, 't, 'z, unit) loop_exec" where
  "disableWrite k a = with_channel a (\<lambda>c.
     if \<not> mEvent c AND CHANNEL_WRITE_EVENT \<noteq> 0 then retE ()
     else block [set_channel a (c\<lparr>mEvent := mEvent c AND NOT CHANNEL_WRITE_EVENT\<rparr>), EventLoop_updateChannel k a])"

definition disableAll :: "kernel \<Rightarrow> addr \<Rightarrow> ('cb, 't, 'z, unit) loop_exec" where
  "disableAll k a = with_channel a (\<lambda>c.
     block [set_channel a (c\<lparr>mEvent := CHANNEL_NONE_EVENT\<rparr>), EventLoop_updateChannel k a])"

definition handleEvent :: "('cb \<Rightarrow> ('cb, 't, 'z, unit) loop_exec) \<Rightarrow> addr \<Rightarrow> ('cb, 't, 'z, unit) loop_exec" where
  "handleEvent run_cb a = with_channel a (\<lambda>c. forE run_cb (handleEvent_calls c))"

section \<open>Polling and the loop\<close>

text \<open>The loop of \<open>Epoller::poll\<close> over the returned events, and the sort after it.\<close>

fun poll_collect :: "(int \<times> 32 word) list \<Rightarrow> addr list \<Rightarrow> ('cb, 't, 'z, addr list) loop_exec" where
  "poll_collect [] result = retE result"
| "poll_collect ((fd, ev) # evs) result = withE (\<lambda>w.
     case mChannelMap (mpPoller w) fd of
       None \<Rightarrow> throwE (Terminate ''poll : fd not existed.'')
     | Some a \<Rightarrow> with_channel a (\<lambda>c.
         thenE (set_channel a (c\<lparr>mRevent := ev\<rparr>)) (poll_collect evs (result @ [a]))))"

definition priority_of :: "('cb, 't, 'z) event_loop_scheme \<Rightarrow> addr \<Rightarrow> ChannelPriority" where
  "priority_of w a = (case channels w a of None \<Rightarrow> Normal | Some c \<Rightarrow> mPriority c)"

definition EPOLL_MAX_WAIT_NUM :: nat where "EPOLL_MAX_WAIT_NUM = 256"

definition Epoller_poll :: "kernel \<Rightarrow> prio_sort \<Rightarrow> ('cb, 't, 'z, addr list) loop_exec" where
  "Epoller_poll k srt =
     (let count = fst (k_epoll_wait k) in
      if count < 0 then throwE (SystemException ''poll failed.'')
      else bindE (poll_collect (take (nat count) (snd (k_epoll_wait k))) []) (\<lambda>result.
        withE (\<lambda>w. retE (if length result > 1 then srt (priority_of w) result else result))))"

definition loop_round :: "kernel \<Rightarrow> prio_sort \<Rightarrow> ('cb \<Rightarrow> ('cb, 't, 'z, unit) loop_exec)
    \<Rightarrow> ('t \<Rightarrow> ('cb, 't, 'z, unit) loop_exec) \<Rightarrow> ('t \<Rightarrow> ('cb, 't, 'z, unit) loop_exec) \<Rightarrow> ('cb, 't, 'z, unit) loop_exec" where
  "loop_round k srt run_cb run_task discard =
     thenE (modifyE (\<lambda>w. w\<lparr>mIsLoopingNow := True\<rparr>))
       (bindE (Epoller_poll k srt) (\<lambda>active. block
          [whenE (length active = 0) (modifyE (\<lambda>w. w\<lparr>mIsLoopingNow := False\<rparr>)),
           forE (\<lambda>a. withE (\<lambda>w. if hasChannel (mpPoller w) a then handleEvent run_cb a else retE ())) active,
           modifyE (\<lambda>w. w\<lparr>mIsLoopingNow := False\<rparr>),
           doPendingTasks run_task discard]))"

text \<open>
  \<open>startLoop\<close> runs until \<open>mIsExit\<close>; the kernel's answers are one record per round, and
  the list of them is the horizon up to which the run is observed. The callbacks may make
  system calls of their own, so they take the round's kernel too.
\<close>

fun loop_rounds :: "kernel list \<Rightarrow> prio_sort \<Rightarrow> (kernel \<Rightarrow> 'cb \<Rightarrow> ('cb, 't, 'z, unit) loop_exec)
    \<Rightarrow> (kernel \<Rightarrow> 't \<Rightarrow> ('cb, 't, 'z, unit) loop_exec) \<Rightarrow> (kernel \<Rightarrow> 't \<Rightarrow> ('cb, 't, 'z, unit) loop_exec)
    \<Rightarrow> ('cb, 't, 'z, unit) loop_exec" where
  "loop_rounds [] srt run_cb run_task discard = retE ()"
| "loop_rounds (k # ks) srt run_cb run_task discard = withE (\<lambda>w.
     if mIsExit w then retE ()
     else thenE (loop_round k srt (run_cb k) (run_task k) (discard k)) (loop_rounds ks srt run_cb run_task discard))"

definition startLoop :: "kernel list \<Rightarrow> prio_sort \<Rightarrow> (kernel \<Rightarrow> 'cb \<Rightarrow> ('cb, 't, 'z, unit) loop_exec)
    \<Rightarrow> (kernel \<Rightarrow> 't \<Rightarrow> ('cb, 't, 'z, unit) loop_exec) \<Rightarrow> (kernel \<Rightarrow> 't \<Rightarrow> ('cb, 't, 'z, unit) loop_exec)
    \<Rightarrow> ('cb, 't, 'z, unit) loop_exec" where
  "startLoop ks srt run_cb run_task discard = block
     [assertInLoopThread,
      modifyE (\<lambda>w. w\<lparr>mIsExit := False\<rparr>),
      loop_rounds ks srt run_cb run_task discard]"

lemmas chan_op_defs = with_channel_def set_channel_def on_poller_def assertInLoopThread_def
  EventLoop_addChannel_def EventLoop_removeChannel_def EventLoop_updateChannel_def

section \<open>Well-formed loops\<close>

text \<open>
  The registration invariant: the poller knows exactly the live channels, one channel per
  descriptor, and no descriptor without a channel is in the kernel's interest list.
\<close>

definition net_wf :: "('cb, 't, 'z) event_loop_scheme \<Rightarrow> bool" where
  "net_wf w \<longleftrightarrow>
     (\<forall>a. a \<in> mChannelSet (mpPoller w) \<longleftrightarrow> channels w a \<noteq> None)
   \<and> (\<forall>fd a. mChannelMap (mpPoller w) fd = Some a \<longleftrightarrow> (\<exists>c. channels w a = Some c \<and> mFd c = fd))
   \<and> (\<forall>fd. mChannelMap (mpPoller w) fd = None \<longleftrightarrow> interest (mpPoller w) fd = None)
   \<and> (\<forall>a. nextAddr w \<le> a \<longrightarrow> channels w a = None)"

text \<open>The kernel watches a channel's descriptor for the directions the channel asks for.\<close>

definition monitors :: "32 word \<Rightarrow> 'cb channel \<Rightarrow> bool" where
  "monitors e c \<longleftrightarrow> (\<forall>i \<in> {0, 1, 2}. bit e i = bit (mEvent c) i)"

definition watched :: "('cb, 't, 'z) event_loop_scheme \<Rightarrow> bool" where
  "watched w \<longleftrightarrow> (\<forall>a c. channels w a = Some c \<longrightarrow>
     (\<exists>e. interest (mpPoller w) (mFd c) = Some e \<and> monitors e c))"

lemma net_wf_set: "net_wf w \<Longrightarrow> a \<in> mChannelSet (mpPoller w) \<longleftrightarrow> channels w a \<noteq> None"
  by (simp add: net_wf_def)

lemma net_wf_map: "net_wf w \<Longrightarrow> mChannelMap (mpPoller w) fd = Some a \<longleftrightarrow> (\<exists>c. channels w a = Some c \<and> mFd c = fd)"
  by (simp add: net_wf_def)

lemma net_wf_interest: "net_wf w \<Longrightarrow> mChannelMap (mpPoller w) fd = None \<longleftrightarrow> interest (mpPoller w) fd = None"
  by (simp add: net_wf_def)

lemma net_wf_inj:
  assumes "net_wf w" and "channels w a = Some c" and "channels w a' = Some c'" and "mFd c = mFd c'"
  shows "a = a'"
proof -
  have "mChannelMap (mpPoller w) (mFd c) = Some a" using assms by (simp add: net_wf_map)
  moreover have "mChannelMap (mpPoller w) (mFd c) = Some a'" using assms by (auto simp: net_wf_map)
  ultimately show ?thesis by simp
qed

text \<open>Fields of the state that the invariant does not read.\<close>

lemma net_wf_frame:
  assumes "net_wf w" and "mpPoller w' = mpPoller w" and "channels w' = channels w" and "nextAddr w' = nextAddr w"
  shows "net_wf w'"
  using assms by (simp add: net_wf_def)

lemma net_wf_fields [simp]:
  "net_wf (w\<lparr>mIsExit := b\<rparr>) = net_wf w"
  "net_wf (w\<lparr>mIsLoopingNow := b\<rparr>) = net_wf w"
  "net_wf (w\<lparr>mIsDoPendingWorks := b\<rparr>) = net_wf w"
  "net_wf (w\<lparr>mPendingTasks := ts\<rparr>) = net_wf w"
  "net_wf (w\<lparr>mWakeups := n\<rparr>) = net_wf w"
  "net_wf (w\<lparr>tCurrentLoop := x\<rparr>) = net_wf w"
  "net_wf (w\<lparr>openFds := fds\<rparr>) = net_wf w"
  by (simp_all add: net_wf_def)

text \<open>The steps of the operations.\<close>

lemma net_wf_set_channel:
  assumes "net_wf w" and "channels w a = Some c" and "mFd c' = mFd c"
  shows "net_wf (w\<lparr>channels := (channels w)(a := Some c')\<rparr>)"
proof -
  have "(\<exists>d. ((channels w)(a := Some c')) b = Some d \<and> mFd d = fd) \<longleftrightarrow> (\<exists>d. channels w b = Some d \<and> mFd d = fd)"
    for b fd using assms(2,3) by auto
  with assms show ?thesis by (auto simp: net_wf_def)
qed

lemma net_wf_set_interest:
  assumes "net_wf w" and "channels w a = Some c"
  shows "net_wf (w\<lparr>mpPoller := (mpPoller w)\<lparr>interest := (interest (mpPoller w))(mFd c := Some e)\<rparr>\<rparr>)"
proof -
  have "mChannelMap (mpPoller w) (mFd c) = Some a" using assms by (simp add: net_wf_map)
  then have "\<exists>e. interest (mpPoller w) (mFd c) = Some e"
    using net_wf_interest [OF assms(1), of "mFd c"] by auto
  with assms(1) show ?thesis by (auto simp: net_wf_def)
qed

lemma net_wf_register:
  assumes wf: "net_wf w" and new: "nextAddr w \<le> a" and free: "interest (mpPoller w) (mFd c) = None"
  shows "net_wf (w\<lparr>nextAddr := a + 1, channels := (channels w)(a := Some c),
      mpPoller := (mpPoller w)\<lparr>interest := (interest (mpPoller w))(mFd c := Some e),
        mChannelMap := umap_insert (mChannelMap (mpPoller w)) (mFd c) a,
        mChannelSet := insert a (mChannelSet (mpPoller w))\<rparr>\<rparr>)"
proof -
  have fresh: "channels w a = None" using wf new by (simp add: net_wf_def)
  have nomap: "mChannelMap (mpPoller w) (mFd c) = None" using wf free by (simp add: net_wf_interest)
  then have nofd: "channels w b = Some d \<Longrightarrow> mFd d \<noteq> mFd c" for b d
    using wf net_wf_map [of w "mFd c" b] by auto
  have ins: "umap_insert (mChannelMap (mpPoller w)) (mFd c) a = (mChannelMap (mpPoller w))(mFd c := Some a)"
    by (simp add: umap_insert_def nomap)
  have m: "((mChannelMap (mpPoller w))(mFd c := Some a)) fd = Some b \<longleftrightarrow>
      (\<exists>d. ((channels w)(a := Some c)) b = Some d \<and> mFd d = fd)" for fd b
    using net_wf_map [OF wf, of fd b] fresh nofd [of b] nomap by (cases "b = a"; cases "fd = mFd c") auto
  have i: "((mChannelMap (mpPoller w))(mFd c := Some a)) fd = None \<longleftrightarrow>
      ((interest (mpPoller w))(mFd c := Some e)) fd = None" for fd
    using net_wf_interest [OF wf, of fd] by simp
  have s: "b \<in> insert a (mChannelSet (mpPoller w)) \<longleftrightarrow> ((channels w)(a := Some c)) b \<noteq> None" for b
    using net_wf_set [OF wf, of b] by simp
  have n: "a + 1 \<le> b \<Longrightarrow> ((channels w)(a := Some c)) b = None" for b
    using wf new by (simp add: net_wf_def)
  show ?thesis unfolding net_wf_def using m i s n by (simp add: ins)
qed

lemma net_wf_unregister:
  assumes wf: "net_wf w" and c: "channels w a = Some c"
  shows "net_wf (w\<lparr>channels := (channels w)(a := None),
      mpPoller := (mpPoller w)\<lparr>interest := (interest (mpPoller w))(mFd c := None),
        mChannelMap := (mChannelMap (mpPoller w))(mFd c := None),
        mChannelSet := mChannelSet (mpPoller w) - {a}\<rparr>\<rparr>)"
proof -
  have m: "((mChannelMap (mpPoller w))(mFd c := None)) fd = Some b \<longleftrightarrow>
      (\<exists>d. ((channels w)(a := None)) b = Some d \<and> mFd d = fd)" for fd b
  proof (cases "b = a")
    case True
    then show ?thesis using net_wf_map [OF wf, of fd a] c by auto
  next
    case False
    then have "channels w b = Some d \<Longrightarrow> mFd d \<noteq> mFd c" for d
      using net_wf_inj [OF wf, of b d a c] c by auto
    with False show ?thesis using net_wf_map [OF wf, of fd b] by auto
  qed
  have i: "((mChannelMap (mpPoller w))(mFd c := None)) fd = None \<longleftrightarrow>
      ((interest (mpPoller w))(mFd c := None)) fd = None" for fd
    using net_wf_interest [OF wf, of fd] by simp
  have s: "b \<in> mChannelSet (mpPoller w) - {a} \<longleftrightarrow> ((channels w)(a := None)) b \<noteq> None" for b
    using net_wf_set [OF wf, of b] by auto
  have n: "nextAddr w \<le> b \<Longrightarrow> ((channels w)(a := None)) b = None" for b
    using wf by (simp add: net_wf_def)
  show ?thesis unfolding net_wf_def using m i s n by simp
qed

section \<open>What the channel operations do\<close>

text \<open>
  Every operation that changes the event mask of a live channel does so in its record and,
  through \<open>epoll_ctl\<close>, in the kernel; \<open>mask_set\<close> is that step.
\<close>

definition mask_set :: "addr \<Rightarrow> 32 word \<Rightarrow> 'cb channel \<Rightarrow> ('cb, 't, 'z) event_loop_scheme \<Rightarrow> ('cb, 't, 'z) event_loop_scheme" where
  "mask_set a ev c w = w\<lparr>channels := (channels w)(a := Some (c\<lparr>mEvent := ev\<rparr>)),
     mpPoller := (mpPoller w)\<lparr>interest := (interest (mpPoller w))(mFd c := Some ev)\<rparr>\<rparr>"

lemma update_mask:
  assumes wf: "net_wf w" and c: "channels w a = Some c" and th: "isInLoopThread w"
  shows "block [set_channel a (c\<lparr>mEvent := ev\<rparr>), EventLoop_updateChannel k a] w =
    (if k_epoll_ctl k CTL_MOD (mFd c) (interest (mpPoller w) (mFd c)) = 0 then (Inr (), mask_set a ev c w)
     else (Inl (SystemException ''updateChannel failed.''), w\<lparr>channels := (channels w)(a := Some (c\<lparr>mEvent := ev\<rparr>))\<rparr>))"
proof -
  have "hasChannel (mpPoller w) a" using wf c by (simp add: hasChannel_def net_wf_set)
  with th show ?thesis
    by (simp add: chan_op_defs exec_simps updateChannel_cases mask_set_def isInLoopThread_def)
qed

lemma net_wf_mask_set: "net_wf w \<Longrightarrow> channels w a = Some c \<Longrightarrow> net_wf (mask_set a ev c w)"
proof -
  assume wf: "net_wf w" and c: "channels w a = Some c"
  let ?w1 = "w\<lparr>channels := (channels w)(a := Some (c\<lparr>mEvent := ev\<rparr>))\<rparr>"
  have wf1: "net_wf ?w1" by (rule net_wf_set_channel [OF wf c]) simp
  have c1: "channels ?w1 a = Some (c\<lparr>mEvent := ev\<rparr>)" by simp
  from net_wf_set_interest [OF wf1 c1, of ev]
  show ?thesis by (simp add: mask_set_def)
qed

lemma watched_mask_set:
  assumes wf: "net_wf w" and w: "watched w" and c: "channels w a = Some c"
  shows "watched (mask_set a ev c w)"
  unfolding watched_def
proof (intro allI impI)
  fix b d assume d: "channels (mask_set a ev c w) b = Some d"
  show "\<exists>e. interest (mpPoller (mask_set a ev c w)) (mFd d) = Some e \<and> monitors e d"
  proof (cases "b = a")
    case True
    with d show ?thesis by (auto simp: mask_set_def monitors_def)
  next
    case False
    with d have d': "channels w b = Some d" by (simp add: mask_set_def)
    with False have "mFd d \<noteq> mFd c" using net_wf_inj [OF wf d' c] by auto
    with w d' show ?thesis by (auto simp: watched_def mask_set_def)
  qed
qed

lemma preserves_update_mask:
  fixes f :: "'cb channel \<Rightarrow> ('cb, 't, 'z, unit) loop_exec"
  assumes "\<And>c. f c = retE () \<or> (\<exists>ev. f c = block [set_channel a (c\<lparr>mEvent := ev\<rparr>), EventLoop_updateChannel k a])"
  shows "preserves net_wf (with_channel a f)"
proof (rule preservesI)
  fix w :: "('cb, 't, 'z) event_loop_scheme" assume wf: "net_wf w"
  show "net_wf (snd (with_channel a f w))"
  proof (cases "channels w a")
    case None
    with wf show ?thesis by (simp add: with_channel_def)
  next
    case (Some c)
    from assms [of c] show ?thesis
    proof
      assume "f c = retE ()"
      with wf Some show ?thesis by (simp add: with_channel_def)
    next
      assume "\<exists>ev. f c = block [set_channel a (c\<lparr>mEvent := ev\<rparr>), EventLoop_updateChannel k a]"
      then obtain ev where f: "f c = block [set_channel a (c\<lparr>mEvent := ev\<rparr>), EventLoop_updateChannel k a]" by blast
      have wf1: "net_wf (w\<lparr>channels := (channels w)(a := Some (c\<lparr>mEvent := ev\<rparr>))\<rparr>)"
        by (rule net_wf_set_channel [OF wf Some]) simp
      have eq: "with_channel a f w = block [set_channel a (c\<lparr>mEvent := ev\<rparr>), EventLoop_updateChannel k a] w"
        using Some f by (simp add: with_channel_def)
      show ?thesis
      proof (cases "isInLoopThread w")
        case True
        then show ?thesis unfolding eq update_mask [OF wf Some True]
          using wf1 net_wf_mask_set [OF wf Some] by simp
      next
        case False
        then show ?thesis unfolding eq using wf1
          by (simp add: chan_op_defs exec_simps isInLoopThread_def)
      qed
    qed
  qed
qed

lemma preserves_enableRead [preserves_intros]: "preserves net_wf (enableRead k a)"
  and preserves_enableWrite [preserves_intros]: "preserves net_wf (enableWrite k a)"
  and preserves_disableRead [preserves_intros]: "preserves net_wf (disableRead k a)"
  and preserves_disableWrite [preserves_intros]: "preserves net_wf (disableWrite k a)"
  and preserves_disableAll [preserves_intros]: "preserves net_wf (disableAll k a)"
  unfolding enableRead_def enableWrite_def disableRead_def disableWrite_def disableAll_def
  by (rule preserves_update_mask [where k = k], simp, blast)+

end
