(* ===== verification/Registration.thy ===== *)
theory Registration
  imports EventLoop
begin

text \<open>
  Creating, changing and destroying channels of a well-formed loop: what each operation
  does on every branch, that the registration invariant survives, and that a descriptor
  stays open as long as a channel is registered for it.
\<close>

section \<open>Every branch of the constructor and the destructor\<close>

definition register :: "addr \<Rightarrow> 'cb channel \<Rightarrow> ('cb, 't, 'z) event_loop_scheme \<Rightarrow> ('cb, 't, 'z) event_loop_scheme" where
  "register a c w = w\<lparr>nextAddr := a + 1, channels := (channels w)(a := Some c),
      mpPoller := (mpPoller w)\<lparr>interest := (interest (mpPoller w))(mFd c := Some 0),
        mChannelMap := umap_insert (mChannelMap (mpPoller w)) (mFd c) a,
        mChannelSet := insert a (mChannelSet (mpPoller w))\<rparr>\<rparr>"

definition unregister :: "addr \<Rightarrow> 'cb channel \<Rightarrow> ('cb, 't, 'z) event_loop_scheme \<Rightarrow> ('cb, 't, 'z) event_loop_scheme" where
  "unregister a c w = w\<lparr>channels := (channels w)(a := None),
      mpPoller := (mpPoller w)\<lparr>interest := (interest (mpPoller w))(mFd c := None),
        mChannelMap := (mChannelMap (mpPoller w))(mFd c := None),
        mChannelSet := mChannelSet (mpPoller w) - {a}\<rparr>\<rparr>"

definition create_ok :: "kernel \<Rightarrow> int \<Rightarrow> ('cb, 't, 'z) event_loop_scheme \<Rightarrow> bool" where
  "create_ok k fd w \<longleftrightarrow> isInLoopThread w \<and> fd \<ge> 0 \<and> k_fcntl k fd = 0
     \<and> k_epoll_ctl k CTL_ADD fd (interest (mpPoller w) fd) = 0"

lemma net_wf_fresh: "net_wf w \<Longrightarrow> nextAddr w \<le> a \<Longrightarrow> channels w a = None"
  by (simp add: net_wf_def)

lemma mFd_init [simp]: "mFd (Channel_init nop fd p) = fd"
  by (simp add: Channel_init_def)

lemma Channel_create_ok:
  assumes wf: "net_wf w" and ok: "create_ok k fd w"
  shows "Channel_create k nop fd p w =
    (Inr (nextAddr w), register (nextAddr w) (Channel_init nop fd p) w)"
proof -
  have nf: "channels w (nextAddr w) = None" using wf by (simp add: net_wf_fresh)
  then have "nextAddr w \<notin> mChannelSet (mpPoller w)" using wf by (simp add: net_wf_set)
  then have nh: "\<not> hasChannel (mpPoller w) (nextAddr w)" by (simp add: hasChannel_def)
  have kc: "k_epoll_ctl k CTL_ADD (mFd (Channel_init nop fd p)) (interest (mpPoller w) (mFd (Channel_init nop fd p))) = 0"
    using ok by (simp add: create_ok_def)
  show ?thesis using ok
    by (simp add: Channel_create_def Let_def exec_simps chan_op_defs isInLoopThread_def create_ok_def
        register_def addChannel_cases(1) [OF nh kc])
qed

lemma Channel_create_fails:
  assumes wf: "net_wf w" and ok: "\<not> create_ok k fd w"
  shows "\<exists>e. Channel_create k nop fd p w = (Inl e, w\<lparr>nextAddr := nextAddr w + 1\<rparr>)
     \<and> ((\<exists>m. e = Terminate m) \<or> (\<exists>m. e = SystemException m))"
proof -
  have nf: "channels w (nextAddr w) = None" using wf by (simp add: net_wf_fresh)
  then have id: "(channels w)(nextAddr w := None) = channels w" by (simp add: fun_upd_idem)
  have "nextAddr w \<notin> mChannelSet (mpPoller w)" using wf nf by (simp add: net_wf_set)
  then have nh: "\<not> hasChannel (mpPoller w) (nextAddr w)" by (simp add: hasChannel_def)
  show ?thesis
  proof (cases "isInLoopThread w \<and> fd \<ge> 0 \<and> k_fcntl k fd = 0")
    case False
    then show ?thesis using id
      by (auto simp: Channel_create_def Let_def exec_simps chan_op_defs isInLoopThread_def assertTrue_def)
  next
    case True
    with ok have kc: "k_epoll_ctl k CTL_ADD (mFd (Channel_init nop fd p))
        (interest (mpPoller w) (mFd (Channel_init nop fd p))) \<noteq> 0"
      by (simp add: create_ok_def)
    show ?thesis using True id
      by (simp add: Channel_create_def Let_def exec_simps chan_op_defs isInLoopThread_def
          addChannel_cases(3) [OF nh kc])
  qed
qed

lemma Channel_create_nonblock:
  "isInLoopThread w \<Longrightarrow> fd \<ge> 0 \<Longrightarrow> k_fcntl k fd \<noteq> 0 \<Longrightarrow>
   \<exists>w'. Channel_create k nop fd p w = (Inl (SystemException ''[Channl] File descriptor must be non-blocking!''), w')"
  by (simp add: Channel_create_def Let_def exec_simps assertInLoopThread_def isInLoopThread_def)

definition destroy_ok :: "kernel \<Rightarrow> bool \<Rightarrow> 'cb channel \<Rightarrow> ('cb, 't, 'z) event_loop_scheme \<Rightarrow> bool" where
  "destroy_ok k unwinding c w \<longleftrightarrow> isInLoopThread w \<and> (\<not> mIsLoopingNow w \<or> unwinding)
     \<and> k_epoll_ctl k CTL_DEL (mFd c) (interest (mpPoller w) (mFd c)) = 0"

lemma Channel_destroy_ok:
  assumes wf: "net_wf w" and c: "channels w a = Some c" and ok: "destroy_ok k u c w"
  shows "Channel_destroy k u a w = (Inr (), unregister a c w)"
proof -
  have h: "hasChannel (mpPoller w) a" using wf c by (simp add: hasChannel_def net_wf_set)
  have kc: "k_epoll_ctl k CTL_DEL (mFd c) (interest (mpPoller w) (mFd c)) = 0"
    using ok by (simp add: destroy_ok_def)
  show ?thesis using ok c
    by (simp add: Channel_destroy_def noexcept_def exec_simps chan_op_defs isInLoopThread_def
        destroy_ok_def unregister_def removeChannel_cases(1) [OF h kc])
qed

text \<open>
  Anything else ends the process: the destructor is \<open>noexcept\<close>, and removing a channel
  while the loop dispatches events is refused by an assertion.
\<close>

lemma Channel_destroy_fails:
  assumes wf: "net_wf w" and c: "channels w a = Some c" and ok: "\<not> destroy_ok k u c w"
  shows "\<exists>m. Channel_destroy k u a w = (Inl (Terminate m), w)"
proof -
  have h: "hasChannel (mpPoller w) a" using wf c by (simp add: hasChannel_def net_wf_set)
  consider (th) "\<not> isInLoopThread w" | (loop) "isInLoopThread w" "mIsLoopingNow w" "\<not> u"
    | (ctl) "isInLoopThread w" "\<not> mIsLoopingNow w \<or> u"
        "k_epoll_ctl k CTL_DEL (mFd c) (interest (mpPoller w) (mFd c)) \<noteq> 0"
    using ok by (auto simp: destroy_ok_def)
  then show ?thesis
  proof cases
    case th
    with c show ?thesis
      by (simp add: Channel_destroy_def noexcept_def exec_simps chan_op_defs isInLoopThread_def)
  next
    case loop
    with c show ?thesis
      by (simp add: Channel_destroy_def noexcept_def exec_simps chan_op_defs isInLoopThread_def)
  next
    case ctl
    with c show ?thesis
      by (auto simp: Channel_destroy_def noexcept_def exec_simps chan_op_defs isInLoopThread_def
          removeChannel_cases(3) [OF h ctl(3)])
  qed
qed

section \<open>The invariant\<close>

lemma net_wf_register':
  assumes "net_wf w" and "nextAddr w \<le> a" and "interest (mpPoller w) (mFd c) = None"
  shows "net_wf (register a c w)"
  using net_wf_register [OF assms] by (simp add: register_def)

lemma net_wf_unregister': "net_wf w \<Longrightarrow> channels w a = Some c \<Longrightarrow> net_wf (unregister a c w)"
  using net_wf_unregister by (simp add: unregister_def)

lemma net_wf_nextAddr: "net_wf w \<Longrightarrow> nextAddr w \<le> n \<Longrightarrow> net_wf (w\<lparr>nextAddr := n\<rparr>)"
  by (simp add: net_wf_def)

lemma create_ok_free: "ctl_ok k \<Longrightarrow> create_ok k fd w \<Longrightarrow> interest (mpPoller w) fd = None"
  by (cases "interest (mpPoller w) fd") (auto simp: create_ok_def ctl_ok_def)

lemma preserves_Channel_create: "ctl_ok k \<Longrightarrow> preserves net_wf (Channel_create k nop fd p :: ('cb, 't, 'z, addr) loop_exec)"
proof (rule preservesI)
  fix w :: "('cb, 't, 'z) event_loop_scheme"
  assume k: "ctl_ok k" and wf: "net_wf w"
  show "net_wf (snd (Channel_create k nop fd p w))"
  proof (cases "create_ok k fd w")
    case True
    show ?thesis unfolding Channel_create_ok [OF wf True]
      using net_wf_register' [OF wf, of "nextAddr w" "Channel_init nop fd p"] create_ok_free [OF k True] by simp
  next
    case False
    from Channel_create_fails [OF wf False, of nop p] net_wf_nextAddr [OF wf, of "nextAddr w + 1"]
    show ?thesis by auto
  qed
qed

lemma preserves_Channel_destroy: "preserves net_wf (Channel_destroy k u a :: ('cb, 't, 'z, unit) loop_exec)"
proof (rule preservesI)
  fix w :: "('cb, 't, 'z) event_loop_scheme"
  assume wf: "net_wf w"
  show "net_wf (snd (Channel_destroy k u a w))"
  proof (cases "channels w a")
    case None
    with wf show ?thesis by (simp add: Channel_destroy_def noexcept_def exec_simps with_channel_def)
  next
    case (Some c)
    show ?thesis
    proof (cases "destroy_ok k u c w")
      case True
      then show ?thesis unfolding Channel_destroy_ok [OF wf Some True]
        using net_wf_unregister' [OF wf Some] by simp
    next
      case False
      from Channel_destroy_fails [OF wf Some False] wf show ?thesis by auto
    qed
  qed
qed

section \<open>Registered descriptors are open\<close>

definition fds_open :: "('cb, 't, 'z) event_loop_scheme \<Rightarrow> bool" where
  "fds_open w \<longleftrightarrow> (\<forall>a c. channels w a = Some c \<longrightarrow> mFd c \<in> set (openFds w))"

lemma fds_openD: "fds_open w \<Longrightarrow> channels w a = Some c \<Longrightarrow> mFd c \<in> set (openFds w)"
  by (auto simp: fds_open_def)

lemma fds_open_register: "fds_open w \<Longrightarrow> mFd c \<in> set (openFds w) \<Longrightarrow> fds_open (register a c w)"
  by (auto simp: fds_open_def register_def)

lemma fds_open_unregister: "fds_open w \<Longrightarrow> fds_open (unregister a c w)"
  by (auto simp: fds_open_def unregister_def)

text \<open>After the channel of a descriptor is gone, closing the descriptor is safe.\<close>

lemma fds_open_close:
  assumes wf: "net_wf w" and o: "fds_open w" and c: "channels w a = Some c"
  shows "fds_open ((unregister a c w)\<lparr>openFds := removeAll (mFd c) (openFds w)\<rparr>)"
  unfolding fds_open_def
proof (intro allI impI)
  fix b d assume d: "channels ((unregister a c w)\<lparr>openFds := removeAll (mFd c) (openFds w)\<rparr>) b = Some d"
  then have d': "channels w b = Some d" "b \<noteq> a" by (auto simp: unregister_def split: if_splits)
  then have "mFd d \<noteq> mFd c" using net_wf_inj [OF wf d'(1) c] by auto
  with fds_openD [OF o d'(1)]
  show "mFd d \<in> set (openFds ((unregister a c w)\<lparr>openFds := removeAll (mFd c) (openFds w)\<rparr>))"
    by simp
qed

section \<open>The event masks\<close>

text \<open>
  The state after a change of a channel's mask: only that channel's \<open>mEvent\<close> and the
  kernel's interest list differ.
\<close>

definition mask_step :: "addr \<Rightarrow> ('cb, 't, 'z) event_loop_scheme \<Rightarrow> ('cb, 't, 'z) event_loop_scheme \<Rightarrow> bool" where
  "mask_step a w w' \<longleftrightarrow> w' = w \<or> (\<exists>c ev i. channels w a = Some c \<and>
     w' = w\<lparr>channels := (channels w)(a := Some (c\<lparr>mEvent := ev\<rparr>)),
            mpPoller := (mpPoller w)\<lparr>interest := i\<rparr>\<rparr>)"

lemma mask_step_upd:
  "net_wf w \<Longrightarrow> channels w a = Some c \<Longrightarrow>
   mask_step a w (snd (block [set_channel a (c\<lparr>mEvent := ev\<rparr>), EventLoop_updateChannel k a] w))"
proof -
  assume wf: "net_wf w" and c: "channels w a = Some c"
  have self: "w\<lparr>channels := ch\<rparr> = w\<lparr>channels := ch, mpPoller := (mpPoller w)\<lparr>interest := interest (mpPoller w)\<rparr>\<rparr>" for ch
    by simp
  show ?thesis
  proof (cases "isInLoopThread w")
    case True
    show ?thesis unfolding update_mask [OF wf c True] mask_step_def mask_set_def using c
      by (cases "k_epoll_ctl k CTL_MOD (mFd c) (interest (mpPoller w) (mFd c)) = 0") (auto intro: self)
  next
    case False
    then have "snd (block [set_channel a (c\<lparr>mEvent := ev\<rparr>), EventLoop_updateChannel k a] w)
        = w\<lparr>channels := (channels w)(a := Some (c\<lparr>mEvent := ev\<rparr>))\<rparr>"
      by (simp add: chan_op_defs exec_simps isInLoopThread_def)
    then have "snd (block [set_channel a (c\<lparr>mEvent := ev\<rparr>), EventLoop_updateChannel k a] w)
        = w\<lparr>channels := (channels w)(a := Some (c\<lparr>mEvent := ev\<rparr>)),
            mpPoller := (mpPoller w)\<lparr>interest := interest (mpPoller w)\<rparr>\<rparr>"
      by (simp only: self [symmetric])
    with c show ?thesis unfolding mask_step_def by blast
  qed
qed

lemma mask_steps:
  assumes wf: "net_wf w"
  shows "mask_step a w (snd (enableRead k a w))" and "mask_step a w (snd (enableWrite k a w))"
    and "mask_step a w (snd (disableRead k a w))" and "mask_step a w (snd (disableWrite k a w))"
    and "mask_step a w (snd (disableAll k a w))"
  using mask_step_upd [OF wf, of a]
  by (cases "channels w a";
      simp add: enableRead_def enableWrite_def disableRead_def disableWrite_def disableAll_def
        with_channel_def mask_step_def)+

lemma mask_step_more: "mask_step a w w' \<Longrightarrow> event_loop.more w' = event_loop.more w"
  and mask_step_open: "mask_step a w w' \<Longrightarrow> openFds w' = openFds w"
  and mask_step_looping: "mask_step a w w' \<Longrightarrow> mIsLoopingNow w' = mIsLoopingNow w"
  and mask_step_thread: "mask_step a w w' \<Longrightarrow> tCurrentLoop w' = tCurrentLoop w"
  and mask_step_tasks: "mask_step a w w' \<Longrightarrow> mPendingTasks w' = mPendingTasks w"
  by (auto simp: mask_step_def)

lemma channel_self: "\<exists>ev. c = (c :: 'cb channel)\<lparr>mEvent := ev\<rparr>"
  by (rule exI [of _ "mEvent c"]) simp

lemma mask_step_channel:
  "mask_step a w w' \<Longrightarrow> channels w b = Some c \<Longrightarrow> \<exists>ev. channels w' b = Some (c\<lparr>mEvent := ev\<rparr>)"
  using channel_self [of c] by (cases "b = a") (auto simp: mask_step_def)

lemma mask_step_channel_back:
  "mask_step a w w' \<Longrightarrow> channels w' b = Some c \<Longrightarrow> \<exists>c0 ev. channels w b = Some c0 \<and> c = c0\<lparr>mEvent := ev\<rparr>"
  using channel_self [of c] by (cases "b = a") (auto simp: mask_step_def)

lemma fds_open_mask_step: "mask_step a w w' \<Longrightarrow> fds_open w \<Longrightarrow> fds_open w'"
  unfolding fds_open_def using mask_step_channel_back mask_step_open by fastforce

end
