(* ===== verification/Polling.thy ===== *)
theory Polling
  imports Registration
begin

text \<open>
  What one round of the event loop does: the poll returns exactly the channels of the
  ready descriptors, the urgent ones first, and queueing a task wakes the loop.
\<close>

section \<open>Polling\<close>

definition registered :: "('cb, 't, 'z) event_loop_scheme \<Rightarrow> int \<Rightarrow> bool" where
  "registered w fd \<longleftrightarrow> mChannelMap (mpPoller w) fd \<noteq> None"

definition chan_of :: "('cb, 't, 'z) event_loop_scheme \<Rightarrow> int \<Rightarrow> addr" where
  "chan_of w fd = the (mChannelMap (mpPoller w) fd)"

definition set_revents :: "(int \<times> 32 word) list \<Rightarrow> ('cb, 't, 'z) event_loop_scheme \<Rightarrow> ('cb, 't, 'z) event_loop_scheme" where
  "set_revents evs w = foldl (\<lambda>w (fd, ev). w\<lparr>channels := (channels w)(chan_of w fd :=
      map_option (\<lambda>c. c\<lparr>mRevent := ev\<rparr>) (channels w (chan_of w fd)))\<rparr>) w evs"

lemma poll_collect_ok:
  "net_wf w \<Longrightarrow> (\<forall>(fd, ev) \<in> set evs. registered w fd) \<Longrightarrow>
   poll_collect evs res w = (Inr (res @ map (chan_of w \<circ> fst) evs), set_revents evs w)
   \<and> net_wf (set_revents evs w)"
proof (induction evs arbitrary: res w)
  case Nil
  then show ?case by (simp add: set_revents_def)
next
  case (Cons e evs)
  obtain fd ev where e: "e = (fd, ev)" by fastforce
  from Cons.prems e obtain a where a: "mChannelMap (mpPoller w) fd = Some a"
    by (auto simp: registered_def)
  with Cons.prems(1) obtain c where c: "channels w a = Some c" "mFd c = fd"
    by (auto simp: net_wf_map)
  let ?w = "w\<lparr>channels := (channels w)(a := Some (c\<lparr>mRevent := ev\<rparr>))\<rparr>"
  have wf: "net_wf ?w" by (rule net_wf_set_channel [OF Cons.prems(1) c(1)]) simp
  have same: "chan_of ?w = chan_of w" "registered ?w = registered w"
    by (simp_all add: chan_of_def registered_def fun_eq_iff)
  have "\<forall>(fd, ev) \<in> set evs. registered ?w fd" using Cons.prems(2) by (simp add: same)
  note IH = Cons.IH [OF wf this, of "res @ [a]"]
  have "set_revents (e # evs) w = set_revents evs ?w"
    using a c by (simp add: set_revents_def e chan_of_def)
  moreover have "poll_collect (e # evs) res w = poll_collect evs (res @ [a]) ?w"
    using a c by (simp add: e with_channel_def set_channel_def thenE_def bindE_def)
  ultimately show ?case using IH a by (simp add: same e chan_of_def)
qed

text \<open>An event for a descriptor that is not registered ends the process.\<close>

lemma poll_collect_unknown:
  "net_wf w \<Longrightarrow> \<not> (\<forall>(fd, ev) \<in> set evs. registered w fd) \<Longrightarrow>
   \<exists>w'. poll_collect evs res w = (Inl (Terminate ''poll : fd not existed.''), w') \<and> net_wf w'"
proof (induction evs arbitrary: res w)
  case (Cons e evs)
  obtain fd ev where e: "e = (fd, ev)" by fastforce
  show ?case
  proof (cases "mChannelMap (mpPoller w) fd")
    case None
    with e Cons.prems show ?thesis by simp
  next
    case (Some a)
    with Cons.prems(1) obtain c where c: "channels w a = Some c" "mFd c = fd"
      by (auto simp: net_wf_map)
    let ?w = "w\<lparr>channels := (channels w)(a := Some (c\<lparr>mRevent := ev\<rparr>))\<rparr>"
    have wf: "net_wf ?w" by (rule net_wf_set_channel [OF Cons.prems(1) c(1)]) simp
    have same: "registered ?w = registered w" by (simp add: registered_def fun_eq_iff)
    have "\<not> (\<forall>(fd, ev) \<in> set evs. registered ?w fd)"
      using Cons.prems(2) Some by (auto simp: same e registered_def)
    from Cons.IH [OF wf this, of "res @ [a]"] Some c e show ?thesis
      by (simp add: with_channel_def set_channel_def thenE_def bindE_def)
  qed
qed simp

lemma set_revents_frame: "\<exists>ch. set_revents evs w = w\<lparr>channels := ch\<rparr>"
proof (induction evs arbitrary: w)
  case Nil
  show ?case by (rule exI [of _ "channels w"]) (simp add: set_revents_def)
next
  case (Cons e evs)
  obtain fd ev where e: "e = (fd, ev)" by fastforce
  let ?w = "w\<lparr>channels := (channels w)(chan_of w fd :=
      map_option (\<lambda>c. c\<lparr>mRevent := ev\<rparr>) (channels w (chan_of w fd)))\<rparr>"
  have "set_revents (e # evs) w = set_revents evs ?w" by (simp add: set_revents_def e)
  with Cons.IH [of ?w] show ?case by auto
qed

lemma set_revents_more [simp]: "event_loop.more (set_revents evs w) = event_loop.more w"
  and set_revents_poller [simp]: "mpPoller (set_revents evs w) = mpPoller w"
  and set_revents_looping [simp]: "mIsLoopingNow (set_revents evs w) = mIsLoopingNow w"
  and set_revents_open [simp]: "openFds (set_revents evs w) = openFds w"
  and set_revents_thread [simp]: "tCurrentLoop (set_revents evs w) = tCurrentLoop w"
  and set_revents_tasks [simp]: "mPendingTasks (set_revents evs w) = mPendingTasks w"
  using set_revents_frame [of evs w] by auto

lemma set_revents_channel:
  "\<exists>f. \<forall>a. channels (set_revents evs w) a = map_option (\<lambda>c. c\<lparr>mRevent := f a (mRevent c)\<rparr>) (channels w a)"
proof (induction evs arbitrary: w)
  case Nil
  show ?case by (rule exI [of _ "\<lambda>_ r. r"]) (simp add: set_revents_def option.map_ident)
next
  case (Cons e evs)
  obtain fd ev where e: "e = (fd, ev)" by fastforce
  let ?w = "w\<lparr>channels := (channels w)(chan_of w fd :=
      map_option (\<lambda>c. c\<lparr>mRevent := ev\<rparr>) (channels w (chan_of w fd)))\<rparr>"
  have s: "set_revents (e # evs) w = set_revents evs ?w" by (simp add: set_revents_def e)
  from Cons.IH [of ?w] obtain f where
    f: "\<And>a. channels (set_revents evs ?w) a = map_option (\<lambda>c. c\<lparr>mRevent := f a (mRevent c)\<rparr>) (channels ?w a)"
    by blast
  show ?case unfolding s f
    by (rule exI [of _ "\<lambda>a r. if a = chan_of w fd then f a ev else f a r"])
      (auto simp: option.map_comp o_def split: option.splits intro!: option.map_cong)
qed

definition poll_events :: "kernel \<Rightarrow> (int \<times> 32 word) list" where
  "poll_events k = take (nat (fst (k_epoll_wait k))) (snd (k_epoll_wait k))"

lemma Epoller_poll_spec:
  assumes wf: "net_wf w" and srt: "std_sort_ok srt" and n: "fst (k_epoll_wait k) \<ge> 0"
    and reg: "\<forall>(fd, ev) \<in> set (poll_events k). registered w fd"
  shows "\<exists>active w'. Epoller_poll k srt w = (Inr active, w') \<and> w' = set_revents (poll_events k) w \<and> net_wf w'
     \<and> mset active = image_mset (chan_of w \<circ> fst) (mset (poll_events k))
     \<and> sorted_wrt (\<lambda>a b. priority_of w' a \<ge> priority_of w' b) active"
proof -
  let ?evs = "poll_events k"
  let ?res = "map (chan_of w \<circ> fst) ?evs"
  let ?w = "set_revents ?evs w"
  note pc = poll_collect_ok [OF wf reg, of "[]"]
  let ?active = "if length ?res > 1 then srt (priority_of ?w) ?res else ?res"
  have eq: "Epoller_poll k srt w = (Inr ?active, ?w)"
    using n pc by (simp add: Epoller_poll_def Let_def bindE_def poll_events_def)
  have "mset ?active = mset ?res" using srt by (simp add: std_sort_ok_def)
  moreover have "sorted_wrt (\<lambda>a b. priority_of ?w a \<ge> priority_of ?w b) ?active"
  proof (cases "length ?res > 1")
    case True
    with srt show ?thesis by (simp add: std_sort_ok_def)
  next
    case False
    then have "length ?res = 0 \<or> length ?res = 1" by linarith
    then have "?res = [] \<or> (\<exists>x. ?res = [x])" by (auto simp: length_Suc_conv)
    with False show ?thesis by auto
  qed
  ultimately show ?thesis using eq pc by auto
qed

lemma preserves_Epoller_poll: "preserves net_wf (Epoller_poll k srt)"
proof (rule preservesI)
  fix w :: "('a, 'b, 'c) event_loop_scheme"
  assume wf: "net_wf w"
  show "net_wf (snd (Epoller_poll k srt w))"
  proof (cases "fst (k_epoll_wait k) < 0")
    case True
    with wf show ?thesis by (simp add: Epoller_poll_def Let_def)
  next
    case False
    show ?thesis
    proof (cases "\<forall>(fd, ev) \<in> set (poll_events k). registered w fd")
      case True
      from poll_collect_ok [OF wf True, of "[]"] False show ?thesis
        by (simp add: Epoller_poll_def Let_def bindE_def poll_events_def)
    next
      case nr: False
      from poll_collect_unknown [OF wf nr, of "[]"] False show ?thesis
        by (auto simp: Epoller_poll_def Let_def bindE_def poll_events_def)
    qed
  qed
qed

section \<open>Tasks\<close>

lemma doPendingTasks_ok:
  "forE run (mPendingTasks w) (w\<lparr>mIsDoPendingWorks := True, mPendingTasks := []\<rparr>) = (Inr (), w1) \<Longrightarrow>
   doPendingTasks run dis w = forE dis (mPendingTasks w) (w1\<lparr>mIsDoPendingWorks := False\<rparr>)"
  by (cases "forE dis (mPendingTasks w) (w1\<lparr>mIsDoPendingWorks := False\<rparr>)")
    (simp add: doPendingTasks_def thenE_def bindE_def catchE_def split: sum.split)

lemma doPendingTasks_fails:
  assumes "forE run (mPendingTasks w) (w\<lparr>mIsDoPendingWorks := True, mPendingTasks := []\<rparr>) = (Inl e, w1)"
  shows "\<exists>e' w'. doPendingTasks run dis w = (Inl e', w')"
  using assms by (cases "forE dis (mPendingTasks w) w1"; cases "fst (forE dis (mPendingTasks w) w1)")
    (auto simp: doPendingTasks_def thenE_def bindE_def catchE_def)

section \<open>Queueing wakes the loop\<close>

lemma queueInLoop_ok:
  "k_eventfd_write k \<ge> 0 \<Longrightarrow>
   queueInLoop k t w = (Inr (), w\<lparr>mPendingTasks := mPendingTasks w @ [t], mWakeups := mWakeups w + 1\<rparr>)"
  by (simp add: queueInLoop_def wakeup_def exec_simps)

lemma queueInLoop_fails:
  "k_eventfd_write k < 0 \<Longrightarrow>
   queueInLoop k t w = (Inl (SystemException ''[EventFd] handleRead failed.''), w\<lparr>mPendingTasks := mPendingTasks w @ [t]\<rparr>)"
  by (simp add: queueInLoop_def wakeup_def exec_simps)

lemma net_wf_queueInLoop: "preserves net_wf (queueInLoop k t)"
  by (rule preservesI) (cases "k_eventfd_write k < 0"; simp add: queueInLoop_ok queueInLoop_fails)

section \<open>Properties\<close>


definition demo_loop :: "(nat, nat) event_loop" where
  "demo_loop = \<lparr>mIsExit = False, mIsLoopingNow = False, mIsDoPendingWorks = False, mPendingTasks = [],
     mpPoller = \<lparr>mChannelMap = [5 \<mapsto> 0], mChannelSet = {0}, interest = [5 \<mapsto> 5]\<rparr>,
     mWakeups = 0, tCurrentLoop = Some 0, loopId = 0,
     channels = [0 \<mapsto> (Channel_init 10 5 Normal)\<lparr>mEvent := 5, mRevent := 5\<rparr>], nextAddr = 1, openFds = [3, 4, 5]\<rparr>"

lemma demo_channel: "channels demo_loop 0 = Some ((Channel_init 10 5 Normal)\<lparr>mEvent := 5, mRevent := 5\<rparr>)"
  by (simp add: demo_loop_def)

lemma demo_loop_wf: "net_wf demo_loop"
  by (auto simp: net_wf_def demo_loop_def split: if_splits)


text \<open>C7: Creating a channel, changing its events, destroying it and polling keep the
  registration invariant, on every branch: the poller knows exactly the live channels, one per
  descriptor, and the kernel watches exactly their descriptors.\<close>

theorem registration_invariant:
  assumes "ctl_ok k"
  shows "preserves net_wf (Channel_create k nop fd p) \<and> preserves net_wf (Channel_destroy k u a)
    \<and> preserves net_wf (enableRead k a) \<and> preserves net_wf (enableWrite k a)
    \<and> preserves net_wf (disableRead k a) \<and> preserves net_wf (disableWrite k a)
    \<and> preserves net_wf (disableAll k a) \<and> preserves net_wf (Epoller_poll k srt)"
  using preserves_Channel_create [OF assms] preserves_Channel_destroy preserves_enableRead preserves_enableWrite
    preserves_disableRead preserves_disableWrite preserves_disableAll preserves_Epoller_poll
  by (intro conjI)

theorem registration_invariant_witness:
  "net_wf (snd (Channel_create quiet_kernel 7 6 High demo_loop)) \<and> net_wf (snd (Channel_destroy quiet_kernel False 0 demo_loop))"
proof -
  note inv = registration_invariant [OF quiet_ok(1)]
  show ?thesis
    using preservesD [OF inv [THEN conjunct1] demo_loop_wf]
      preservesD [OF inv [THEN conjunct2, THEN conjunct1] demo_loop_wf] by blast
qed

text \<open>C20: Destroying a channel removes it from the poller, its map and the kernel's list;
  outside the loop thread, while events are being dispatched, or when the kernel refuses, the
  process ends instead.\<close>

theorem channel_destroy_outcomes:
  assumes "net_wf w" and "channels w a = Some c"
  shows "if isInLoopThread w \<and> (\<not> mIsLoopingNow w \<or> unwinding)
            \<and> k_epoll_ctl k CTL_DEL (mFd c) (interest (mpPoller w) (mFd c)) = 0
         then \<exists>w'. Channel_destroy k unwinding a w = (Inr (), w') \<and> net_wf w' \<and> channels w' a = None
            \<and> interest (mpPoller w') (mFd c) = None \<and> mChannelMap (mpPoller w') (mFd c) = None
            \<and> (\<forall>b. b \<noteq> a \<longrightarrow> channels w' b = channels w b)
         else \<exists>m. Channel_destroy k unwinding a w = (Inl (Terminate m), w)"
proof (cases "destroy_ok k unwinding c w")
  case True
  with Channel_destroy_ok [OF assms True] net_wf_unregister' [OF assms] show ?thesis
    by (simp add: destroy_ok_def unregister_def)
next
  case False
  with Channel_destroy_fails [OF assms False] show ?thesis by (auto simp: destroy_ok_def)
qed

theorem channel_destroy_outcomes_witness:
  "\<exists>m. Channel_destroy quiet_kernel False 0 (demo_loop\<lparr>mIsLoopingNow := True\<rparr>)
     = (Inl (Terminate m), demo_loop\<lparr>mIsLoopingNow := True\<rparr>)"
  using channel_destroy_outcomes [of "demo_loop\<lparr>mIsLoopingNow := True\<rparr>" 0
      "(Channel_init 10 5 Normal)\<lparr>mEvent := 5, mRevent := 5\<rparr>" False quiet_kernel] demo_loop_wf demo_channel
  by simp

text \<open>C21: \<open>poll\<close> returns the channels of the ready descriptors, each as often as the
  kernel reported it, the high priority ones before the normal ones, and changes nothing but
  the channels' returned events.\<close>

theorem poll_returns_ready:
  assumes "net_wf w" and "std_sort_ok srt" and "fst (k_epoll_wait k) \<ge> 0"
    and "\<forall>(fd, ev) \<in> set (poll_events k). registered w fd"
  shows "\<exists>active w'. Epoller_poll k srt w = (Inr active, w') \<and> w' = set_revents (poll_events k) w \<and> net_wf w'
     \<and> mset active = image_mset (chan_of w \<circ> fst) (mset (poll_events k))
     \<and> sorted_wrt (\<lambda>a b. priority_of w' a \<ge> priority_of w' b) active"
  using assms by (rule Epoller_poll_spec)

theorem poll_returns_ready_witness:
  "\<exists>w'. Epoller_poll (quiet_kernel\<lparr>k_epoll_wait := (1, [(5, 1)])\<rparr>) stable_prio_sort demo_loop = (Inr [0], w') \<and> net_wf w'"
  using poll_returns_ready [OF demo_loop_wf stable_prio_sort_ok, of "quiet_kernel\<lparr>k_epoll_wait := (1, [(5, 1)])\<rparr>"]
  by (auto simp: poll_events_def registered_def chan_of_def demo_loop_def)

end
