(* ===== verification/Socket.thy ===== *)
theory Socket
  imports Decimal Polling
begin

text \<open>
  Sockets (\<open>include/net/Socket.h\<close>, \<open>src/net/Socket.cpp\<close>). A \<open>Socket\<close> owns its
  descriptor; \<open>Socket_close\<close> is the destructor. A \<open>SocketPtr\<close> is an option, a socket a
  record. The operations run in the state of a loop because the open descriptors are part
  of it.
\<close>

record SocketAddr =
  mIpAddr :: string
  mIpProtocol :: IP_PROTOCOL
  mPort :: "16 word"

record socket =
  sFd :: int
  mIsListenSocket :: bool
  mIsTCPSocket :: bool
  mIsUDPSocket :: bool
  mMaxListenQueue :: int
  mLocalAddr :: SocketAddr
  mPeerAddr :: SocketAddr

definition no_addr :: SocketAddr where
  "no_addr = \<lparr>mIpAddr = [], mIpProtocol = IPv4, mPort = 0\<rparr>"

text \<open>The private constructor; the two flags it leaves uninitialised are false here.\<close>

definition Socket_init :: "int \<Rightarrow> socket" where
  "Socket_init fd = \<lparr>sFd = fd, mIsListenSocket = False, mIsTCPSocket = False, mIsUDPSocket = False,
     mMaxListenQueue = 0, mLocalAddr = no_addr, mPeerAddr = no_addr\<rparr>"

definition close_fd :: "int \<Rightarrow> ('cb, 't, 'z, unit) loop_exec" where
  "close_fd fd = modifyE (\<lambda>w. w\<lparr>openFds := removeAll fd (openFds w)\<rparr>)"

definition Socket_close :: "socket \<Rightarrow> ('cb, 't, 'z, unit) loop_exec" where
  "Socket_close s = close_fd (sFd s)"

definition open_fd :: "(int list \<Rightarrow> int) \<Rightarrow> failure \<Rightarrow> ('cb, 't, 'z, int) loop_exec" where
  "open_fd f e = withE (\<lambda>w. let fd = f (openFds w) in
     if fd < 0 then throwE e
     else thenE (modifyE (\<lambda>w. w\<lparr>openFds := fd # openFds w\<rparr>)) (retE fd))"

definition createTcpNonblockingSocket :: "kernel \<Rightarrow> ('cb, 't, 'z, int) loop_exec" where
  "createTcpNonblockingSocket k = open_fd (k_new_fd k) (SystemException ''failed to create socket.'')"

text \<open>The two overloads of \<open>transAddrToString\<close>, on the bytes of the address.\<close>

fun trans_v4 :: "byte list \<Rightarrow> string" where
  "trans_v4 [] = []"
| "trans_v4 [b] = to_dec (unat b)"
| "trans_v4 (b # bs) = to_dec (unat b) @ ''.'' @ trans_v4 bs"

fun trans_v6 :: "nat \<Rightarrow> byte list \<Rightarrow> string" where
  "trans_v6 i [] = []"
| "trans_v6 i (b # bs) =
     char_of (unat b) # (if (i + 1) mod 4 = 0 then ''::'' else []) @ trans_v6 (i + 1) bs"

definition transAddrToString :: "IP_PROTOCOL \<Rightarrow> byte list \<Rightarrow> string" where
  "transAddrToString p bs = (case p of IPv4 \<Rightarrow> trans_v4 bs | IPv6 \<Rightarrow> trans_v6 0 bs)"

definition setLocalAddr :: "kernel \<Rightarrow> IP_PROTOCOL \<Rightarrow> socket \<Rightarrow> socket" where
  "setLocalAddr k p s = (case k_sockname k (sFd s) of
     None \<Rightarrow> s
   | Some (bs, port) \<Rightarrow> s\<lparr>mLocalAddr := \<lparr>mIpAddr = transAddrToString p bs, mIpProtocol = p, mPort = of_nat port\<rparr>\<rparr>)"

text \<open>Linux error numbers the code names.\<close>

definition EINTR :: int where "EINTR = 4"
definition EISCONN :: int where "EISCONN = 106"
definition EINPROGRESS :: int where "EINPROGRESS = 115"

definition failedResult :: "int \<Rightarrow> bool" where
  "failedResult err \<longleftrightarrow> err \<noteq> 0 \<and> err \<noteq> EINPROGRESS \<and> err \<noteq> EINTR \<and> err \<noteq> EISCONN"

text \<open>
  \<open>k_connect\<close> is 0, or the error number of a failed \<open>connect\<close>. Both branches of the
  protocol do the same steps. When \<open>connect\<close> fails for good the code returns the empty
  pointer; the new descriptor is in no object then.
\<close>

definition createTcpClientSocket :: "kernel \<Rightarrow> SocketAddr \<Rightarrow> ('cb, 't, 'z, socket option) loop_exec" where
  "createTcpClientSocket k addr =
     (if \<not> k_inet_pton k (mIpProtocol addr) (mIpAddr addr) then retE None
      else bindE (createTcpNonblockingSocket k) (\<lambda>fd.
        if k_connect k fd \<noteq> 0 \<and> failedResult (k_connect k fd) then retE None
        else retE (Some ((setLocalAddr k (mIpProtocol addr) (Socket_init fd))
               \<lparr>mPeerAddr := addr, mIsTCPSocket := True, mIsUDPSocket := False\<rparr>))))"

definition createTcpListenSocket :: "kernel \<Rightarrow> SocketAddr \<Rightarrow> int \<Rightarrow> ('cb, 't, 'z, socket) loop_exec" where
  "createTcpListenSocket k addr maxListenQueue =
     bindE (createTcpNonblockingSocket k) (\<lambda>fd.
       retE ((Socket_init fd)\<lparr>mIsListenSocket := True, mMaxListenQueue := maxListenQueue,
         mIsTCPSocket := True, mIsUDPSocket := False,
         mLocalAddr := no_addr\<lparr>mPort := mPort addr, mIpProtocol := mIpProtocol addr\<rparr>\<rparr>))"

definition Socket_listen :: "kernel \<Rightarrow> socket \<Rightarrow> ('cb, 't, 'z, socket) loop_exec" where
  "Socket_listen k s = thenE (block
     [assertTrue (mIsListenSocket s) ''[Socket] listen just can be invoked by listen socket!'',
      assertTrue (mIsTCPSocket s) ''[Socket] listen just can be invoked in tcp socket!'',
      (if k_bind k (sFd s) \<noteq> 0 then throwE (Terminate ''bind error'') else retE ()),
      (if k_listen k (sFd s) \<noteq> 0 then throwE (Terminate ''listen error'') else retE ())])
     (retE (setLocalAddr k (mIpProtocol (mLocalAddr s)) s))"

text \<open>
  \<open>accept\<close>. The client's address is written into a \<open>std::variant\<close> whose active
  alternative stays \<open>sockaddr_in\<close>, so \<open>std::get<sockaddr_in6>\<close> throws
  \<open>bad_variant_access\<close>; the new socket is closed on the way out.
\<close>

definition Socket_accept :: "kernel \<Rightarrow> socket \<Rightarrow> ('cb, 't, 'z, socket) loop_exec" where
  "Socket_accept k s = thenE (block
     [assertTrue (mIsListenSocket s) ''[Socket] accept just can be invoked by listen socket!'',
      assertTrue (mIsTCPSocket s) ''[Socket] accept just can be invoked in tcp socket!''])
     (bindE (open_fd (k_accept k (sFd s)) (NetworkException ''[Socket] accept failed.'' (k_errno k))) (\<lambda>fd.
        case mIpProtocol (mLocalAddr s) of
          IPv4 \<Rightarrow> (case k_peername k fd of (bs, port) \<Rightarrow>
            retE (setLocalAddr k IPv4 ((Socket_init fd)\<lparr>mPeerAddr :=
              \<lparr>mIpAddr = transAddrToString IPv4 bs, mIpProtocol = IPv4, mPort = of_nat port\<rparr>\<rparr>)))
        | IPv6 \<Rightarrow> thenE (close_fd fd) (throwE (RuntimeError ''bad_variant_access''))))"

definition getSocketError :: "kernel \<Rightarrow> socket \<Rightarrow> int" where
  "getSocketError k s = k_so_error k (sFd s)"

text \<open>\<open>setNonDelay\<close>, \<open>setKeepAlive\<close>, \<open>setReuseAddr\<close>, \<open>setReusePort\<close>.\<close>

definition Socket_setopt :: "kernel \<Rightarrow> string \<Rightarrow> socket \<Rightarrow> ('cb, 't, 'z, unit) loop_exec" where
  "Socket_setopt k msg s =
     (if k_setsockopt k (sFd s) \<noteq> 0 then throwE (NetworkException msg (getSocketError k s)) else retE ())"

lemmas socket_defs = Socket_close_def close_fd_def open_fd_def createTcpNonblockingSocket_def

section \<open>Descriptors\<close>

lemma sFd_init [simp]: "sFd (Socket_init fd) = fd"
  by (simp add: Socket_init_def)

lemma sFd_setLocalAddr [simp]: "sFd (setLocalAddr k p s) = sFd s"
  by (simp add: setLocalAddr_def split: option.splits prod.splits)

lemma open_fd_cases:
  "f (openFds w) < 0 \<Longrightarrow> open_fd f e w = (Inl e, w)"
  "\<not> f (openFds w) < 0 \<Longrightarrow> open_fd f e w = (Inr (f (openFds w)), w\<lparr>openFds := f (openFds w) # openFds w\<rparr>)"
  by (simp_all add: open_fd_def Let_def exec_simps)

lemma Socket_accept_v4:
  assumes "mIsListenSocket s" and "mIsTCPSocket s" and "mIpProtocol (mLocalAddr s) = IPv4"
  shows "if k_accept k (sFd s) (openFds w) < 0
         then Socket_accept k s w = (Inl (NetworkException ''[Socket] accept failed.'' (k_errno k)), w)
         else \<exists>c. Socket_accept k s w = (Inr c, w\<lparr>openFds := sFd c # openFds w\<rparr>)
              \<and> sFd c = k_accept k (sFd s) (openFds w)"
  using assms by (auto simp: Socket_accept_def exec_simps open_fd_cases split: prod.splits)

lemma Socket_accept_v6:
  assumes "mIsListenSocket s" and "mIsTCPSocket s" and "mIpProtocol (mLocalAddr s) = IPv6"
    and "new_fd_ok k" and "k_accept k (sFd s) (openFds w) \<ge> 0"
  shows "Socket_accept k s w = (Inl (RuntimeError ''bad_variant_access''), w)"
proof -
  have "k_accept k (sFd s) (openFds w) \<notin> set (openFds w)" using assms(4) by (simp add: new_fd_ok_def)
  then have "removeAll (k_accept k (sFd s) (openFds w)) (openFds w) = openFds w" by (rule removeAll_id)
  with assms show ?thesis by (simp add: Socket_accept_def exec_simps open_fd_cases close_fd_def)
qed

text \<open>A refused connection leaves its descriptor open, with no owner.\<close>

lemma createTcpClientSocket_leak:
  assumes "k_inet_pton k (mIpProtocol addr) (mIpAddr addr)" and "k_new_fd k (openFds w) \<ge> 0"
    and "failedResult (k_connect k (k_new_fd k (openFds w)))"
  shows "createTcpClientSocket k addr w = (Inr None, w\<lparr>openFds := k_new_fd k (openFds w) # openFds w\<rparr>)"
  using assms by (simp add: createTcpClientSocket_def createTcpNonblockingSocket_def exec_simps open_fd_cases
      failedResult_def)



end
