(* ===== verification/Closures.thy ===== *)
theory Closures
  imports Socket
begin

text \<open>
  The closures of the library, by name: the functors that are queued in a loop or run by a
  timer (\<open>'u task\<close>) and the callbacks of a channel (\<open>'u chan_cb\<close>). \<open>'u\<close> names the
  closures of the application. A connection is known by a number.

  What a closure does is said where the code creates it: \<open>TimerQueue\<close>,
  \<open>TcpConnection\<close>, \<open>TcpServer\<close>, \<open>TcpClient\<close>; \<open>Reactor\<close> puts them together.
\<close>

datatype ClientState = Disconnect | Connecting | Connected | ForceDisconnected

datatype ConnState = Connected | HalfClosed | DisConnected

datatype 'u task =
    SendTask nat "byte list"
  | ShutdownTask nat
  | ServerCloseTask nat
  | TransTask ClientState
  | ClientShutdownTask
  | AddOneshotTask int int "'u task"
  | AddRepeatingTask int int "'u task"
  | RemoveTimerTask int
  | UserTask 'u nat

datatype 'u chan_cb =
    NoCallback
  | ConnRead nat
  | ConnWrite nat
  | ConnError nat
  | ConnClose nat
  | ServerRead
  | ServerFatal
  | ClientError
  | ClientWrite
  | WakeupRead
  | OneshotRead int int "'u task"
  | RepeatingRead int "'u task"
  | TimerError int

text \<open>\<open>TcpConnection::mCloseCb\<close>, which only the server and the client set.\<close>

datatype close_cb = ServerClose | ClientClose

text \<open>The connection whose address a queued functor holds.\<close>

fun about :: "'u task \<Rightarrow> nat option" where
  "about (SendTask c _) = Some c"
| "about (ShutdownTask c) = Some c"
| "about (ServerCloseTask c) = Some c"
| "about _ = None"

text \<open>The functors that the operations of a connection queue.\<close>

definition conn_task :: "'u task \<Rightarrow> bool" where
  "conn_task t \<longleftrightarrow> about t \<noteq> None \<or> t = TransTask Disconnect"

lemma conn_task_simps [simp]:
  "conn_task (SendTask c ds)" "conn_task (ShutdownTask c)" "conn_task (ServerCloseTask c)"
  "conn_task (TransTask Disconnect)"
  by (simp_all add: conn_task_def)

fun is_send :: "'u task \<Rightarrow> bool" where
  "is_send (SendTask _ _) = True"
| "is_send _ = False"

end
