(* ===== verification/TimerQueue.thy ===== *)
theory TimerQueue
  imports Closures "HOL-Library.Signed_Division"
begin

text \<open>
  Timers and the timer queue (\<open>src/net/Timer.cpp\<close>, \<open>src/net/TimerQueue.cpp\<close>), and the
  parts of the event loop that need them (its constructor and destructor, \<open>runAfter\<close>,
  \<open>runEvery\<close>, \<open>removeTimer\<close> of \<open>src/net/EventLoop.cpp\<close>).

  A \<open>Timer\<close> is its descriptor. It is shared by the closures of its channel and the entry of
  \<open>mTimerMap\<close>, so it is closed when the entry goes. \<open>timerSpecs\<close> is what the kernel
  was told by \<open>timerfd_settime\<close>: the first expiry and the interval, each in seconds and
  nanoseconds. \<open>mTimerMap\<close> is an association list, in the order its unordered map would
  be walked. \<open>clockReads\<close> counts the readings of the steady clock.
\<close>

type_synonym timespec = "int \<times> int"

record 'u timer_loop = "('u chan_cb, 'u task) event_loop" +
  mpWakeupFd :: int
  mpWakeupChannel :: "addr option"
  mTimerMap :: "(int \<times> (int \<times> addr)) list"
  epollFd :: int
  timerSpecs :: "int \<Rightarrow> (timespec \<times> timespec) option"
  clockReads :: nat

type_synonym ('u, 'z, 'a) timer_exec = "(failure, ('u, 'z) timer_loop_scheme, 'a) exec"

section \<open>Timer\<close>

definition Timer_create :: "kernel \<Rightarrow> ('u, 'z, int) timer_exec" where
  "Timer_create k = withE (\<lambda>w. let fd = k_new_fd k (openFds w) in
     thenE (modifyE (\<lambda>w. if fd < 0 then w else w\<lparr>openFds := fd # openFds w\<rparr>)) (retE fd))"

text \<open>Microseconds as seconds and nanoseconds; \<open>duration_cast\<close> truncates towards zero.\<close>

definition to_timespec :: "int \<Rightarrow> timespec" where
  "to_timespec us = (let secs = us sdiv 1000000 in (secs, (us - secs * 1000000) * 1000))"

definition settime_ok :: "int \<Rightarrow> timespec \<Rightarrow> bool" where
  "settime_ok fd v \<longleftrightarrow> fd \<ge> 0 \<and> fst v \<ge> 0 \<and> 0 \<le> snd v \<and> snd v < 1000000000"

text \<open>A refused \<open>timerfd_settime\<close> (\<open>EINVAL\<close>, \<open>EBADF\<close>) is only logged.\<close>

definition setDelay :: "int \<Rightarrow> int \<Rightarrow> ('u, 'z, unit) timer_exec" where
  "setDelay fd delay = (let v = to_timespec delay in
     whenE (settime_ok fd v) (modifyE (\<lambda>w. w\<lparr>timerSpecs := (timerSpecs w)(fd := Some (v, (0, 0)))\<rparr>)))"

definition setRepeating :: "int \<Rightarrow> int \<Rightarrow> ('u, 'z, unit) timer_exec" where
  "setRepeating fd interval = (let v = to_timespec interval in
     whenE (settime_ok fd v) (modifyE (\<lambda>w. w\<lparr>timerSpecs := (timerSpecs w)(fd := Some (v, v))\<rparr>)))"

definition resetTimer :: "int \<Rightarrow> ('u, 'z, unit) timer_exec" where
  "resetTimer fd = modifyE (\<lambda>w. w\<lparr>timerSpecs := (timerSpecs w)(fd := Some ((0, 0), (0, 0)))\<rparr>)"

text \<open>\<open>getTimer\<close>: of the remaining time or, for a repeating timer, the interval.\<close>

definition from_timespec :: "timespec \<Rightarrow> int" where
  "from_timespec v = fst v * 1000000 + snd v sdiv 1000"

definition getTimer :: "bool \<Rightarrow> (timespec \<times> timespec) option \<Rightarrow> int" where
  "getTimer isRepeating answer = (case answer of None \<Rightarrow> 0
     | Some (val, interval) \<Rightarrow> from_timespec (if isRepeating then interval else val))"

definition Timer_close :: "int \<Rightarrow> ('u, 'z, unit) timer_exec" where
  "Timer_close fd = block [modifyE (\<lambda>w. w\<lparr>timerSpecs := (timerSpecs w)(fd := None)\<rparr>), close_fd fd]"

section \<open>TimerQueue\<close>

definition INVALID_TIMER_ID :: int where "INVALID_TIMER_ID = 0"

definition steady_now :: "kernel \<Rightarrow> ('u, 'z, int) timer_exec" where
  "steady_now k = withE (\<lambda>w. thenE (modifyE (\<lambda>w. w\<lparr>clockReads := clockReads w + 1\<rparr>)) (retE (k_now k (clockReads w))))"

definition addOneshotTimer :: "kernel \<Rightarrow> 'u task \<Rightarrow> int \<Rightarrow> ('u, 'z, int) timer_exec" where
  "addOneshotTimer k cb delay = catch_sys
     (bindE (Timer_create k) (\<lambda>fd.
      thenE (setDelay fd delay)
      (bindE (steady_now k) (\<lambda>newId.
      thenE (queueInLoop k (AddOneshotTask fd newId cb)) (retE newId)))))
     (retE INVALID_TIMER_ID)"

definition addRepeatingTimer :: "kernel \<Rightarrow> 'u task \<Rightarrow> int \<Rightarrow> ('u, 'z, int) timer_exec" where
  "addRepeatingTimer k cb interval = catch_sys
     (bindE (Timer_create k) (\<lambda>fd.
      thenE (setRepeating fd interval)
      (bindE (steady_now k) (\<lambda>newId.
      thenE (queueInLoop k (AddRepeatingTask fd newId cb)) (retE newId)))))
     (retE INVALID_TIMER_ID)"

definition TimerQueue_removeTimer :: "kernel \<Rightarrow> int \<Rightarrow> ('u, 'z, unit) timer_exec" where
  "TimerQueue_removeTimer k i = queueInLoop k (RemoveTimerTask i)"

text \<open>
  The functors the queue puts into the loop. \<open>emplace\<close> leaves an existing entry alone and
  destroys the new one: its channel, then its timer. When \<open>enableRead\<close> throws, the new
  channel is destroyed by the unwinding.
\<close>

definition set_callbacks :: "addr \<Rightarrow> ('cb channel \<Rightarrow> 'cb channel) \<Rightarrow> ('cb, 't, 'z, unit) loop_exec" where
  "set_callbacks a f = with_channel a (\<lambda>c. set_channel a (f c))"

definition add_timer :: "kernel \<Rightarrow> int \<Rightarrow> int \<Rightarrow> 'u chan_cb \<Rightarrow> string \<Rightarrow> ('u, 'z, unit) timer_exec" where
  "add_timer k fd newId read_cb info =
     bindE (Channel_create k NoCallback fd High) (\<lambda>a. block
       [set_callbacks a (\<lambda>c. c\<lparr>mChannelInfo := info, mReadCb := read_cb, mErrorCb := TimerError fd\<rparr>),
        catchE (enableRead k a) (\<lambda>e. if fatal e then throwE e
          else block [Channel_destroy k True a, throwE e]),
        withE (\<lambda>w. case map_of (mTimerMap w) newId of
          None \<Rightarrow> modifyE (\<lambda>w. w\<lparr>mTimerMap := (newId, fd, a) # mTimerMap w\<rparr>)
        | Some _ \<Rightarrow> block [Channel_destroy k False a, Timer_close fd])])"

definition add_oneshot :: "kernel \<Rightarrow> int \<Rightarrow> int \<Rightarrow> 'u task \<Rightarrow> ('u, 'z, unit) timer_exec" where
  "add_oneshot k fd newId cb = add_timer k fd newId (OneshotRead fd newId cb) ''Oneshot timer''"

definition add_repeating :: "kernel \<Rightarrow> int \<Rightarrow> int \<Rightarrow> 'u task \<Rightarrow> ('u, 'z, unit) timer_exec" where
  "add_repeating k fd newId cb = add_timer k fd newId (RepeatingRead fd cb) ''Repeating timer''"

definition remove_timer :: "kernel \<Rightarrow> int \<Rightarrow> ('u, 'z, unit) timer_exec" where
  "remove_timer k timerId = withE (\<lambda>w. case map_of (mTimerMap w) timerId of
     None \<Rightarrow> retE ()
   | Some (fd, a) \<Rightarrow> block
      [Channel_destroy k False a,
       Timer_close fd,
       modifyE (\<lambda>w. w\<lparr>mTimerMap := filter (\<lambda>e. fst e \<noteq> timerId) (mTimerMap w)\<rparr>)])"

text \<open>The read callbacks of the two kinds of timers; \<open>Timer::handleRead\<close> only logs.\<close>

definition oneshot_read :: "kernel \<Rightarrow> ('u task \<Rightarrow> ('u, 'z, unit) timer_exec) \<Rightarrow> int \<Rightarrow> 'u task \<Rightarrow> ('u, 'z, unit) timer_exec" where
  "oneshot_read k run newId cb = block [run cb, TimerQueue_removeTimer k newId]"

definition repeating_read :: "('u task \<Rightarrow> ('u, 'z, unit) timer_exec) \<Rightarrow> 'u task \<Rightarrow> ('u, 'z, unit) timer_exec" where
  "repeating_read run cb = run cb"

section \<open>The rest of the event loop\<close>

definition runAfter :: "kernel \<Rightarrow> 'u task \<Rightarrow> int \<Rightarrow> ('u, 'z, int) timer_exec" where
  "runAfter k cb delay = addOneshotTimer k cb delay"

definition runEvery :: "kernel \<Rightarrow> 'u task \<Rightarrow> int \<Rightarrow> ('u, 'z, int) timer_exec" where
  "runEvery k cb interval = addRepeatingTimer k cb interval"

definition EventLoop_removeTimer :: "kernel \<Rightarrow> int \<Rightarrow> ('u, 'z, unit) timer_exec" where
  "EventLoop_removeTimer k i = TimerQueue_removeTimer k i"

definition EventFd_handleRead :: "kernel \<Rightarrow> ('u, 'z, unit) timer_exec" where
  "EventFd_handleRead k = (if k_eventfd_read k < 0 then throwE (SystemException ''[EventFd] handleRead failed.'')
     else modifyE (\<lambda>w. w\<lparr>mWakeups := 0\<rparr>))"

text \<open>
  The destructor of the timer queue, and those of the loop's members. A member that was
  not set yet is \<open>None\<close>, a descriptor that was not made yet is negative.
\<close>

definition TimerQueue_delete :: "kernel \<Rightarrow> bool \<Rightarrow> ('u, 'z, unit) timer_exec" where
  "TimerQueue_delete k unwinding = withE (\<lambda>w. block
     [forE (\<lambda>(i, fd, a). Channel_destroy k unwinding a) (mTimerMap w),
      forE (\<lambda>(i, fd, a). Timer_close fd) (mTimerMap w),
      modifyE (\<lambda>w. w\<lparr>mTimerMap := []\<rparr>)])"

definition release_wakeup_channel :: "kernel \<Rightarrow> bool \<Rightarrow> ('u, 'z, unit) timer_exec" where
  "release_wakeup_channel k unwinding = withE (\<lambda>w. case mpWakeupChannel w of
     None \<Rightarrow> retE ()
   | Some a \<Rightarrow> block [Channel_destroy k unwinding a, modifyE (\<lambda>w. w\<lparr>mpWakeupChannel := None\<rparr>)])"

definition release_members :: "kernel \<Rightarrow> bool \<Rightarrow> ('u, 'z, unit) timer_exec" where
  "release_members k unwinding = block
     [release_wakeup_channel k unwinding,
      withE (\<lambda>w. close_fd (mpWakeupFd w)),
      TimerQueue_delete k unwinding,
      withE (\<lambda>w. close_fd (epollFd w))]"

text \<open>
  The constructor, on the state before it: no channels, no tasks. \<open>this\<close> is \<open>loopId\<close>.
  When it throws, the handler clears \<open>tCurrentLoop\<close> before the members are destroyed.
\<close>

definition EventLoop_new :: "kernel \<Rightarrow> ('u, 'z, unit) timer_exec" where
  "EventLoop_new k = withE (\<lambda>w0. block
     [assertTrue (tCurrentLoop w0 = None) ''Every thread can hold only one event loop!'',
      modifyE (\<lambda>w. w\<lparr>tCurrentLoop := Some (loopId w), mpPoller := Epoller_new, mTimerMap := [],
        mpWakeupFd := -1, mpWakeupChannel := None, epollFd := -1\<rparr>),
      catchE (block
        [bindE (open_fd (k_new_fd k) (SystemException ''createEpoller failed.'')) (\<lambda>fd.
           modifyE (\<lambda>w. w\<lparr>epollFd := fd\<rparr>)),
         bindE (open_fd (k_new_fd k) (SystemException ''[EventFd] createEventFd failed.'')) (\<lambda>fd.
           modifyE (\<lambda>w. w\<lparr>mpWakeupFd := fd\<rparr>)),
         withE (\<lambda>w. bindE (Channel_create k NoCallback (mpWakeupFd w) Normal) (\<lambda>a. block
           [modifyE (\<lambda>w. w\<lparr>mpWakeupChannel := Some a\<rparr>),
            set_callbacks a (\<lambda>c. c\<lparr>mChannelInfo := ''Wakeup channel'', mReadCb := WakeupRead\<rparr>),
            enableRead k a]))])
        (\<lambda>e. if fatal e then throwE e
             else block [whenE (is_sys e) (modifyE (\<lambda>w. w\<lparr>tCurrentLoop := None\<rparr>)),
                         release_members k True, throwE e]),
      modifyE (\<lambda>w. w\<lparr>mIsExit := True, mIsLoopingNow := False, mIsDoPendingWorks := False\<rparr>)])"

definition EventLoop_delete :: "kernel \<Rightarrow> ('u, 'z, unit) timer_exec" where
  "EventLoop_delete k = noexcept (block
     [assertInLoopThread,
      release_members k False,
      modifyE (\<lambda>w. w\<lparr>tCurrentLoop := None\<rparr>)])"

end
