(* ===== verification/TcpBuffer.thy ===== *)
theory TcpBuffer
  imports CppStd
begin

text \<open>
  The byte buffer of a connection (\<open>include/tcp/TcpBuffer.h\<close>,
  \<open>src/tcp/TcpBuffer.cpp\<close>): a vector of bytes with a read and a write position. The
  locale \<open>byte_queue\<close> is what a connection needs of a buffer, a queue of bytes; the
  interpretation \<open>tb\<close> proves that the buffer is one.

  The answers of \<open>::read\<close> and \<open>::write\<close> are arguments: \<open>rd n\<close> is the result of
  a read of at most \<open>n\<close> bytes with the bytes it stored, \<open>wr bs\<close> the result of a
  write of \<open>bs\<close>; \<open>read_ok\<close> and \<open>write_ok\<close> state what POSIX promises of them.
\<close>

section \<open>The buffer\<close>

record tcp_buffer =
  mBuffer :: "byte list"
  mReadPos :: nat
  mWritePos :: nat

definition TcpBuffer_new :: tcp_buffer where
  "TcpBuffer_new = \<lparr>mBuffer = replicate 1024 0, mReadPos = 0, mWritePos = 0\<rparr>"

definition writablebytes :: "tcp_buffer \<Rightarrow> nat" where
  "writablebytes b = usub (length (mBuffer b)) (mWritePos b)"

definition readablebytes :: "tcp_buffer \<Rightarrow> nat" where
  "readablebytes b = usub (mWritePos b) (mReadPos b)"

definition TcpBuffer_size :: "tcp_buffer \<Rightarrow> nat" where
  "TcpBuffer_size b = readablebytes b"

definition updateReadPos :: "nat \<Rightarrow> (failure, tcp_buffer, unit) exec" where
  "updateReadPos len b =
     (if uadd (mReadPos b) len \<le> mWritePos b then
        let b1 = b\<lparr>mReadPos := uadd (mReadPos b) len\<rparr> in
        if mReadPos b1 > readablebytes b1 then
          (case mem_copy_down (mBuffer b1) (mReadPos b1) (readablebytes b1) of
             Inl f \<Rightarrow> (Inl f, b1)
           | Inr buf \<Rightarrow>
               (Inr (), b1\<lparr>mBuffer := buf, mWritePos := readablebytes b1, mReadPos := 0\<rparr>))
        else (Inr (), b1)
      else (Inl (Terminate ''[TcpBuffer] the fomula (mReadPos + len <= mWritePos) dosn't hold!''), b))"

definition readFromSocket ::
  "(nat \<Rightarrow> int \<times> byte list) \<Rightarrow> int \<Rightarrow> (failure, tcp_buffer, unit) exec" where
  "readFromSocket rd soErr b =
     (let (res, ds) = rd (writablebytes b) in
      if res > 0 then
        (case mem_write (mBuffer b) (mWritePos b) ds of
           Inl f \<Rightarrow> (Inl f, b)
         | Inr buf \<Rightarrow>
             if nat res = writablebytes b then
               let b1 = b\<lparr>mBuffer := buf, mWritePos := uadd (mWritePos b) (nat res)\<rparr> in
               (case vec_resize (mBuffer b1) (length (mBuffer b1) * 2) of
                  Inl f \<Rightarrow> (Inl f, b1)
                | Inr buf' \<Rightarrow> (Inr (), b1\<lparr>mBuffer := buf'\<rparr>))
             else (Inr (), b\<lparr>mBuffer := buf, mWritePos := uadd (mWritePos b) (nat res)\<rparr>))
      else (Inl (NetworkException ''[TcpBuffer] write error.'' soErr), b))"

definition writeToSocket ::
  "(byte list \<Rightarrow> int) \<Rightarrow> int \<Rightarrow> (failure, tcp_buffer, unit) exec" where
  "writeToSocket wr soErr b =
     (case mem_read (mBuffer b) (mReadPos b) (readablebytes b) of
        Inl f \<Rightarrow> (Inl f, b)
      | Inr ds \<Rightarrow>
          let res = wr ds in
          if res > 0 then updateReadPos (nat res) b
          else (Inl (NetworkException ''[TcpBuffer] write error.'' soErr), b))"

text \<open>
  The loop of \<open>appendToBuffer\<close>:
  \<^verbatim>\<open>while (writablebytes() < data.size()) { mBuffer.resize(data.size() * 2); }\<close>.
  \<open>None\<close> is a loop that does not end.
\<close>

partial_function (option) append_grow :: "nat \<Rightarrow> tcp_buffer \<Rightarrow> (failure + tcp_buffer) option" where
  "append_grow n b =
     (if writablebytes b < n then
        (case vec_resize (mBuffer b) (n * 2) of
           Inl f \<Rightarrow> Some (Inl f)
         | Inr buf \<Rightarrow> append_grow n (b\<lparr>mBuffer := buf\<rparr>))
      else Some (Inr b))"

declare append_grow.simps [code]

definition appendToBuffer :: "byte list \<Rightarrow> (failure, tcp_buffer, unit) exec" where
  "appendToBuffer ds b =
     (case append_grow (length ds) b of
        None \<Rightarrow> (Inl Hang, b)
      | Some (Inl f) \<Rightarrow> (Inl f, b)
      | Some (Inr b1) \<Rightarrow>
          (case mem_write (mBuffer b1) (mWritePos b1) ds of
             Inl f \<Rightarrow> (Inl f, b1)
           | Inr buf \<Rightarrow>
               (Inr (), b1\<lparr>mBuffer := buf, mWritePos := uadd (mWritePos b1) (length ds)\<rparr>)))"

text \<open>\<open>read\<close>, \<open>readString\<close>, \<open>readU8String\<close> return a view; here, the bytes it shows.\<close>

definition TcpBuffer_read :: "nat \<Rightarrow> tcp_buffer \<Rightarrow> failure + byte list" where
  "TcpBuffer_read sz b =
     (if sz < readablebytes b then mem_read (mBuffer b) (mReadPos b) sz
      else mem_read (mBuffer b) (mReadPos b) (readablebytes b))"

definition readString :: "nat \<Rightarrow> tcp_buffer \<Rightarrow> failure + string" where
  "readString sz b =
     (if sz < readablebytes b
      then map_sum id to_chars (mem_read (mBuffer b) (mReadPos b) sz)
      else map_sum id to_chars (mem_read (mBuffer b) (mReadPos b) (readablebytes b)))"

definition TcpBuffer_extract :: "nat \<Rightarrow> (failure, tcp_buffer, byte list) exec" where
  "TcpBuffer_extract sz b =
     (let result = (if sz < readablebytes b then mem_read (mBuffer b) (mReadPos b) sz
                    else mem_read (mBuffer b) (mReadPos b) (readablebytes b))
      in case result of
           Inl f \<Rightarrow> (Inl f, b)
         | Inr ds \<Rightarrow> bindE (updateReadPos (length ds)) (\<lambda>_. retE ds) b)"

definition extractString :: "nat \<Rightarrow> (failure, tcp_buffer, string) exec" where
  "extractString sz b =
     (let result = (if sz < readablebytes b then mem_read (mBuffer b) (mReadPos b) sz
                    else mem_read (mBuffer b) (mReadPos b) (readablebytes b))
      in case map_sum id to_chars result of
           Inl f \<Rightarrow> (Inl f, b)
         | Inr s \<Rightarrow> bindE (updateReadPos (length s)) (\<lambda>_. retE s) b)"

section \<open>Invariant and content\<close>

definition tb_inv :: "tcp_buffer \<Rightarrow> bool" where
  "tb_inv b \<longleftrightarrow> mReadPos b \<le> mWritePos b \<and> mWritePos b \<le> length (mBuffer b)
     \<and> length (mBuffer b) \<le> max_size"

definition content :: "tcp_buffer \<Rightarrow> byte list" where
  "content b = drop (mReadPos b) (take (mWritePos b) (mBuffer b))"

definition read_ok :: "(nat \<Rightarrow> int \<times> byte list) \<Rightarrow> bool" where
  "read_ok rd \<longleftrightarrow> (\<forall>n. fst (rd n) \<le> int n \<and> (fst (rd n) > 0 \<longrightarrow> length (snd (rd n)) = nat (fst (rd n))))"

definition write_ok :: "(byte list \<Rightarrow> int) \<Rightarrow> bool" where
  "write_ok wr \<longleftrightarrow> (\<forall>ds. wr ds \<le> int (length ds))"

lemma tb_invD:
  assumes "tb_inv b"
  shows "mReadPos b \<le> mWritePos b" "mWritePos b \<le> length (mBuffer b)"
    "length (mBuffer b) \<le> max_size"
  using assms by (simp_all add: tb_inv_def)

lemma tb_inv_new: "tb_inv TcpBuffer_new"
  by (simp add: tb_inv_def TcpBuffer_new_def max_size_def)

lemma content_new [simp]: "content TcpBuffer_new = []"
  by (simp add: content_def TcpBuffer_new_def)

lemma readablebytes_content: "tb_inv b \<Longrightarrow> readablebytes b = length (content b)"
  by (simp add: readablebytes_def content_def tb_inv_def)

lemma writablebytes_inv: "tb_inv b \<Longrightarrow> writablebytes b = length (mBuffer b) - mWritePos b"
  by (simp add: writablebytes_def tb_inv_def)

lemma content_read:
  assumes "tb_inv b" and "n \<le> readablebytes b"
  shows "mem_read (mBuffer b) (mReadPos b) n = Inr (take n (content b))"
proof -
  have "take n (drop (mReadPos b) (mBuffer b)) = take n (content b)"
    using assms by (simp add: content_def tb_inv_def readablebytes_def drop_take min_def)
  moreover have "mReadPos b + n \<le> length (mBuffer b)"
    using tb_invD [OF assms(1)] assms(2) by (simp add: readablebytes_def)
  ultimately show ?thesis by (simp add: mem_read_def)
qed

lemma small_add:
  assumes "tb_inv b" and "n \<le> length (mBuffer b)" and "m \<le> max_size"
  shows "uadd n m = n + m"
  using assms by (simp add: tb_inv_def max_size_def)

text \<open>
  \<open>updateReadPos\<close> drops what was read; when more than half of what was written has
  been read, it moves the rest to the front, and the source and destination of that
  \<open>memcpy\<close> never overlap.
\<close>

lemma updateReadPos_ok:
  assumes inv: "tb_inv b" and len: "len \<le> readablebytes b"
  shows "\<exists>b'. updateReadPos len b = (Inr (), b') \<and> tb_inv b' \<and> content b' = drop len (content b)
     \<and> length (mBuffer b') = length (mBuffer b) \<and> mWritePos b' \<le> mWritePos b"
proof -
  let ?r = "mReadPos b + len"
  let ?n = "mWritePos b - ?r"
  have r: "?r \<le> mWritePos b" and w: "mWritePos b \<le> length (mBuffer b)"
    and m: "length (mBuffer b) \<le> max_size"
    using tb_invD [OF inv] len by (simp_all add: readablebytes_def)
  have add: "uadd (mReadPos b) len = ?r"
    using r w m by (simp add: max_size_def)
  show ?thesis
  proof (cases "?r > ?n")
    case True
    let ?buf = "take ?n (drop ?r (mBuffer b)) @ drop ?n (mBuffer b)"
    have cp: "mem_copy_down (mBuffer b) ?r ?n = Inr ?buf"
      using True r w by (simp add: mem_copy_down_def mem_read_def mem_write_def)
    have eq: "updateReadPos len b =
        (Inr (), b\<lparr>mBuffer := ?buf, mWritePos := ?n, mReadPos := 0\<rparr>)"
      using True r cp by (simp add: updateReadPos_def add readablebytes_def Let_def)
    have c: "content (b\<lparr>mBuffer := ?buf, mWritePos := ?n, mReadPos := 0\<rparr>) = drop len (content b)"
      using r w by (simp add: content_def drop_take add.commute)
    have "tb_inv (b\<lparr>mBuffer := ?buf, mWritePos := ?n, mReadPos := 0\<rparr>)"
      using r w m by (simp add: tb_inv_def)
    with eq c r w show ?thesis by simp
  next
    case False
    have eq: "updateReadPos len b = (Inr (), b\<lparr>mReadPos := ?r\<rparr>)"
      using False r by (simp add: updateReadPos_def add readablebytes_def Let_def)
    have "content (b\<lparr>mReadPos := ?r\<rparr>) = drop len (content b)"
      by (simp add: content_def add.commute)
    with eq r w m show ?thesis by (simp add: tb_inv_def)
  qed
qed

lemma updateReadPos_over:
  assumes "tb_inv b" and "len > readablebytes b" and "len \<le> max_size"
  shows "\<exists>msg. updateReadPos len b = (Inl (Terminate msg), b)"
proof -
  have "uadd (mReadPos b) len = mReadPos b + len"
    using assms by (simp add: tb_inv_def max_size_def)
  moreover have "\<not> mReadPos b + len \<le> mWritePos b"
    using tb_invD [OF assms(1)] assms(2) by (simp add: readablebytes_def)
  ultimately show ?thesis by (simp add: updateReadPos_def)
qed

section \<open>Reading and extracting: a queue of bytes\<close>

locale byte_queue =
  fixes inv :: "'b \<Rightarrow> bool"
    and bytes :: "'b \<Rightarrow> byte list"
    and size_of :: "'b \<Rightarrow> nat"
    and peek :: "nat \<Rightarrow> 'b \<Rightarrow> failure + byte list"
    and pop :: "nat \<Rightarrow> (failure, 'b, byte list) exec"
  assumes size_of: "inv b \<Longrightarrow> size_of b = length (bytes b)"
    and peek: "inv b \<Longrightarrow> peek n b = Inr (take n (bytes b))"
    and pop: "inv b \<Longrightarrow> \<exists>b'. pop n b = (Inr (take n (bytes b)), b') \<and> inv b'
                \<and> bytes b' = drop n (bytes b)"
begin

lemma pop_all: "inv b \<Longrightarrow> \<exists>b'. pop (size_of b) b = (Inr (bytes b), b') \<and> inv b' \<and> bytes b' = []"
  using pop [of b "size_of b"] by (auto simp: size_of)

lemma peek_all: "inv b \<Longrightarrow> peek (size_of b) b = Inr (bytes b)"
  by (simp add: peek size_of)

lemma pop_peek: "inv b \<Longrightarrow> fst (pop n b) = peek n b"
  using pop [of b n] by (auto simp: peek)

text \<open>Popping in chunks gives the same bytes as one pop of the whole.\<close>

primrec pops :: "nat list \<Rightarrow> (failure, 'b, byte list) exec" where
  "pops [] = retE []"
| "pops (n # ns) = bindE (pop n) (\<lambda>xs. bindE (pops ns) (\<lambda>ys. retE (xs @ ys)))"

lemma pops_chunks:
  "inv b \<Longrightarrow> \<exists>b'. pops ns b = (Inr (take (sum_list ns) (bytes b)), b') \<and> inv b'
     \<and> bytes b' = drop (sum_list ns) (bytes b)"
proof (induction ns arbitrary: b)
  case Nil
  then show ?case by simp
next
  case (Cons n ns)
  from pop [OF Cons.prems, of n] obtain b1 where
    b1: "pop n b = (Inr (take n (bytes b)), b1)" "inv b1" "bytes b1 = drop n (bytes b)"
    by blast
  from Cons.IH [OF b1(2)] obtain b2 where
    "pops ns b1 = (Inr (take (sum_list ns) (bytes b1)), b2)" "inv b2"
    "bytes b2 = drop (sum_list ns) (bytes b1)" by blast
  with b1 show ?case by (simp add: bindE_def take_add add.commute)
qed

end

lemma read_content: "tb_inv b \<Longrightarrow> TcpBuffer_read n b = Inr (take n (content b))"
  by (simp add: TcpBuffer_read_def content_read readablebytes_content)

lemma readString_content: "tb_inv b \<Longrightarrow> readString n b = Inr (to_chars (take n (content b)))"
  by (simp add: readString_def content_read readablebytes_content)

lemma extract_content:
  assumes "tb_inv b"
  shows "\<exists>b'. TcpBuffer_extract n b = (Inr (take n (content b)), b') \<and> tb_inv b'
     \<and> content b' = drop n (content b)
     \<and> length (mBuffer b') = length (mBuffer b) \<and> mWritePos b' \<le> mWritePos b"
proof -
  let ?k = "min n (length (content b))"
  have k: "?k \<le> readablebytes b" using assms by (simp add: readablebytes_content)
  from updateReadPos_ok [OF assms k] obtain b' where
    b': "updateReadPos ?k b = (Inr (), b')" "tb_inv b'" "content b' = drop ?k (content b)"
    "length (mBuffer b') = length (mBuffer b)" "mWritePos b' \<le> mWritePos b" by blast
  have "TcpBuffer_extract n b = (Inr (take n (content b)), b')"
    using b'(1) assms
    by (auto simp: TcpBuffer_extract_def content_read readablebytes_content Let_def bindE_def min_def
        split: if_splits)
  moreover have "content b' = drop n (content b)"
    using b'(3) by (simp add: min_def)
  ultimately show ?thesis using b' by blast
qed

lemma extractString_extract:
  assumes "tb_inv b"
  shows "extractString n b = (map_sum id to_chars (fst (TcpBuffer_extract n b)), snd (TcpBuffer_extract n b))"
  using assms by (auto simp: extractString_def TcpBuffer_extract_def content_read readablebytes_content
      Let_def bindE_def split: prod.splits sum.splits)

interpretation tb: byte_queue tb_inv content TcpBuffer_size TcpBuffer_read TcpBuffer_extract
proof (unfold_locales, goal_cases)
  case (1 b)
  then show ?case by (simp add: TcpBuffer_size_def readablebytes_content)
next
  case (2 b n)
  then show ?case by (rule read_content)
next
  case (3 b n)
  then show ?case using extract_content [of b n] by blast
qed

section \<open>Filling the buffer\<close>

lemma fill_lemma:
  assumes inv: "tb_inv b" and fits: "length ds \<le> length (mBuffer b) - mWritePos b"
  shows "mem_write (mBuffer b) (mWritePos b) ds
      = Inr (take (mWritePos b) (mBuffer b) @ ds @ drop (mWritePos b + length ds) (mBuffer b))"
    and "uadd (mWritePos b) (length ds) = mWritePos b + length ds"
    and "tb_inv (b\<lparr>mBuffer := take (mWritePos b) (mBuffer b) @ ds @ drop (mWritePos b + length ds) (mBuffer b),
                mWritePos := mWritePos b + length ds\<rparr>)"
    and "content (b\<lparr>mBuffer := take (mWritePos b) (mBuffer b) @ ds @ drop (mWritePos b + length ds) (mBuffer b),
                mWritePos := mWritePos b + length ds\<rparr>) = content b @ ds"
proof -
  note i = tb_invD [OF inv]
  have le: "mWritePos b + length ds \<le> length (mBuffer b)" using i fits by simp
  show "mem_write (mBuffer b) (mWritePos b) ds
      = Inr (take (mWritePos b) (mBuffer b) @ ds @ drop (mWritePos b + length ds) (mBuffer b))"
    using le by (simp add: mem_write_def)
  show "uadd (mWritePos b) (length ds) = mWritePos b + length ds"
    using le i by (simp add: max_size_def)
  show "tb_inv (b\<lparr>mBuffer := take (mWritePos b) (mBuffer b) @ ds @ drop (mWritePos b + length ds) (mBuffer b),
                mWritePos := mWritePos b + length ds\<rparr>)"
    using le i by (simp add: tb_inv_def)
  show "content (b\<lparr>mBuffer := take (mWritePos b) (mBuffer b) @ ds @ drop (mWritePos b + length ds) (mBuffer b),
                mWritePos := mWritePos b + length ds\<rparr>) = content b @ ds"
    using le i by (simp add: content_def)
qed

text \<open>Growing a buffer keeps its bytes.\<close>

lemma resize_grow:
  assumes "tb_inv b" and "vec_resize (mBuffer b) n = Inr buf" and "mWritePos b \<le> n"
  shows "tb_inv (b\<lparr>mBuffer := buf\<rparr>)" and "content (b\<lparr>mBuffer := buf\<rparr>) = content b"
proof -
  note i = tb_invD [OF assms(1)]
  have "length buf = n" using assms(2) by (rule vec_resize_length)
  moreover have "n \<le> max_size" using assms(2) by (simp add: vec_resize_def split: if_splits)
  ultimately show "tb_inv (b\<lparr>mBuffer := buf\<rparr>)" using i assms(3) by (simp add: tb_inv_def)
  have "take (mWritePos b) buf = take (mWritePos b) (mBuffer b)"
    using assms(2,3) i(2) by (rule vec_resize_take)
  then show "content (b\<lparr>mBuffer := buf\<rparr>) = content b" by (simp add: content_def)
qed

text \<open>
  Reading from the socket appends the bytes the kernel delivered; if the buffer was
  filled to the last byte it doubles, so that the next read has room again.
\<close>

lemma readFromSocket_ok:
  assumes inv: "tb_inv b" and rd: "read_ok rd" and got: "rd (writablebytes b) = (res, ds)"
    and pos: "res > 0"
  shows "\<exists>r b'. readFromSocket rd e b = (r, b') \<and> tb_inv b' \<and> content b' = content b @ ds
     \<and> (r = Inr () \<and> writablebytes b' > 0 \<or> r = Inl LengthError \<and> 2 * length (mBuffer b) > max_size)"
proof -
  note i = tb_invD [OF inv]
  have len: "length ds = nat res" "nat res \<le> writablebytes b"
    using rd [unfolded read_ok_def, rule_format, of "writablebytes b"] got pos by auto
  then have fits: "length ds \<le> length (mBuffer b) - mWritePos b"
    by (simp add: writablebytes_inv [OF inv])
  let ?b1 = "b\<lparr>mBuffer := take (mWritePos b) (mBuffer b) @ ds @ drop (mWritePos b + length ds) (mBuffer b),
                mWritePos := mWritePos b + length ds\<rparr>"
  note f = fill_lemma [OF inv fits]
  have lb: "length (mBuffer ?b1) = length (mBuffer b)" using fits i by simp
  show ?thesis
  proof (cases "nat res = writablebytes b")
    case full: True
    show ?thesis
    proof (cases "length (mBuffer b) * 2 \<le> max_size")
      case True
      then obtain buf where buf: "vec_resize (mBuffer ?b1) (length (mBuffer ?b1) * 2) = Inr buf"
        unfolding lb by (simp add: vec_resize_def)
      have wl: "mWritePos ?b1 \<le> length (mBuffer ?b1) * 2" using fits i lb by simp
      note g = resize_grow [OF f(3) buf wl]
      have eq: "readFromSocket rd e b = (Inr (), ?b1\<lparr>mBuffer := buf\<rparr>)"
        using got pos full f(1,2) buf len by (simp add: readFromSocket_def Let_def)
      have "length buf = length (mBuffer b) * 2" using vec_resize_length [OF buf] lb by simp
      moreover have "0 < writablebytes b" using full pos by simp
      ultimately have "writablebytes (?b1\<lparr>mBuffer := buf\<rparr>) > 0"
        unfolding writablebytes_inv [OF g(1)] using i fits full len
        by (auto simp: writablebytes_inv [OF inv])
      with eq g f(4) show ?thesis by simp
    next
      case False
      then have "vec_resize (mBuffer ?b1) (length (mBuffer ?b1) * 2) = Inl LengthError"
        unfolding lb by (simp add: vec_resize_def)
      then have "readFromSocket rd e b = (Inl LengthError, ?b1)"
        using got pos full f(1,2) len by (simp add: readFromSocket_def Let_def)
      with f(3,4) False show ?thesis by simp
    qed
  next
    case False
    have eq: "readFromSocket rd e b = (Inr (), ?b1)"
      using got pos False f(1,2) len by (simp add: readFromSocket_def Let_def)
    have "writablebytes ?b1 > 0"
      unfolding writablebytes_inv [OF f(3)] using lb len False writablebytes_inv [OF inv] by simp
    with eq f(3,4) show ?thesis by simp
  qed
qed

lemma readFromSocket_eof:
  "rd (writablebytes b) = (res, ds) \<Longrightarrow> res \<le> 0
   \<Longrightarrow> readFromSocket rd e b = (Inl (NetworkException ''[TcpBuffer] write error.'' e), b)"
  by (simp add: readFromSocket_def)

text \<open>Writing to the socket removes from the front exactly what the kernel accepted.\<close>

lemma writeToSocket_ok:
  assumes inv: "tb_inv b" and wr: "write_ok wr" and pos: "wr (content b) > 0"
  shows "\<exists>b'. writeToSocket wr e b = (Inr (), b') \<and> tb_inv b'
     \<and> content b' = drop (nat (wr (content b))) (content b)
     \<and> length (mBuffer b') = length (mBuffer b) \<and> mWritePos b' \<le> mWritePos b"
proof -
  let ?n = "nat (wr (content b))"
  have rb: "readablebytes b = length (content b)" by (rule readablebytes_content [OF inv])
  have rd: "mem_read (mBuffer b) (mReadPos b) (readablebytes b) = Inr (content b)"
    using content_read [OF inv le_refl] rb by simp
  have "wr (content b) \<le> int (length (content b))" using wr by (simp add: write_ok_def)
  then have "?n \<le> readablebytes b" using rb by simp
  from updateReadPos_ok [OF inv this] rd pos show ?thesis
    by (simp add: writeToSocket_def Let_def)
qed

lemma writeToSocket_fail:
  assumes inv: "tb_inv b" and "wr (content b) \<le> 0"
  shows "writeToSocket wr e b = (Inl (NetworkException ''[TcpBuffer] write error.'' e), b)"
proof -
  have "mem_read (mBuffer b) (mReadPos b) (readablebytes b) = Inr (content b)"
    using content_read [OF inv le_refl] readablebytes_content [OF inv] by simp
  with assms(2) show ?thesis by (simp add: writeToSocket_def Let_def)
qed

section \<open>Appending\<close>

lemma append_grow_stop: "\<not> writablebytes b < n \<Longrightarrow> append_grow n b = Some (Inr b)"
  by (simp add: append_grow.simps)

lemma append_grow_step:
  "writablebytes b < n \<Longrightarrow> vec_resize (mBuffer b) (n * 2) = Inr buf
   \<Longrightarrow> append_grow n b = append_grow n (b\<lparr>mBuffer := buf\<rparr>)"
  by (subst append_grow.simps) simp

text \<open>
  The loop replaces the vector by one of twice the size of the \<^emph>\<open>data\<close>, whatever the
  vector's own size and the write position are. Once the vector has that size and is
  still too small, no iteration changes anything.
\<close>

lemma append_grow_stuck:
  assumes "length (mBuffer b) = n * 2" and "n < mWritePos b" and "mWritePos b \<le> n * 2"
    and "n * 2 \<le> max_size"
  shows "append_grow n b = None"
proof (cases "append_grow n b")
  case (Some r)
  have "length (mBuffer b) = n * 2 \<and> n < mWritePos b \<and> mWritePos b \<le> n * 2 \<and> n * 2 \<le> max_size \<longrightarrow> False"
  proof (rule append_grow.raw_induct
      [where P = "\<lambda>n b r. length (mBuffer b) = n * 2 \<and> n < mWritePos b \<and> mWritePos b \<le> n * 2
          \<and> n * 2 \<le> max_size \<longrightarrow> False", OF _ Some])
    fix f n b r
    assume IH: "\<And>n b r. f n b = Some r \<Longrightarrow> length (mBuffer b) = n * 2 \<and> n < mWritePos b
        \<and> mWritePos b \<le> n * 2 \<and> n * 2 \<le> max_size \<longrightarrow> False"
      and eq: "(if writablebytes b < n then
          (case vec_resize (mBuffer b) (n * 2) of Inl f \<Rightarrow> Some (Inl f)
           | Inr buf \<Rightarrow> f n (b\<lparr>mBuffer := buf\<rparr>)) else Some (Inr b)) = Some r"
    show "length (mBuffer b) = n * 2 \<and> n < mWritePos b \<and> mWritePos b \<le> n * 2 \<and> n * 2 \<le> max_size \<longrightarrow> False"
    proof (intro impI)
      assume h: "length (mBuffer b) = n * 2 \<and> n < mWritePos b \<and> mWritePos b \<le> n * 2 \<and> n * 2 \<le> max_size"
      then have "mWritePos b \<le> length (mBuffer b)" "n < mWritePos b" "length (mBuffer b) = n * 2"
        by auto
      then have "writablebytes b < n" by (simp add: writablebytes_def)
      moreover have "vec_resize (mBuffer b) (n * 2) = Inr (mBuffer b)"
        using h by (simp add: vec_resize_def)
      ultimately have "f n (b\<lparr>mBuffer := mBuffer b\<rparr>) = Some r" using eq by simp
      with IH h show False by fastforce
    qed
  qed
  with assms show ?thesis by simp
qed simp

text \<open>
  All outcomes of \<open>appendToBuffer\<close> on a well-formed buffer, for data that does not fit:
  it works when the write position is at most the data's length; it never returns when
  the write position is at most twice that length; beyond that, the resize cuts the
  vector below the write position, the unsigned \<open>writablebytes()\<close> wraps to a huge
  number, the loop ends and the copy writes outside the vector.
\<close>

lemma appendToBuffer_fits:
  assumes inv: "tb_inv b" and fits: "length ds \<le> writablebytes b"
  shows "\<exists>b'. appendToBuffer ds b = (Inr (), b') \<and> tb_inv b' \<and> content b' = content b @ ds"
proof -
  have le: "length ds \<le> length (mBuffer b) - mWritePos b"
    using fits by (simp add: writablebytes_inv [OF inv])
  note f = fill_lemma [OF inv le]
  have "append_grow (length ds) b = Some (Inr b)" using fits by (simp add: append_grow_stop)
  with f show ?thesis by (simp add: appendToBuffer_def)
qed

lemma appendToBuffer_grows:
  assumes inv: "tb_inv b" and nofit: "writablebytes b < length ds"
    and small: "length ds * 2 \<le> max_size" and wp: "mWritePos b \<le> length ds"
  shows "\<exists>b'. appendToBuffer ds b = (Inr (), b') \<and> tb_inv b' \<and> content b' = content b @ ds"
proof -
  from small obtain buf where buf: "vec_resize (mBuffer b) (length ds * 2) = Inr buf"
    by (simp add: vec_resize_def)
  let ?b1 = "b\<lparr>mBuffer := buf\<rparr>"
  note g = resize_grow [OF inv buf]
  have inv1: "tb_inv ?b1" and c1: "content ?b1 = content b" using g wp by simp_all
  have "length buf = length ds * 2" by (rule vec_resize_length [OF buf])
  then have fits: "length ds \<le> writablebytes ?b1"
    using wp by (simp add: writablebytes_inv [OF inv1])
  have "append_grow (length ds) b = append_grow (length ds) ?b1"
    using append_grow_step [OF nofit buf] .
  then have "appendToBuffer ds b = appendToBuffer ds ?b1"
    using fits by (simp add: appendToBuffer_def append_grow_stop)
  with appendToBuffer_fits [OF inv1 fits] c1 show ?thesis by simp
qed

lemma appendToBuffer_hangs:
  assumes inv: "tb_inv b" and nofit: "writablebytes b < length ds"
    and small: "length ds * 2 \<le> max_size"
    and wp: "length ds < mWritePos b" "mWritePos b \<le> 2 * length ds"
  shows "appendToBuffer ds b = (Inl Hang, b)"
proof -
  from small obtain buf where buf: "vec_resize (mBuffer b) (length ds * 2) = Inr buf"
    by (simp add: vec_resize_def)
  have "length buf = length ds * 2" by (rule vec_resize_length [OF buf])
  with wp small have "append_grow (length ds) (b\<lparr>mBuffer := buf\<rparr>) = None"
    by (intro append_grow_stuck) simp_all
  with append_grow_step [OF nofit buf] show ?thesis by (simp add: appendToBuffer_def)
qed

lemma appendToBuffer_overrun:
  assumes inv: "tb_inv b" and nofit: "writablebytes b < length ds"
    and wp: "2 * length ds < mWritePos b"
  shows "\<exists>b'. appendToBuffer ds b = (Inl (Undefined buffer_overrun), b')"
proof -
  note i = tb_invD [OF inv]
  have small: "length ds * 2 \<le> max_size" using i wp by simp
  then obtain buf where buf: "vec_resize (mBuffer b) (length ds * 2) = Inr buf"
    by (simp add: vec_resize_def)
  let ?b1 = "b\<lparr>mBuffer := buf\<rparr>"
  have len: "length buf = length ds * 2" by (rule vec_resize_length [OF buf])
  have "writablebytes ?b1 = 2 ^ 64 + length ds * 2 - mWritePos b"
    using len wp by (simp add: writablebytes_def usub_under)
  moreover have "mWritePos b < 2 ^ 63" using i max_size_bound by fastforce
  ultimately have "\<not> writablebytes ?b1 < length ds" by simp
  then have "append_grow (length ds) b = Some (Inr ?b1)"
    using append_grow_step [OF nofit buf] by (simp add: append_grow_stop)
  moreover have "\<not> mWritePos b + length ds \<le> length buf" using len wp by simp
  ultimately show ?thesis by (simp add: appendToBuffer_def mem_write_def)
qed

lemma appendToBuffer_corrupts:
  assumes "tb_inv b" and "writablebytes b < length ds" and "2 * length ds < mWritePos b"
  shows "\<exists>b' m. appendToBuffer ds b = (Inl (Undefined m), b')"
  using appendToBuffer_overrun [OF assms] by blast

lemma appendToBuffer_too_long:
  assumes "writablebytes b < length ds" and "max_size < length ds * 2"
  shows "appendToBuffer ds b = (Inl LengthError, b)"
proof -
  have "append_grow (length ds) b = Some (Inl LengthError)"
    using assms by (subst append_grow.simps) (simp add: vec_resize_def)
  then show ?thesis by (simp add: appendToBuffer_def)
qed

text \<open>When appending is correct, and only then.\<close>

definition append_safe :: "nat \<Rightarrow> tcp_buffer \<Rightarrow> bool" where
  "append_safe n b \<longleftrightarrow> n \<le> writablebytes b \<or> (mWritePos b \<le> n \<and> n * 2 \<le> max_size)"

lemma appendToBuffer_safe:
  assumes "tb_inv b" and "append_safe (length ds) b"
  shows "\<exists>b'. appendToBuffer ds b = (Inr (), b') \<and> tb_inv b' \<and> content b' = content b @ ds"
proof (cases "length ds \<le> writablebytes b")
  case True
  with assms(1) show ?thesis by (rule appendToBuffer_fits)
next
  case False
  with assms(2) have "writablebytes b < length ds" "mWritePos b \<le> length ds"
    "length ds * 2 \<le> max_size" by (simp_all add: append_safe_def)
  with assms(1) show ?thesis by (intro appendToBuffer_grows)
qed

lemma appendToBuffer_unsafe:
  assumes inv: "tb_inv b" and un: "\<not> append_safe (length ds) b"
  shows "\<exists>f b'. appendToBuffer ds b = (Inl f, b') \<and> (fatal f \<or> f = LengthError)"
proof -
  have nofit: "writablebytes b < length ds" using un by (simp add: append_safe_def)
  consider (long) "max_size < length ds * 2"
    | (hang) "length ds * 2 \<le> max_size" "length ds < mWritePos b" "mWritePos b \<le> 2 * length ds"
    | (bad) "2 * length ds < mWritePos b"
    using un nofit by (fastforce simp: append_safe_def)
  then show ?thesis
  proof cases
    case long
    then show ?thesis using appendToBuffer_too_long [OF nofit] by simp
  next
    case hang
    then show ?thesis using appendToBuffer_hangs [OF inv nofit] by simp
  next
    case bad
    then show ?thesis using appendToBuffer_corrupts [OF inv nofit] by force
  qed
qed

section \<open>Sequences of operations\<close>

text \<open>
  The abstract view: a queue of bytes with an input and an output. \<open>Fill\<close> and
  \<open>Flush\<close> carry the answer of the system call.
\<close>

datatype buf_op =
    Append "byte list"
  | Fill "nat \<Rightarrow> int \<times> byte list"
  | Flush "byte list \<Rightarrow> int"
  | Take nat

fun op_ok :: "buf_op \<Rightarrow> bool" where
  "op_ok (Fill rd) = read_ok rd"
| "op_ok (Flush wr) = write_ok wr"
| "op_ok _ = True"

text \<open>One operation, with the bytes that entered and the bytes that left.\<close>

fun run_op :: "int \<Rightarrow> buf_op \<Rightarrow> (failure, tcp_buffer, byte list \<times> byte list) exec" where
  "run_op e (Append ds) = bindE (appendToBuffer ds) (\<lambda>_. retE (ds, []))"
| "run_op e (Fill rd) = withE (\<lambda>b. bindE (readFromSocket rd e) (\<lambda>_. retE (snd (rd (writablebytes b)), [])))"
| "run_op e (Flush wr) = withE (\<lambda>b. bindE (writeToSocket wr e) (\<lambda>_. retE ([], take (nat (wr (content b))) (content b))))"
| "run_op e (Take n) = bindE (TcpBuffer_extract n) (\<lambda>ds. retE ([], ds))"

fun run_ops :: "int \<Rightarrow> buf_op list \<Rightarrow> (failure, tcp_buffer, byte list \<times> byte list) exec" where
  "run_ops e [] = retE ([], [])"
| "run_ops e (x # xs) = bindE (run_op e x) (\<lambda>(i, out). bindE (run_ops e xs) (\<lambda>(is, outs). retE (i @ is, out @ outs)))"

lemma run_op_stream:
  assumes inv: "tb_inv b" and ok: "op_ok x" and r: "run_op e x b = (Inr (i, out), b')"
  shows "tb_inv b' \<and> out @ content b' = content b @ i"
proof (cases x)
  case (Append ds)
  with r have ap: "appendToBuffer ds b = (Inr (), b')" "i = ds" "out = []"
    by (auto simp: bindE_def split: prod.splits sum.splits)
  have "append_safe (length ds) b"
  proof (rule ccontr)
    assume "\<not> append_safe (length ds) b"
    from appendToBuffer_unsafe [OF inv this] ap(1) show False by auto
  qed
  with appendToBuffer_safe [OF inv, of ds] ap show ?thesis by auto
next
  case (Fill rd)
  obtain res ds where got: "rd (writablebytes b) = (res, ds)" by fastforce
  with r Fill have rf: "readFromSocket rd e b = (Inr (), b')" "i = ds" "out = []"
    by (auto simp: bindE_def split: prod.splits sum.splits)
  then have "res > 0" using readFromSocket_eof [of rd b res ds e] got by (cases "res \<le> 0") auto
  moreover have "read_ok rd" using Fill ok by simp
  ultimately show ?thesis using readFromSocket_ok [where rd = rd and res = res and ds = ds and e = e, OF inv] got rf
    by fastforce
next
  case (Flush wr)
  with r have wf: "writeToSocket wr e b = (Inr (), b')" "i = []"
    "out = take (nat (wr (content b))) (content b)"
    by (auto simp: bindE_def split: prod.splits sum.splits)
  then have pos: "wr (content b) > 0" using writeToSocket_fail [OF inv, of wr e] by (cases "wr (content b) \<le> 0") auto
  have "write_ok wr" using Flush ok by simp
  from writeToSocket_ok [OF inv this pos, of e] wf show ?thesis by auto
next
  case (Take n)
  with r have tk: "TcpBuffer_extract n b = (Inr out, b')" "i = []"
    by (auto simp: bindE_def split: prod.splits sum.splits)
  with extract_content [OF inv, of n] show ?thesis by auto
qed

lemma run_ops_stream:
  "tb_inv b \<Longrightarrow> list_all op_ok xs \<Longrightarrow> run_ops e xs b = (Inr (i, out), b') \<Longrightarrow>
     tb_inv b' \<and> out @ content b' = content b @ i"
proof (induction xs arbitrary: b i out)
  case (Cons x xs)
  from Cons.prems(3) obtain i1 o1 b1 i2 o2 where
    s1: "run_op e x b = (Inr (i1, o1), b1)" and s2: "run_ops e xs b1 = (Inr (i2, o2), b')"
    and io: "i = i1 @ i2" "out = o1 @ o2"
    by (auto simp: bindE_def split: prod.splits sum.splits)
  have st: "tb_inv b1 \<and> o1 @ content b1 = content b @ i1"
    using run_op_stream [OF Cons.prems(1) _ s1] Cons.prems(2) by simp
  with Cons.IH [OF _ _ s2] Cons.prems(2) have "tb_inv b' \<and> o2 @ content b' = content b1 @ i2" by simp
  with st io show ?case by (metis append.assoc)
qed simp

section \<open>Properties\<close>

text \<open>C5: Whatever sequence of appends, socket reads, socket writes and extractions runs
  on a buffer, no byte is lost, duplicated or reordered: what left the buffer followed by
  what is still in it is what was in it followed by what entered it.\<close>

theorem buffer_stream:
  assumes "tb_inv b" and "list_all op_ok xs" and "run_ops e xs b = (Inr (i, out), b')"
  shows "tb_inv b' \<and> out @ content b' = content b @ i"
  using assms by (rule run_ops_stream)

definition demo_ops :: "buf_op list" where
  "demo_ops = [Append [1, 2, 3], Take 2, Fill (\<lambda>n. if n = 0 then (0, []) else (1, [7])),
     Flush (\<lambda>ds. if ds = [] then 0 else 1)]"

definition small_buffer :: tcp_buffer where
  "small_buffer = \<lparr>mBuffer = [0, 0, 0, 0], mReadPos = 0, mWritePos = 0\<rparr>"

lemmas tb_eval = appendToBuffer_def append_grow_stop writablebytes_def readablebytes_def mem_write_def
  mem_read_def mem_copy_down_def vec_resize_def TcpBuffer_extract_def updateReadPos_def readFromSocket_def
  writeToSocket_def max_size_def content_def Let_def

lemma demo_ops_run: "run_ops 0 demo_ops small_buffer
    = (Inr ([1, 2, 3, 7], [1, 2, 3]), \<lparr>mBuffer = [3, 7, 3, 0], mReadPos = 1, mWritePos = 2\<rparr>)"
  by (simp add: demo_ops_def small_buffer_def bindE_def tb_eval)

lemma demo_ops_ok: "tb_inv small_buffer" "list_all op_ok demo_ops"
  by (auto simp: small_buffer_def tb_inv_def max_size_def demo_ops_def read_ok_def write_ok_def Suc_le_eq)

theorem buffer_stream_witness:
  "[1, 2, 3] @ content \<lparr>mBuffer = [3, 7, 3, 0], mReadPos = 1, mWritePos = 2\<rparr>
     = content small_buffer @ [1, 2, 3, 7]"
  using buffer_stream [OF demo_ops_ok demo_ops_run] by simp

text \<open>C14: \<open>appendToBuffer\<close> on a well-formed buffer, all outcomes. It appends the bytes
  exactly when they fit, or when the write position is at most their number and the new
  vector can be allocated. Otherwise it throws \<open>length_error\<close>, never returns (write
  position at most twice the number of bytes), or writes outside the vector.\<close>

theorem append_outcomes:
  assumes "tb_inv b"
  shows "if append_safe (length ds) b
         then \<exists>b'. appendToBuffer ds b = (Inr (), b') \<and> tb_inv b' \<and> content b' = content b @ ds
         else if max_size < length ds * 2 then appendToBuffer ds b = (Inl LengthError, b)
         else if mWritePos b \<le> 2 * length ds then appendToBuffer ds b = (Inl Hang, b)
         else \<exists>m b'. appendToBuffer ds b = (Inl (Undefined m), b')"
  using appendToBuffer_safe [OF assms, of ds] appendToBuffer_too_long [of b ds]
    appendToBuffer_hangs [OF assms, of ds] appendToBuffer_corrupts [OF assms, of ds]
  by (simp add: append_safe_def not_le not_less) blast

definition pending_1000 :: tcp_buffer where
  "pending_1000 = \<lparr>mBuffer = replicate 1024 0, mReadPos = 0, mWritePos = 1000\<rparr>"

lemma pending_1000: "tb_inv pending_1000" "\<not> append_safe 600 pending_1000" "mWritePos pending_1000 = 1000"
  "\<not> append_safe 100 pending_1000"
  by (simp_all add: pending_1000_def tb_inv_def max_size_def append_safe_def writablebytes_def)

theorem append_outcomes_witness:
  "appendToBuffer (replicate 600 0) pending_1000 = (Inl Hang, pending_1000)
   \<and> (\<exists>m b'. appendToBuffer (replicate 100 0) pending_1000 = (Inl (Undefined m), b'))"
  using append_outcomes [OF pending_1000(1), of "replicate 600 0"]
    append_outcomes [OF pending_1000(1), of "replicate 100 0"] pending_1000
  by (simp add: max_size_def)

text \<open>C15: A read from the socket appends exactly what the kernel delivered and leaves room
  for the next read, so a later \<open>::read\<close> never asks for zero bytes (whose answer 0 would be
  taken for the end of the stream); at end of file or error it changes nothing and throws.\<close>

theorem read_leaves_room:
  assumes "tb_inv b" and "read_ok rd" and "rd (writablebytes b) = (res, ds)"
    and "2 * length (mBuffer b) \<le> max_size"
  shows "if res > 0
         then \<exists>b'. readFromSocket rd e b = (Inr (), b') \<and> tb_inv b' \<and> content b' = content b @ ds
              \<and> writablebytes b' > 0
         else readFromSocket rd e b = (Inl (NetworkException ''[TcpBuffer] write error.'' e), b)"
  using readFromSocket_ok [OF assms(1-3), of e] readFromSocket_eof [of rd b res ds e] assms(3,4)
  by fastforce

lemma four_ones: "replicate 4 (1 :: byte) = [1, 1, 1, 1]"
  by (simp add: numeral_eq_Suc)

theorem read_leaves_room_witness:
  "\<exists>b'. readFromSocket (\<lambda>n. (int n, replicate n 1)) 0 small_buffer = (Inr (), b') \<and> tb_inv b'
     \<and> content b' = content small_buffer @ [1, 1, 1, 1] \<and> writablebytes b' > 0"
  using read_leaves_room [of small_buffer "\<lambda>n. (int n, replicate n 1)" 4 "[1, 1, 1, 1]" 0] demo_ops_ok(1)
  by (simp add: read_ok_def small_buffer_def writablebytes_def max_size_def four_ones)

text \<open>C16: A write to the socket offers all pending bytes and removes from the front exactly
  those the kernel accepted; when it accepts none, nothing changes and the call throws.\<close>

theorem write_consumes_accepted:
  assumes "tb_inv b" and "write_ok wr"
  shows "if wr (content b) > 0
         then \<exists>b'. writeToSocket wr e b = (Inr (), b') \<and> tb_inv b'
              \<and> content b' = drop (nat (wr (content b))) (content b)
         else writeToSocket wr e b = (Inl (NetworkException ''[TcpBuffer] write error.'' e), b)"
  using writeToSocket_ok [OF assms, of e] writeToSocket_fail [OF assms(1), of wr e] by auto

theorem write_consumes_accepted_witness:
  "\<exists>b'. writeToSocket (\<lambda>ds. int (length ds div 2)) 0 \<lparr>mBuffer = [1, 2, 3, 4], mReadPos = 0, mWritePos = 4\<rparr> = (Inr (), b')
     \<and> tb_inv b' \<and> content b' = [3, 4]"
  using write_consumes_accepted [of "\<lparr>mBuffer = [1, 2, 3, 4], mReadPos = 0, mWritePos = 4\<rparr>"
      "\<lambda>ds. int (length ds div 2)" 0]
  by (simp add: tb_inv_def max_size_def write_ok_def content_def)

text \<open>Extracting in any chunks gives the same bytes as one extraction of their total
  size, at most what the buffer holds, and removes exactly them.\<close>

theorem extract_chunks:
  assumes "tb_inv b"
  shows "\<exists>b'. tb.pops ns b = (Inr (take (sum_list ns) (content b)), b') \<and> tb_inv b'
     \<and> content b' = drop (sum_list ns) (content b)"
  using assms by (rule tb.pops_chunks)

theorem extract_chunks_witness:
  "\<exists>b'. tb.pops [1, 2] \<lparr>mBuffer = [1, 2, 3, 4], mReadPos = 0, mWritePos = 4\<rparr> = (Inr [1, 2, 3], b')
     \<and> tb_inv b' \<and> content b' = [4]"
  using extract_chunks [of "\<lparr>mBuffer = [1, 2, 3, 4], mReadPos = 0, mWritePos = 4\<rparr>" "[1, 2]"]
  by (simp add: tb_inv_def max_size_def content_def)

end
