(* ===== verification/TcpConnection.thy ===== *)
theory TcpConnection
  imports TimerQueue TcpBuffer
begin

text \<open>
  A TCP connection (\<open>include/tcp/TcpConnection.h\<close>, \<open>src/tcp/TcpConnection.cpp\<close>).
  \<open>conns\<close> is the heap of the live \<open>TcpConnection\<close> objects. A callback that was never
  set is \<open>None\<close>; \<open>usr u c\<close> runs the application's closure \<open>u\<close> with the
  connection \<open>c\<close>.

  Three fields record what the peer sees, and no operation reads them: \<open>arrived\<close>, the
  bytes the kernel delivered; \<open>wire\<close>, the bytes the kernel accepted; \<open>finSent\<close>,
  whether the write side was shut down.
\<close>

record 'u tcp_connection =
  mpSocket :: "socket option"
  mpChannel :: "addr option"
  mIdentification :: string
  mConnCloseCb :: "close_cb option"
  mConnectionCb :: "'u option"
  mMessageCb :: "'u option"
  mWriteCompleteCb :: "'u option"
  mHighWaterMarkCb :: "'u option"
  mState :: ConnState
  mRecvBuffer :: tcp_buffer
  mSendBuffer :: tcp_buffer
  arrived :: "byte list"
  wire :: "byte list"
  finSent :: bool

record 'u conn_loop = "'u timer_loop" +
  conns :: "nat \<Rightarrow> 'u tcp_connection option"
  nextConn :: nat

type_synonym ('u, 'z, 'a) conn_exec = "(failure, ('u, 'z) conn_loop_scheme, 'a) exec"

section \<open>Access to a connection\<close>

definition with_conn :: "nat \<Rightarrow> ('u tcp_connection \<Rightarrow> ('u, 'z, 'a) conn_exec) \<Rightarrow> ('u, 'z, 'a) conn_exec" where
  "with_conn c f = withE (\<lambda>w. case conns w c of
     None \<Rightarrow> throwE (Undefined ''access to a deleted TcpConnection'') | Some tc \<Rightarrow> f tc)"

definition upd_conn :: "nat \<Rightarrow> ('u tcp_connection \<Rightarrow> 'u tcp_connection) \<Rightarrow> ('u, 'z, unit) conn_exec" where
  "upd_conn c g = modifyE (\<lambda>w. w\<lparr>conns := (conns w)(c := map_option g (conns w c))\<rparr>)"

definition with_socket :: "'u tcp_connection \<Rightarrow> (socket \<Rightarrow> ('u, 'z, 'a) conn_exec) \<Rightarrow> ('u, 'z, 'a) conn_exec" where
  "with_socket tc f = (case mpSocket tc of None \<Rightarrow> throwE (Undefined ''null mpSocket'') | Some s \<Rightarrow> f s)"

definition chan_of_conn :: "'u tcp_connection \<Rightarrow> (addr \<Rightarrow> ('u, 'z, 'a) conn_exec) \<Rightarrow> ('u, 'z, 'a) conn_exec" where
  "chan_of_conn tc f = (case mpChannel tc of None \<Rightarrow> throwE (Undefined ''null mpChannel'') | Some a \<Rightarrow> f a)"

definition on_recv :: "nat \<Rightarrow> (failure, tcp_buffer, 'a) exec \<Rightarrow> ('u, 'z, 'a) conn_exec" where
  "on_recv c m = with_conn c (\<lambda>tc. case m (mRecvBuffer tc) of (r, b) \<Rightarrow>
     thenE (upd_conn c (\<lambda>tc. tc\<lparr>mRecvBuffer := b\<rparr>)) (liftE r))"

definition on_send :: "nat \<Rightarrow> (failure, tcp_buffer, 'a) exec \<Rightarrow> ('u, 'z, 'a) conn_exec" where
  "on_send c m = with_conn c (\<lambda>tc. case m (mSendBuffer tc) of (r, b) \<Rightarrow>
     thenE (upd_conn c (\<lambda>tc. tc\<lparr>mSendBuffer := b\<rparr>)) (liftE r))"

definition run_opt :: "('u \<Rightarrow> nat \<Rightarrow> ('u, 'z, unit) conn_exec) \<Rightarrow> 'u option \<Rightarrow> nat \<Rightarrow> ('u, 'z, unit) conn_exec" where
  "run_opt usr cb c = (case cb of None \<Rightarrow> retE () | Some u \<Rightarrow> usr u c)"

text \<open>The close callbacks of the server and of the client each queue a functor.\<close>

definition run_close :: "kernel \<Rightarrow> close_cb option \<Rightarrow> nat \<Rightarrow> ('u, 'z, unit) conn_exec" where
  "run_close k cb c = (case cb of
     None \<Rightarrow> retE ()
   | Some ServerClose \<Rightarrow> queueInLoop k (ServerCloseTask c)
   | Some ClientClose \<Rightarrow> queueInLoop k (TransTask Disconnect))"

definition isConnected :: "'u tcp_connection \<Rightarrow> bool" where
  "isConnected tc \<longleftrightarrow> mState tc = Connected"

definition isDisconnected :: "'u tcp_connection \<Rightarrow> bool" where
  "isDisconnected tc \<longleftrightarrow> mState tc = DisConnected"

section \<open>Construction\<close>

definition addr_str :: "SocketAddr \<Rightarrow> string" where
  "addr_str a = mIpAddr a @ ''_'' @ to_dec (unat (mPort a))"

definition conn_id :: "socket \<Rightarrow> string" where
  "conn_id s = ''ConnId_'' @ addr_str (mLocalAddr s) @ ''_'' @ addr_str (mPeerAddr s)"

definition conn_init :: "socket \<Rightarrow> addr \<Rightarrow> 'u tcp_connection" where
  "conn_init s a = \<lparr>mpSocket = Some s, mpChannel = Some a, mIdentification = conn_id s,
     mConnCloseCb = None, mConnectionCb = None, mMessageCb = None, mWriteCompleteCb = None,
     mHighWaterMarkCb = None, mState = DisConnected, mRecvBuffer = TcpBuffer_new,
     mSendBuffer = TcpBuffer_new, arrived = [], wire = [], finSent = False\<rparr>"

text \<open>When the channel cannot be made, the socket member is destroyed with the object.\<close>

definition createTcpConnection :: "kernel \<Rightarrow> socket \<Rightarrow> ('u, 'z, nat) conn_exec" where
  "createTcpConnection k s = withE (\<lambda>w. let c = nextConn w in
     thenE (modifyE (\<lambda>w. w\<lparr>nextConn := c + 1\<rparr>))
     (bindE (catchE (Channel_create k NoCallback (sFd s) Normal)
               (\<lambda>e. if fatal e then throwE e else thenE (Socket_close s) (throwE e))) (\<lambda>a.
      thenE (block
        [set_callbacks a (\<lambda>ch. ch\<lparr>mChannelInfo := conn_id s, mWriteCb := ConnWrite c,
           mReadCb := ConnRead c, mErrorCb := ConnError c, mCloseCb := ConnClose c\<rparr>),
         modifyE (\<lambda>w. w\<lparr>conns := (conns w)(c := Some (conn_init s a))\<rparr>)])
        (retE c))))"

section \<open>Setters\<close>

definition conn_setConnectionCallback :: "nat \<Rightarrow> 'u option \<Rightarrow> ('u, 'z, unit) conn_exec" where
  "conn_setConnectionCallback c cb = upd_conn c (\<lambda>tc. tc\<lparr>mConnectionCb := cb\<rparr>)"

definition conn_setMessageCallback :: "nat \<Rightarrow> 'u option \<Rightarrow> ('u, 'z, unit) conn_exec" where
  "conn_setMessageCallback c cb = upd_conn c (\<lambda>tc. tc\<lparr>mMessageCb := cb\<rparr>)"

definition conn_setWriteCompleteCallback :: "nat \<Rightarrow> 'u option \<Rightarrow> ('u, 'z, unit) conn_exec" where
  "conn_setWriteCompleteCallback c cb = upd_conn c (\<lambda>tc. tc\<lparr>mWriteCompleteCb := cb\<rparr>)"

definition conn_setHighWaterMarkCallback :: "nat \<Rightarrow> 'u option \<Rightarrow> ('u, 'z, unit) conn_exec" where
  "conn_setHighWaterMarkCallback c cb = upd_conn c (\<lambda>tc. tc\<lparr>mHighWaterMarkCb := cb\<rparr>)"

definition conn_setCloseCallback :: "nat \<Rightarrow> close_cb \<Rightarrow> ('u, 'z, unit) conn_exec" where
  "conn_setCloseCallback c cb = upd_conn c (\<lambda>tc. tc\<lparr>mConnCloseCb := Some cb\<rparr>)"

text \<open>Server and client copy their callbacks into a new connection and add one of their own.\<close>

definition copy_callbacks :: "nat \<Rightarrow> 'u option \<Rightarrow> 'u option \<Rightarrow> 'u option \<Rightarrow> 'u option \<Rightarrow> close_cb \<Rightarrow> ('u, 'z, unit) conn_exec" where
  "copy_callbacks c conn_cb message_cb write_cb high_cb close_cb = block
     [conn_setConnectionCallback c conn_cb,
      conn_setMessageCallback c message_cb,
      conn_setWriteCompleteCallback c write_cb,
      conn_setHighWaterMarkCallback c high_cb,
      conn_setCloseCallback c close_cb]"

lemma copy_callbacks_eq: "copy_callbacks c conn_cb message_cb write_cb high_cb close_cb =
    upd_conn c (\<lambda>tc. tc\<lparr>mConnectionCb := conn_cb, mMessageCb := message_cb, mWriteCompleteCb := write_cb,
      mHighWaterMarkCb := high_cb, mConnCloseCb := Some close_cb\<rparr>)"
  by (rule ext) (simp add: copy_callbacks_def conn_setConnectionCallback_def conn_setMessageCallback_def
      conn_setWriteCompleteCallback_def conn_setHighWaterMarkCallback_def conn_setCloseCallback_def upd_conn_def
      thenE_def bindE_def option.map_comp o_def)

section \<open>The channel's callbacks\<close>

definition handleClose :: "kernel \<Rightarrow> ('u \<Rightarrow> nat \<Rightarrow> ('u, 'z, unit) conn_exec) \<Rightarrow> nat \<Rightarrow> ('u, 'z, unit) conn_exec" where
  "handleClose k usr c = with_conn c (\<lambda>tc. with_socket tc (\<lambda>s. block
     [assertInLoopThread,
      assertTrue (mState tc = Connected \<or> mState tc = HalfClosed) ''[TcpConnection] handleClose: destroy a bad connection!'',
      upd_conn c (\<lambda>tc. tc\<lparr>mState := DisConnected\<rparr>),
      run_close k (mConnCloseCb tc) c,
      with_conn c (\<lambda>tc. run_opt usr (mConnectionCb tc) c)]))"

definition handleError :: "nat \<Rightarrow> ('u, 'z, unit) conn_exec" where
  "handleError c = with_conn c (\<lambda>tc. with_socket tc (\<lambda>s. assertInLoopThread))"

definition recv_step :: "kernel \<Rightarrow> nat \<Rightarrow> ('u, 'z, unit) conn_exec" where
  "recv_step k c = with_conn c (\<lambda>tc. with_socket tc (\<lambda>s.
     thenE (on_recv c (readFromSocket (k_read k (sFd s)) (getSocketError k s)))
       (upd_conn c (\<lambda>t. t\<lparr>arrived := arrived t @ snd (k_read k (sFd s) (writablebytes (mRecvBuffer tc)))\<rparr>))))"

definition send_step :: "kernel \<Rightarrow> nat \<Rightarrow> ('u, 'z, unit) conn_exec" where
  "send_step k c = with_conn c (\<lambda>tc. with_socket tc (\<lambda>s.
     thenE (on_send c (writeToSocket (k_write k (sFd s)) (getSocketError k s)))
       (upd_conn c (\<lambda>t. t\<lparr>wire := wire t @ take (nat (k_write k (sFd s) (content (mSendBuffer tc)))) (content (mSendBuffer tc))\<rparr>))))"

definition handleRead :: "kernel \<Rightarrow> ('u \<Rightarrow> nat \<Rightarrow> ('u, 'z, unit) conn_exec) \<Rightarrow> nat \<Rightarrow> ('u, 'z, unit) conn_exec" where
  "handleRead k usr c = with_conn c (\<lambda>tc. block
     [assertInLoopThread,
      assertTrue (mState tc = Connected \<or> mState tc = HalfClosed) ''[TcpConnection] invoke handleRead in a bad connection!'',
      catch_net
        (block [recv_step k c, with_conn c (\<lambda>tc. run_opt usr (mMessageCb tc) c)])
        (\<lambda>err. if err = 0 then handleClose k usr c else handleError c)])"

definition handleWrite :: "kernel \<Rightarrow> ('u \<Rightarrow> nat \<Rightarrow> ('u, 'z, unit) conn_exec) \<Rightarrow> nat \<Rightarrow> ('u, 'z, unit) conn_exec" where
  "handleWrite k usr c = with_conn c (\<lambda>tc. block
     [assertInLoopThread,
      assertTrue (mState tc = Connected) ''[TcpConnection] invoke handleWrite in a bad connection!'',
      whenE (TcpBuffer_size (mSendBuffer tc) \<noteq> 0) (send_step k c),
      with_conn c (\<lambda>tc. whenE (TcpBuffer_size (mSendBuffer tc) = 0) (block
        [run_opt usr (mWriteCompleteCb tc) c,
         with_conn c (\<lambda>tc. chan_of_conn tc (disableWrite k))]))])"

section \<open>The user's interface\<close>

definition TCP_HIGH_WATER_MARK :: nat where "TCP_HIGH_WATER_MARK = 65535"

definition sendInLoop :: "kernel \<Rightarrow> ('u \<Rightarrow> nat \<Rightarrow> ('u, 'z, unit) conn_exec) \<Rightarrow> nat \<Rightarrow> byte list \<Rightarrow> ('u, 'z, unit) conn_exec" where
  "sendInLoop k usr c data = with_conn c (\<lambda>tc. thenE assertInLoopThread
     (if \<not> isConnected tc then retE ()
      else block
        [on_send c (appendToBuffer data),
         with_conn c (\<lambda>tc. whenE (TcpBuffer_size (mSendBuffer tc) > TCP_HIGH_WATER_MARK)
           (run_opt usr (mHighWaterMarkCb tc) c)),
         with_conn c (\<lambda>tc. chan_of_conn tc (\<lambda>a. with_channel a (\<lambda>ch.
           whenE (\<not> isWriting ch) (enableWrite k a))))]))"

text \<open>
  The four overloads of \<open>send\<close> and \<open>sendString\<close>: outside the loop thread the bytes
  are copied or moved into a functor.
\<close>

definition send :: "kernel \<Rightarrow> ('u \<Rightarrow> nat \<Rightarrow> ('u, 'z, unit) conn_exec) \<Rightarrow> nat \<Rightarrow> byte list \<Rightarrow> ('u, 'z, unit) conn_exec" where
  "send k usr c data = withE (\<lambda>w. if isInLoopThread w then sendInLoop k usr c data
     else queueInLoop k (SendTask c data))"

definition sendString :: "kernel \<Rightarrow> ('u \<Rightarrow> nat \<Rightarrow> ('u, 'z, unit) conn_exec) \<Rightarrow> nat \<Rightarrow> string \<Rightarrow> ('u, 'z, unit) conn_exec" where
  "sendString k usr c message = send k usr c (to_bytes message)"

definition conn_read :: "nat \<Rightarrow> nat \<Rightarrow> ('u, 'z, byte list) conn_exec" where
  "conn_read c sz = noexcept (with_conn c (\<lambda>tc. liftE (TcpBuffer_read sz (mRecvBuffer tc))))"

definition conn_readAll :: "nat \<Rightarrow> ('u, 'z, byte list) conn_exec" where
  "conn_readAll c = noexcept (with_conn c (\<lambda>tc.
     liftE (TcpBuffer_read (TcpBuffer_size (mRecvBuffer tc)) (mRecvBuffer tc))))"

definition conn_extract :: "nat \<Rightarrow> nat \<Rightarrow> ('u, 'z, byte list) conn_exec" where
  "conn_extract c sz = noexcept (on_recv c (TcpBuffer_extract sz))"

definition conn_extractAll :: "nat \<Rightarrow> ('u, 'z, byte list) conn_exec" where
  "conn_extractAll c = noexcept (with_conn c (\<lambda>tc. on_recv c (TcpBuffer_extract (TcpBuffer_size (mRecvBuffer tc)))))"

definition conn_readString :: "nat \<Rightarrow> nat \<Rightarrow> ('u, 'z, string) conn_exec" where
  "conn_readString c sz = noexcept (with_conn c (\<lambda>tc. liftE (readString sz (mRecvBuffer tc))))"

definition conn_readStringAll :: "nat \<Rightarrow> ('u, 'z, string) conn_exec" where
  "conn_readStringAll c = noexcept (with_conn c (\<lambda>tc.
     liftE (readString (TcpBuffer_size (mRecvBuffer tc)) (mRecvBuffer tc))))"

definition conn_extractString :: "nat \<Rightarrow> nat \<Rightarrow> ('u, 'z, string) conn_exec" where
  "conn_extractString c sz = noexcept (on_recv c (extractString sz))"

definition conn_extractStringAll :: "nat \<Rightarrow> ('u, 'z, string) conn_exec" where
  "conn_extractStringAll c = noexcept (with_conn c (\<lambda>tc. on_recv c (extractString (TcpBuffer_size (mRecvBuffer tc)))))"

section \<open>The owner's interface\<close>

definition establishConnect :: "kernel \<Rightarrow> ('u \<Rightarrow> nat \<Rightarrow> ('u, 'z, unit) conn_exec) \<Rightarrow> nat \<Rightarrow> ('u, 'z, unit) conn_exec" where
  "establishConnect k usr c = with_conn c (\<lambda>tc. block
     [assertInLoopThread,
      chan_of_conn tc (enableRead k),
      upd_conn c (\<lambda>tc. tc\<lparr>mState := Connected\<rparr>),
      with_conn c (\<lambda>tc. run_opt usr (mConnectionCb tc) c)])"

definition release_socket :: "nat \<Rightarrow> ('u, 'z, unit) conn_exec" where
  "release_socket c = with_conn c (\<lambda>tc. case mpSocket tc of
     None \<Rightarrow> retE ()
   | Some s \<Rightarrow> block [Socket_close s, upd_conn c (\<lambda>tc. tc\<lparr>mpSocket := None\<rparr>)])"

definition release_channel :: "kernel \<Rightarrow> bool \<Rightarrow> nat \<Rightarrow> ('u, 'z, unit) conn_exec" where
  "release_channel k unwinding c = with_conn c (\<lambda>tc. case mpChannel tc of
     None \<Rightarrow> retE ()
   | Some a \<Rightarrow> block [Channel_destroy k unwinding a, upd_conn c (\<lambda>tc. tc\<lparr>mpChannel := None\<rparr>)])"

definition destroyConnection :: "kernel \<Rightarrow> bool \<Rightarrow> nat \<Rightarrow> ('u, 'z, unit) conn_exec" where
  "destroyConnection k unwinding c = noexcept (with_conn c (\<lambda>tc. block
     [assertInLoopThread,
      assertTrue (mState tc = DisConnected) ''[TcpConnection] destroyConnection: must set setState as DisConnected!'',
      catch_std (block
        [(case mpChannel tc of
            None \<Rightarrow> retE ()
          | Some a \<Rightarrow> block [disableAll k a, release_channel k unwinding c]),
         release_socket c])
        (\<lambda>e. retE ())]))"

definition shutdownConnection :: "kernel \<Rightarrow> nat \<Rightarrow> ('u, 'z, unit) conn_exec" where
  "shutdownConnection k c = noexcept (queueInLoop k (ShutdownTask c))"

text \<open>The functor that \<open>shutdownConnection\<close> queues; a failing \<open>::shutdown\<close> is only logged.\<close>

definition shutdown_in_loop :: "kernel \<Rightarrow> nat \<Rightarrow> ('u, 'z, unit) conn_exec" where
  "shutdown_in_loop k c = with_conn c (\<lambda>tc. catch_std
     (if mState tc = DisConnected then retE ()
      else block
        [whenE (TcpBuffer_size (mSendBuffer tc) \<noteq> 0) (send_step k c),
         upd_conn c (\<lambda>tc. tc\<lparr>mState := HalfClosed\<rparr>),
         with_conn c (\<lambda>tc. chan_of_conn tc (disableWrite k)),
         with_conn c (\<lambda>tc. with_socket tc (\<lambda>s. upd_conn c (\<lambda>tc. tc\<lparr>finSent := True\<rparr>)))])
     (\<lambda>e. retE ()))"

text \<open>The destructor: the body, then the members, the channel before the socket.\<close>

definition TcpConnection_delete :: "kernel \<Rightarrow> bool \<Rightarrow> nat \<Rightarrow> ('u, 'z, unit) conn_exec" where
  "TcpConnection_delete k unwinding c = noexcept (with_conn c (\<lambda>tc. block
     [whenE (mState tc = Connected \<or> mState tc = HalfClosed) (block
        [upd_conn c (\<lambda>tc. tc\<lparr>mState := DisConnected\<rparr>), destroyConnection k unwinding c]),
      release_channel k unwinding c,
      release_socket c,
      modifyE (\<lambda>w. w\<lparr>conns := (conns w)(c := None)\<rparr>)]))"

lemmas conn_access_defs = with_conn_def upd_conn_def with_socket_def chan_of_conn_def run_opt_def

end
