(* ===== verification/Frames.thy ===== *)
theory Frames
  imports TcpConnection
begin

text \<open>
  What the operations of a connection leave alone. A frame is a reflexive and transitive
  relation between the states before and after; \<open>conn_frame\<close> are the frames that allow
  changes of channels, poller, descriptors and connections, \<open>queue_frame\<close> also those that
  allow queueing tasks. Everything an operation does is covered by these two, so any
  property of the other fields is a frame of every operation.
\<close>

locale conn_frame =
  fixes R :: "('u, 'z) conn_loop_scheme \<Rightarrow> ('u, 'z) conn_loop_scheme \<Rightarrow> bool"
  assumes pre: "preorder_rel R"
    and channels: "R s (s\<lparr>channels := x\<rparr>)"
    and poller: "R s (s\<lparr>mpPoller := p\<rparr>)"
    and fds: "R s (s\<lparr>openFds := l\<rparr>)"
    and connections: "R s (s\<lparr>conns := (conns s)(c := map_option g (conns s c))\<rparr>)"
begin

lemma on_poller: "moves R (on_poller m)"
  by (rule movesI) (simp add: on_poller_def poller split: prod.split)

lemma with_channel: "(\<And>c. moves R (f c)) \<Longrightarrow> moves R (with_channel a f)"
  unfolding with_channel_def using pre
  by (intro moves_with) (simp add: moves_throw moves_def preorder_rel_def split: option.split)

lemma set_channel: "moves R (set_channel a c)"
  unfolding set_channel_def by (intro moves_modify channels)

lemma in_thread: "moves R assertInLoopThread"
  unfolding assertInLoopThread_def by (intro moves_with moves_assert pre)

lemma update: "moves R (EventLoop_updateChannel k a)"
  unfolding EventLoop_updateChannel_def
  by (intro with_channel moves_block pre) (auto intro: in_thread on_poller)

lemma masks: "moves R (enableRead k a)" "moves R (enableWrite k a)" "moves R (disableRead k a)"
  "moves R (disableWrite k a)" "moves R (disableAll k a)"
  unfolding enableRead_def enableWrite_def disableRead_def disableWrite_def disableAll_def
  by (intro with_channel moves_if moves_block moves_ret pre; auto intro: set_channel update)+

lemma remove: "moves R (EventLoop_removeChannel k u a)"
  unfolding EventLoop_removeChannel_def
  by (intro with_channel moves_with moves_block pre) (auto intro: in_thread on_poller moves_assert pre)

lemma destroy: "moves R (Channel_destroy k u a)"
  unfolding Channel_destroy_def
  by (intro moves_noexcept with_channel moves_block pre)
    (auto intro: in_thread remove moves_modify channels)

lemma with_conn: "(\<And>tc. moves R (f tc)) \<Longrightarrow> moves R (with_conn c f)"
  unfolding with_conn_def using pre
  by (intro moves_with) (simp add: moves_throw moves_def preorder_rel_def split: option.split)

lemma upd: "moves R (upd_conn c g)"
  unfolding upd_conn_def by (intro moves_modify connections)

lemma with_socket: "(\<And>s. moves R (f s)) \<Longrightarrow> moves R (with_socket tc f)"
  unfolding with_socket_def using pre
  by (cases "mpSocket tc") (simp_all add: moves_def preorder_rel_def)

lemma chan_of: "(\<And>a. moves R (f a)) \<Longrightarrow> moves R (chan_of_conn tc f)"
  unfolding chan_of_conn_def using pre
  by (cases "mpChannel tc") (simp_all add: moves_def preorder_rel_def)

lemma close_socket: "moves R (Socket_close s)"
  unfolding Socket_close_def close_fd_def by (intro moves_modify fds)

lemma release: "moves R (release_channel k u c)" "moves R (release_socket c)"
  unfolding release_channel_def release_socket_def
  by (intro with_conn; auto split: option.split simp del: retE_simp
      intro!: moves_ret moves_then pre destroy upd close_socket)+

lemma buffers: "moves R (on_recv c m)" "moves R (on_send c m)"
  unfolding on_recv_def on_send_def
  by (intro with_conn; auto split: prod.split simp del: liftE_simp intro!: moves_then moves_lift pre upd)+

lemma io_steps: "moves R (recv_step k c)" "moves R (send_step k c)"
  unfolding recv_step_def send_step_def
  by (intro with_conn with_socket moves_then pre buffers upd)+

lemma destroyConnection: "moves R (destroyConnection k u c)"
  unfolding destroyConnection_def
  by (intro moves_noexcept with_conn moves_block pre)
    (auto split: option.split simp del: retE_simp
      intro!: in_thread moves_assert moves_catch_std moves_then moves_ret pre masks release)

lemma shutdown_in_loop: "moves R (shutdown_in_loop k c)"
  unfolding shutdown_in_loop_def
  by (intro with_conn moves_catch_std moves_if moves_block moves_ret pre)
    (auto intro!: moves_when pre io_steps upd with_conn chan_of masks with_socket)

end

text \<open>Frames that also allow a connection to be deleted.\<close>

locale delete_frame = conn_frame +
  assumes erase: "R s (s\<lparr>conns := (conns s)(c := None)\<rparr>)"
begin

lemma delete: "moves R (TcpConnection_delete k u c)"
  unfolding TcpConnection_delete_def
  by (intro moves_noexcept with_conn moves_block pre)
    (auto intro!: moves_when moves_then moves_ret moves_modify erase pre upd destroyConnection release simp del: retE_simp)

end

locale queue_frame = conn_frame +
  assumes queueing: "conn_task t \<Longrightarrow> \<not> (is_send t \<and> isInLoopThread s) \<Longrightarrow> R s (s\<lparr>mPendingTasks := mPendingTasks s @ [t]\<rparr>)"
    and wakeups: "R s (s\<lparr>mWakeups := n\<rparr>)"
begin

lemma queue_at:
  assumes "conn_task t" and "\<not> (is_send t \<and> isInLoopThread s)"
  shows "R s (snd (queueInLoop k t s))"
proof -
  have q: "R s (s\<lparr>mPendingTasks := mPendingTasks s @ [t]\<rparr>)" using assms by (rule queueing)
  then have "R s (s\<lparr>mPendingTasks := mPendingTasks s @ [t], mWakeups := mWakeups s + 1\<rparr>)"
    using wakeups [of "s\<lparr>mPendingTasks := mPendingTasks s @ [t]\<rparr>"] pre unfolding preorder_rel_def by blast
  with q show ?thesis by (cases "k_eventfd_write k < 0") (simp_all add: queueInLoop_ok queueInLoop_fails)
qed

lemma queue: "conn_task t \<Longrightarrow> \<not> is_send t \<Longrightarrow> moves R (queueInLoop k t)"
  by (rule movesI) (simp add: queue_at)

lemma close_cb: "moves R (run_close k cb c)"
  unfolding run_close_def
  by (auto split: option.split close_cb.split intro!: queue moves_ret pre simp del: retE_simp)

lemma shutdownConnection: "moves R (shutdownConnection k c)"
  unfolding shutdownConnection_def by (intro moves_noexcept queue pre) simp_all

lemma opt: "(\<And>u. moves R (usr u c)) \<Longrightarrow> moves R (run_opt usr cb c)"
  unfolding run_opt_def by (auto split: option.split intro!: moves_ret pre simp del: retE_simp)

lemma handleClose: "(\<And>u. moves R (usr u c)) \<Longrightarrow> moves R (handleClose k usr c)"
  unfolding handleClose_def
  by (intro with_conn with_socket moves_block pre)
    (auto intro!: in_thread moves_assert pre upd close_cb with_conn opt)

lemma handleError: "moves R (handleError c)"
  unfolding handleError_def by (intro with_conn with_socket in_thread)

lemma handleRead: "(\<And>u. moves R (usr u c)) \<Longrightarrow> moves R (handleRead k usr c)"
  unfolding handleRead_def
  by (intro with_conn moves_block pre)
    (auto intro!: in_thread moves_assert pre moves_catch_net moves_then moves_ret io_steps with_conn opt handleClose
      handleError simp del: retE_simp)

lemma handleWrite: "(\<And>u. moves R (usr u c)) \<Longrightarrow> moves R (handleWrite k usr c)"
  unfolding handleWrite_def
  by (intro with_conn moves_block pre)
    (auto intro!: in_thread moves_assert pre moves_when moves_then moves_ret io_steps with_conn opt chan_of masks
      simp del: retE_simp)

lemma sendInLoop: "(\<And>u. moves R (usr u c)) \<Longrightarrow> moves R (sendInLoop k usr c data)"
  unfolding sendInLoop_def
  by (intro with_conn moves_then moves_if moves_block moves_ret in_thread pre)
    (auto intro!: buffers with_conn moves_when opt pre chan_of with_channel masks)

lemma send:
  assumes "\<And>u. moves R (usr u c)"
  shows "moves R (send k usr c data)"
proof (rule movesI)
  fix s
  show "R s (snd (send k usr c data s))"
    using sendInLoop [of usr c k data, OF assms] queue_at [of "SendTask c data" s k]
    by (auto simp: send_def moves_def)
qed

lemma establish: "(\<And>u. moves R (usr u c)) \<Longrightarrow> moves R (establishConnect k usr c)"
  unfolding establishConnect_def
  by (intro with_conn moves_block pre)
    (auto intro!: in_thread chan_of masks upd with_conn opt)

end

section \<open>Frames of the library\<close>

text \<open>Deleting a connection queues nothing and leaves loop, server and client alone.\<close>

definition still :: "('u, 'z) conn_loop_scheme \<Rightarrow> ('u, 'z) conn_loop_scheme \<Rightarrow> bool" where
  "still s t \<longleftrightarrow> mPendingTasks t = mPendingTasks s \<and> mIsLoopingNow t = mIsLoopingNow s
     \<and> tCurrentLoop t = tCurrentLoop s \<and> conn_loop.more t = conn_loop.more s"

interpretation still: delete_frame still
  by unfold_locales (simp_all add: preorder_rel_def still_def)

text \<open>No operation but the constructor makes a connection live.\<close>

definition no_new_conns :: "('u, 'z) conn_loop_scheme \<Rightarrow> ('u, 'z) conn_loop_scheme \<Rightarrow> bool" where
  "no_new_conns s t \<longleftrightarrow> (\<forall>c. conns s c = None \<longrightarrow> conns t c = None)"

interpretation shrink: delete_frame no_new_conns
  by unfold_locales (auto simp: preorder_rel_def no_new_conns_def)

text \<open>Every other operation leaves the set of live connections alone.\<close>

definition same_conns :: "('u, 'z) conn_loop_scheme \<Rightarrow> ('u, 'z) conn_loop_scheme \<Rightarrow> bool" where
  "same_conns s t \<longleftrightarrow> (\<forall>c. conns t c = None \<longleftrightarrow> conns s c = None)"

interpretation alive: queue_frame same_conns
  by unfold_locales (auto simp: preorder_rel_def same_conns_def)

text \<open>
  The queue of tasks only grows, by tasks about connections (and, in the loop's thread, by
  no \<open>SendTask\<close>); the flags of the loop and the state of server and client stay.
\<close>

definition loop_frame :: "('u, 'z) conn_loop_scheme \<Rightarrow> ('u, 'z) conn_loop_scheme \<Rightarrow> bool" where
  "loop_frame s t \<longleftrightarrow> (\<exists>new. mPendingTasks t = mPendingTasks s @ new
        \<and> list_all (\<lambda>x. conn_task x \<and> \<not> (is_send x \<and> isInLoopThread s)) new)
     \<and> mIsLoopingNow t = mIsLoopingNow s \<and> tCurrentLoop t = tCurrentLoop s
     \<and> conn_loop.more t = conn_loop.more s \<and> same_conns s t"

interpretation loop: queue_frame loop_frame
proof (unfold_locales, goal_cases)
  case 1
  show ?case unfolding preorder_rel_def loop_frame_def same_conns_def isInLoopThread_def by fastforce
qed (auto simp: loop_frame_def same_conns_def isInLoopThread_def)

end
