(* ===== verification/Connections.thy ===== *)
theory Connections
  imports Frames
begin

text \<open>
  The invariant of a loop with connections, and that every operation of a connection keeps
  it: buffers are well formed, a connection has its channel exactly as long as its socket,
  the channel carries the connection's descriptor and callbacks, and a channel's callbacks
  never name a connection that is gone. So no operation of a live connection touches a
  deleted object.
\<close>

section \<open>The invariant\<close>

fun refers :: "'u chan_cb \<Rightarrow> nat option" where
  "refers (ConnRead c) = Some c"
| "refers (ConnWrite c) = Some c"
| "refers (ConnError c) = Some c"
| "refers (ConnClose c) = Some c"
| "refers _ = None"

definition chan_cbs :: "'cb channel \<Rightarrow> 'cb set" where
  "chan_cbs ch = {mReadCb ch, mWriteCb ch, mErrorCb ch, mCloseCb ch}"

definition conn_chan :: "nat \<Rightarrow> 'u tcp_connection \<Rightarrow> 'u chan_cb channel \<Rightarrow> bool" where
  "conn_chan c tc ch \<longleftrightarrow> mReadCb ch = ConnRead c \<and> mWriteCb ch = ConnWrite c
     \<and> mErrorCb ch = ConnError c \<and> mCloseCb ch = ConnClose c
     \<and> (\<exists>s. mpSocket tc = Some s \<and> sFd s = mFd ch)"

definition conn_ok :: "('u, 'z) conn_loop_scheme \<Rightarrow> nat \<Rightarrow> 'u tcp_connection \<Rightarrow> bool" where
  "conn_ok w c tc \<longleftrightarrow> tb_inv (mRecvBuffer tc) \<and> tb_inv (mSendBuffer tc)
     \<and> (mState tc \<noteq> DisConnected \<longrightarrow> mpChannel tc \<noteq> None)
     \<and> (mpChannel tc = None \<longrightarrow> mpSocket tc = None)
     \<and> (\<forall>a. mpChannel tc = Some a \<longrightarrow> (\<exists>ch. channels w a = Some ch \<and> conn_chan c tc ch))"

definition conn_wf :: "('u, 'z) conn_loop_scheme \<Rightarrow> bool" where
  "conn_wf w \<longleftrightarrow> net_wf w \<and> fds_open w
     \<and> (\<forall>c tc. conns w c = Some tc \<longrightarrow> conn_ok w c tc)
     \<and> (\<forall>a ch cb c. channels w a = Some ch \<and> cb \<in> chan_cbs ch \<and> refers cb = Some c \<longrightarrow>
          (\<exists>tc. conns w c = Some tc \<and> mpChannel tc = Some a))
     \<and> (\<forall>c \<ge> nextConn w. conns w c = None)
     \<and> (\<forall>t \<in> set (mPendingTasks w). \<forall>c. about t = Some c \<longrightarrow> conns w c \<noteq> None)"

text \<open>The channels that belong to no connection, without their event masks.\<close>

definition foreign :: "'u chan_cb channel \<Rightarrow> bool" where
  "foreign ch \<longleftrightarrow> (\<forall>cb \<in> chan_cbs ch. refers cb = None)"

definition others :: "('u, 'z) conn_loop_scheme \<Rightarrow> addr \<Rightarrow> 'u chan_cb channel option" where
  "others w a = (case channels w a of None \<Rightarrow> None
     | Some ch \<Rightarrow> if foreign ch then Some (ch\<lparr>mEvent := 0, mRevent := 0\<rparr>) else None)"

text \<open>
  \<open>conn_inv C K Oth\<close>: also, the connections \<open>C\<close> are live, the connections \<open>K\<close>
  have their channel, and the channels of others are \<open>Oth\<close>.
\<close>

definition conn_inv :: "nat set \<Rightarrow> nat set \<Rightarrow> (addr \<Rightarrow> 'u chan_cb channel option) \<Rightarrow> ('u, 'z) conn_loop_scheme \<Rightarrow> bool" where
  "conn_inv C K Oth w \<longleftrightarrow> conn_wf w \<and> (\<forall>c \<in> C. conns w c \<noteq> None)
     \<and> (\<forall>c \<in> K. \<exists>tc. conns w c = Some tc \<and> mpChannel tc \<noteq> None) \<and> others w = Oth"

lemma conn_wfD:
  assumes "conn_wf w"
  shows "net_wf w" and "fds_open w" and "\<And>c tc. conns w c = Some tc \<Longrightarrow> conn_ok w c tc"
    and "\<And>a ch cb c. channels w a = Some ch \<Longrightarrow> cb \<in> chan_cbs ch \<Longrightarrow> refers cb = Some c \<Longrightarrow>
          \<exists>tc. conns w c = Some tc \<and> mpChannel tc = Some a"
    and "\<And>c. nextConn w \<le> c \<Longrightarrow> conns w c = None"
    and "\<And>t c. t \<in> set (mPendingTasks w) \<Longrightarrow> about t = Some c \<Longrightarrow> conns w c \<noteq> None"
  using assms unfolding conn_wf_def by blast+

lemma conn_wfI:
  assumes "net_wf w" and "fds_open w" and "\<And>c tc. conns w c = Some tc \<Longrightarrow> conn_ok w c tc"
    and "\<And>a ch cb c. channels w a = Some ch \<Longrightarrow> cb \<in> chan_cbs ch \<Longrightarrow> refers cb = Some c \<Longrightarrow>
          \<exists>tc. conns w c = Some tc \<and> mpChannel tc = Some a"
    and "\<And>c. nextConn w \<le> c \<Longrightarrow> conns w c = None"
    and "\<And>t c. t \<in> set (mPendingTasks w) \<Longrightarrow> about t = Some c \<Longrightarrow> conns w c \<noteq> None"
  shows "conn_wf w"
  unfolding conn_wf_def using assms by blast

lemma conn_invD: "conn_inv C K Oth w \<Longrightarrow> conn_wf w" "conn_inv C K Oth w \<Longrightarrow> c \<in> C \<Longrightarrow> \<exists>tc. conns w c = Some tc"
  "conn_inv C K Oth w \<Longrightarrow> c \<in> K \<Longrightarrow> \<exists>tc. conns w c = Some tc \<and> mpChannel tc \<noteq> None"
  by (auto simp: conn_inv_def)

lemma conn_okD:
  assumes "conn_ok w c tc"
  shows "tb_inv (mRecvBuffer tc)" and "tb_inv (mSendBuffer tc)"
    and "mState tc \<noteq> DisConnected \<Longrightarrow> mpChannel tc \<noteq> None"
    and "mpChannel tc = None \<Longrightarrow> mpSocket tc = None"
    and "\<And>a. mpChannel tc = Some a \<Longrightarrow> \<exists>ch s. channels w a = Some ch \<and> conn_chan c tc ch
          \<and> mpSocket tc = Some s \<and> sFd s = mFd ch"
  using assms by (auto simp: conn_ok_def conn_chan_def)

lemma conn_socket: "conn_ok w c tc \<Longrightarrow> mState tc \<noteq> DisConnected \<Longrightarrow> \<exists>s. mpSocket tc = Some s"
  using conn_okD(3,5) by fastforce

text \<open>Two connections never share a channel.\<close>

lemma conn_chan_inj:
  assumes "conn_wf w" and "conns w c = Some tc" and "conns w d = Some td"
    and "mpChannel tc = Some a" and "mpChannel td = Some a"
  shows "c = d"
proof -
  from conn_okD(5) [OF conn_wfD(3) [OF assms(1,2)] assms(4)]
    conn_okD(5) [OF conn_wfD(3) [OF assms(1,3)] assms(5)]
  show ?thesis by (auto simp: conn_chan_def)
qed

text \<open>Fields the invariant does not read.\<close>

lemma fds_open_fields [simp]:
  "fds_open (w\<lparr>mIsExit := b\<rparr>) = fds_open w"
  "fds_open (w\<lparr>mIsLoopingNow := b\<rparr>) = fds_open w"
  "fds_open (w\<lparr>mIsDoPendingWorks := b\<rparr>) = fds_open w"
  "fds_open (w\<lparr>mPendingTasks := ts\<rparr>) = fds_open w"
  "fds_open (w\<lparr>mWakeups := n\<rparr>) = fds_open w"
  by (simp_all add: fds_open_def)

lemma conn_wf_fields [simp]:
  "conn_wf (w\<lparr>mIsExit := b\<rparr>) = conn_wf w"
  "conn_wf (w\<lparr>mIsLoopingNow := b\<rparr>) = conn_wf w"
  "conn_wf (w\<lparr>mIsDoPendingWorks := b\<rparr>) = conn_wf w"
  "conn_wf (w\<lparr>mWakeups := n\<rparr>) = conn_wf w"
  by (simp_all add: conn_wf_def conn_ok_def)

lemma others_cong: "channels w' = channels w \<Longrightarrow> others w' = others w"
  by (simp add: others_def fun_eq_iff)

lemma others_fields [simp]:
  "others (w\<lparr>mIsExit := b\<rparr>) = others w"
  "others (w\<lparr>mIsLoopingNow := b\<rparr>) = others w"
  "others (w\<lparr>mIsDoPendingWorks := b\<rparr>) = others w"
  "others (w\<lparr>mPendingTasks := ts\<rparr>) = others w"
  "others (w\<lparr>mWakeups := n\<rparr>) = others w"
  "others (w\<lparr>conns := f\<rparr>) = others w"
  "others (w\<lparr>openFds := l\<rparr>) = others w"
  "others (w\<lparr>nextConn := n\<rparr>) = others w"
  "others (w\<lparr>nextAddr := m\<rparr>) = others w"
  by (rule others_cong; simp)+

lemma conn_inv_fields [simp]:
  "conn_inv C K Oth (w\<lparr>mIsExit := b\<rparr>) = conn_inv C K Oth w"
  "conn_inv C K Oth (w\<lparr>mIsLoopingNow := b\<rparr>) = conn_inv C K Oth w"
  "conn_inv C K Oth (w\<lparr>mIsDoPendingWorks := b\<rparr>) = conn_inv C K Oth w"
  "conn_inv C K Oth (w\<lparr>mWakeups := n\<rparr>) = conn_inv C K Oth w"
  by (simp_all add: conn_inv_def)

lemma conn_wf_tasks:
  assumes "conn_wf w" and "\<And>t c. t \<in> set ts \<Longrightarrow> about t = Some c \<Longrightarrow> conns w c \<noteq> None"
  shows "conn_wf (w\<lparr>mPendingTasks := ts\<rparr>)"
  using assms by (auto simp: conn_wf_def conn_ok_def)

lemma conn_inv_push:
  assumes "conn_inv C K Oth w" and "\<And>c. about t = Some c \<Longrightarrow> c \<in> C"
  shows "conn_inv C K Oth (w\<lparr>mPendingTasks := mPendingTasks w @ [t]\<rparr>)"
proof -
  have "conn_wf (w\<lparr>mPendingTasks := mPendingTasks w @ [t]\<rparr>)"
    by (rule conn_wf_tasks) (use assms conn_wfD(6) in \<open>auto simp: conn_inv_def\<close>)
  with assms(1) show ?thesis by (simp add: conn_inv_def)
qed

section \<open>The steps\<close>

lemma chan_cbs_event [simp]: "chan_cbs (ch\<lparr>mEvent := e\<rparr>) = chan_cbs ch" "chan_cbs (ch\<lparr>mRevent := e\<rparr>) = chan_cbs ch"
  by (simp_all add: chan_cbs_def)

lemma foreign_event [simp]: "foreign (ch\<lparr>mEvent := e\<rparr>) = foreign ch" "foreign (ch\<lparr>mRevent := e\<rparr>) = foreign ch"
  by (simp_all add: foreign_def)

lemma conn_chan_foreign: "conn_chan c tc ch \<Longrightarrow> \<not> foreign ch"
  by (auto simp: conn_chan_def foreign_def chan_cbs_def)

lemma conn_chan_event [simp]: "conn_chan c tc (ch\<lparr>mEvent := e\<rparr>) = conn_chan c tc ch"
  "conn_chan c tc (ch\<lparr>mRevent := e\<rparr>) = conn_chan c tc ch"
  by (simp_all add: conn_chan_def)

lemma conn_ok_static:
  assumes "conn_ok w c tc" and "\<And>a ch. channels w a = Some ch \<Longrightarrow> \<exists>e r. channels w' a = Some (ch\<lparr>mEvent := e, mRevent := r\<rparr>)"
  shows "conn_ok w' c tc"
proof -
  have "\<exists>ch. channels w' a = Some ch \<and> conn_chan c tc ch" if "mpChannel tc = Some a" for a
    using conn_okD(5) [OF assms(1) that] assms(2) [of a] by fastforce
  with assms(1) show ?thesis by (simp add: conn_ok_def)
qed

lemma conn_wf_mask:
  assumes wf: "conn_wf w" and m: "mask_step a w w'" and net: "net_wf w'"
  shows "conn_wf w'"
proof -
  have more: "event_loop.more w' = event_loop.more w" by (rule mask_step_more [OF m])
  then have same: "conns w' = conns w" "nextConn w' = nextConn w"
    using m by (auto simp: mask_step_def)
  have oks: "conn_ok w' c tc" if "conns w c = Some tc" for c tc
  proof (rule conn_ok_static [OF conn_wfD(3) [OF wf that]])
    fix b ch assume "channels w b = Some ch"
    from mask_step_channel [OF m this] obtain e where "channels w' b = Some (ch\<lparr>mEvent := e\<rparr>)" by blast
    then have "channels w' b = Some (ch\<lparr>mEvent := e, mRevent := mRevent ch\<rparr>)" by simp
    then show "\<exists>e r. channels w' b = Some (ch\<lparr>mEvent := e, mRevent := r\<rparr>)" by blast
  qed
  moreover have "\<exists>tc. conns w c = Some tc \<and> mpChannel tc = Some b"
    if "channels w' b = Some ch" "cb \<in> chan_cbs ch" "refers cb = Some c" for b ch cb c
    using mask_step_channel_back [OF m that(1)] that(2,3) conn_wfD(4) [OF wf] by fastforce
  ultimately show ?thesis
    using net fds_open_mask_step [OF m conn_wfD(2) [OF wf]] conn_wfD(5,6) [OF wf] same mask_step_tasks [OF m]
    by (intro conn_wfI) auto
qed

lemma others_mask: "mask_step a w w' \<Longrightarrow> others w' = others w"
proof (rule ext)
  fix b assume m: "mask_step a w w'"
  show "others w' b = others w b"
  proof (cases "channels w b")
    case None
    have "channels w' b = None"
      using mask_step_channel_back [OF m, of b] None by (cases "channels w' b") auto
    with None show ?thesis by (simp add: others_def)
  next
    case (Some ch)
    from mask_step_channel [OF m Some] Some show ?thesis by (auto simp: others_def)
  qed
qed

lemma conn_inv_mask:
  assumes inv: "conn_inv C K Oth w" and m: "mask_step a w w'" and n: "net_wf w'"
  shows "conn_inv C K Oth w'"
proof -
  have "conns w' = conns w" using m by (auto simp: mask_step_def)
  with inv conn_wf_mask [OF conn_invD(1) [OF inv] m n] others_mask [OF m] show ?thesis
    by (simp add: conn_inv_def)
qed

lemma conn_ok_conns [simp]: "conn_ok (w\<lparr>conns := f\<rparr>) c tc = conn_ok w c tc"
  by (simp add: conn_ok_def)

lemma net_wf_conns [simp]: "net_wf (w\<lparr>conns := f\<rparr>) = net_wf w" "fds_open (w\<lparr>conns := f\<rparr>) = fds_open w"
  by (simp_all add: net_wf_def fds_open_def)

lemma conn_inv_upd:
  assumes inv: "conn_inv C K Oth w" and c: "conns w c = Some tc" and ok: "conn_ok w c tc'"
    and ch: "mpChannel tc' = mpChannel tc"
  shows "conn_inv C K Oth (w\<lparr>conns := (conns w)(c := Some tc')\<rparr>)"
proof -
  note wf = conn_invD(1) [OF inv]
  have "conn_wf (w\<lparr>conns := (conns w)(c := Some tc')\<rparr>)"
  proof (rule conn_wfI, goal_cases)
    case (3 d td)
    with conn_wfD(3) [OF wf] ok show ?case by (simp split: if_splits)
  next
    case (4 a chn cb d)
    with conn_wfD(4) [OF wf, of a chn cb d] c ch show ?case by auto
  next
    case (5 d)
    with conn_wfD(5) [OF wf, of d] c show ?case by auto
  next
    case (6 t d)
    with conn_wfD(6) [OF wf, of t d] show ?case by simp
  qed (use conn_wfD(1,2) [OF wf] in simp_all)
  with inv c ch show ?thesis by (auto simp: conn_inv_def)
qed

section \<open>Rules\<close>

text \<open>A mask operation on a live channel fails only with an exception or an assertion.\<close>

lemma mask_fails:
  assumes "net_wf w" and "channels w a = Some c"
    and "block [set_channel a (c\<lparr>mEvent := ev\<rparr>), EventLoop_updateChannel k a] w = (Inl e, w')"
  shows "allowed e"
proof (cases "isInLoopThread w")
  case True
  with assms(3) update_mask [OF assms(1,2) True, of ev k] show ?thesis by (auto split: if_splits)
next
  case False
  with assms(3) show ?thesis by (auto simp: chan_op_defs exec_simps isInLoopThread_def)
qed

lemma good_mask_ops:
  fixes w :: "('u, 'z) conn_loop_scheme"
  assumes "conn_inv C K Oth w" and "channels w a = Some ch"
  shows "good (conn_inv C K Oth) (enableRead k a) w"
    and "good (conn_inv C K Oth) (enableWrite k a) w"
    and "good (conn_inv C K Oth) (disableRead k a) w"
    and "good (conn_inv C K Oth) (disableWrite k a) w"
    and "good (conn_inv C K Oth) (disableAll k a) w"
proof -
  have n: "net_wf w" using assms(1) by (auto simp: conn_inv_def conn_wf_def)
  have gen: "good (conn_inv C K Oth) m w"
    if ms: "mask_step a w (snd (m w))" and p: "preserves net_wf m"
      and m: "m w = (Inr (), w) \<or> (\<exists>ev. m w = block [set_channel a (ch\<lparr>mEvent := ev\<rparr>), EventLoop_updateChannel k a] w)"
    for m :: "('u, 'z, unit) conn_exec"
  proof -
    have i: "conn_inv C K Oth (snd (m w))" by (rule conn_inv_mask [OF assms(1) ms preservesD [OF p n]])
    obtain r w' where mw: "m w = (r, w')" by fastforce
    show ?thesis
    proof (cases r)
      case (Inl e)
      with m mw obtain ev where "block [set_channel a (ch\<lparr>mEvent := ev\<rparr>), EventLoop_updateChannel k a] w = (Inl e, w')"
        by auto
      then have "allowed e" by (rule mask_fails [OF n assms(2)])
      with i mw Inl show ?thesis by (simp add: good_def)
    qed (use i mw in \<open>simp add: good_def\<close>)
  qed
  note ms = mask_steps [OF n, of a k]
  show "good (conn_inv C K Oth) (enableRead k a) w"
    by (rule gen [OF ms(1) preserves_enableRead]) (auto simp: enableRead_def with_channel_def assms(2))
  show "good (conn_inv C K Oth) (enableWrite k a) w"
    by (rule gen [OF ms(2) preserves_enableWrite]) (auto simp: enableWrite_def with_channel_def assms(2))
  show "good (conn_inv C K Oth) (disableRead k a) w"
    by (rule gen [OF ms(3) preserves_disableRead]) (auto simp: disableRead_def with_channel_def assms(2))
  show "good (conn_inv C K Oth) (disableWrite k a) w"
    by (rule gen [OF ms(4) preserves_disableWrite]) (auto simp: disableWrite_def with_channel_def assms(2))
  show "good (conn_inv C K Oth) (disableAll k a) w"
    by (rule gen [OF ms(5) preserves_disableAll]) (auto simp: disableAll_def with_channel_def assms(2))
qed


text \<open>Access to a live connection and, through it, to its channel and socket.\<close>

lemma good_with_conn:
  "conn_inv C K Oth w \<Longrightarrow> c \<in> C \<Longrightarrow> (\<And>tc. conns w c = Some tc \<Longrightarrow> conn_ok w c tc \<Longrightarrow> good P (f tc) w)
   \<Longrightarrow> good P (with_conn c f) w"
  using conn_invD(2) [of C K Oth w c] conn_wfD(3) [OF conn_invD(1)] by (fastforce simp: with_conn_def good_def)

lemma good_with_socket:
  "conn_ok w c tc \<Longrightarrow> mState tc \<noteq> DisConnected \<or> mpChannel tc \<noteq> None \<Longrightarrow> (\<And>s. mpSocket tc = Some s \<Longrightarrow> good P (f s) w)
   \<Longrightarrow> good P (with_socket tc f) w"
  using conn_okD(3,5) [of w c tc] by (fastforce simp: with_socket_def)

lemma good_chan_of_conn:
  "conn_ok w c tc \<Longrightarrow> mpChannel tc \<noteq> None \<Longrightarrow>
   (\<And>a ch. mpChannel tc = Some a \<Longrightarrow> channels w a = Some ch \<Longrightarrow> good P (f a) w) \<Longrightarrow> good P (chan_of_conn tc f) w"
  using conn_okD(5) [of w c tc] by (fastforce simp: chan_of_conn_def)

lemma good_in_thread_then: "P w \<Longrightarrow> good P n w \<Longrightarrow> good P (thenE assertInLoopThread n) w"
  by (cases "isInLoopThread w")
    (simp_all add: assertInLoopThread_def good_def thenE_def bindE_def)

lemma keeps_in_thread [keeps_intros]: "keeps P assertInLoopThread"
  by (rule keepsI) (auto simp: assertInLoopThread_def assertTrue_def split: if_splits)

lemma keeps_queue:
  "(\<And>c. about t = Some c \<Longrightarrow> c \<in> C) \<Longrightarrow> keeps (conn_inv C K Oth) (queueInLoop k t)"
  by (rule keepsI; cases "k_eventfd_write k < 0") (auto simp: queueInLoop_ok queueInLoop_fails conn_inv_push)

lemma good_upd_conn:
  assumes "conn_inv C K Oth w" and "conns w c = Some tc" and "conn_ok w c (g tc)" and "mpChannel (g tc) = mpChannel tc"
  shows "good (conn_inv C K Oth) (upd_conn c g) w"
  using conn_inv_upd [OF assms] assms(2) by (simp add: good_def upd_conn_def)

section \<open>Polling keeps the invariant\<close>

lemma others_static:
  assumes "\<And>a. channels w' a = map_option (\<lambda>c. c\<lparr>mRevent := f a (mRevent c)\<rparr>) (channels w a)"
  shows "others w' = others w"
proof (rule ext)
  fix a
  show "others w' a = others w a"
    by (cases "channels w a") (simp_all add: others_def assms)
qed

lemma conn_inv_revents:
  assumes inv: "conn_inv C K Oth w" and n: "net_wf (set_revents evs w)"
  shows "conn_inv C K Oth (set_revents evs w)"
proof -
  note wf = conn_invD(1) [OF inv]
  obtain ch where fr: "set_revents evs w = w\<lparr>channels := ch\<rparr>" using set_revents_frame by blast
  obtain f where f: "\<And>a. channels (set_revents evs w) a = map_option (\<lambda>c. c\<lparr>mRevent := f a (mRevent c)\<rparr>) (channels w a)"
    using set_revents_channel [of evs w] by blast
  have same: "conns (set_revents evs w) = conns w" "nextConn (set_revents evs w) = nextConn w"
    "openFds (set_revents evs w) = openFds w" "mPendingTasks (set_revents evs w) = mPendingTasks w"
    by (simp_all add: fr)
  have "conn_wf (set_revents evs w)"
  proof (rule conn_wfI [OF n], goal_cases)
    case 1
    show ?case unfolding fds_open_def
    proof (intro allI impI)
      fix a c assume "channels (set_revents evs w) a = Some c"
      with f [of a] obtain c0 where "channels w a = Some c0" "mFd c = mFd c0" by (cases "channels w a") auto
      with fds_openD [OF conn_wfD(2) [OF wf], of a c0] show "mFd c \<in> set (openFds (set_revents evs w))"
        by (simp add: same)
    qed
  next
    case (2 c tc)
    then have "conns w c = Some tc" by (simp add: same)
    then show ?case
    proof (rule conn_ok_static [OF conn_wfD(3) [OF wf]])
      fix a ch assume "channels w a = Some ch"
      with f [of a] have "channels (set_revents evs w) a = Some (ch\<lparr>mEvent := mEvent ch, mRevent := f a (mRevent ch)\<rparr>)" by simp
      then show "\<exists>e r. channels (set_revents evs w) a = Some (ch\<lparr>mEvent := e, mRevent := r\<rparr>)" by blast
    qed
  next
    case (3 a c cb d)
    from 3(1) f [of a] obtain c0 where c0: "channels w a = Some c0" "c = c0\<lparr>mRevent := f a (mRevent c0)\<rparr>" by (cases "channels w a") auto
    with 3(2) have "cb \<in> chan_cbs c0" by simp
    from conn_wfD(4) [OF wf c0(1) this 3(3)] show ?case by (simp add: same)
  next
    case (4 c)
    with conn_wfD(5) [OF wf] show ?case by (simp add: same)
  next
    case (5 t c)
    with conn_wfD(6) [OF wf] show ?case by (simp add: same)
  qed
  moreover have "others (set_revents evs w) = others w" by (rule others_static) (rule f)
  ultimately show ?thesis using inv by (simp add: conn_inv_def same)
qed

lemma conn_inv_open:
  assumes "conn_inv C K Oth w"
  shows "conn_inv C K Oth (w\<lparr>openFds := fd # openFds w\<rparr>)"
proof -
  note wf = conn_invD(1) [OF assms]
  have "conn_wf (w\<lparr>openFds := fd # openFds w\<rparr>)"
  proof (rule conn_wfI, goal_cases)
    case 2
    show ?case using fds_openD [OF conn_wfD(2) [OF wf]] by (auto simp: fds_open_def)
  next
    case (3 c tc)
    with conn_wfD(3) [OF wf, of c tc] show ?case by (simp add: conn_ok_def)
  next
    case 1
    with conn_wfD(1) [OF wf] show ?case by (simp add: net_wf_def)
  next
    case (4 a ch cb c)
    with conn_wfD(4) [OF wf, of a ch cb c] show ?case by simp
  next
    case (5 c)
    with conn_wfD(5) [OF wf, of c] show ?case by simp
  next
    case (6 t c)
    with conn_wfD(6) [OF wf, of t c] show ?case by simp
  qed
  with assms show ?thesis by (simp add: conn_inv_def)
qed

end
