(* ===== verification/ConnOps.thy ===== *)
theory ConnOps
  imports Connections
begin

text \<open>
  Every operation of a connection keeps the invariant of \<open>Connections\<close>, whatever the
  kernel answers and whatever the application's callbacks do with live connections.
\<close>

definition kernel_ok :: "kernel \<Rightarrow> bool" where
  "kernel_ok k \<longleftrightarrow> ctl_ok k \<and> new_fd_ok k \<and> (\<forall>fd. read_ok (k_read k fd)) \<and> (\<forall>fd. write_ok (k_write k fd))"

text \<open>
  The application's closures may use the connections they are given; they keep the
  invariant, delete none of the live connections, and take no connection its channel.
\<close>

definition usr_ok :: "('u \<Rightarrow> nat \<Rightarrow> ('u, 'z, unit) conn_exec) \<Rightarrow> bool" where
  "usr_ok usr \<longleftrightarrow> (\<forall>u c C K Oth. c \<in> C \<longrightarrow> keeps (conn_inv C K Oth) (usr u c))"

lemma quiet_kernel_ok: "kernel_ok quiet_kernel"
  using quiet_ok by (simp add: kernel_ok_def read_ok_def write_ok_def quiet_kernel_def)

section \<open>Buffers\<close>

lemma keeps_readFromSocket: "read_ok rd \<Longrightarrow> keeps tb_inv (readFromSocket rd e)"
proof (rule keepsI_good)
  fix b assume rd: "read_ok rd" and inv: "tb_inv b"
  obtain res ds where got: "rd (writablebytes b) = (res, ds)" by fastforce
  show "good tb_inv (readFromSocket rd e) b"
  proof (cases "res > 0")
    case True
    from readFromSocket_ok [OF inv rd got True, of e] show ?thesis by (auto simp: good_def)
  next
    case False
    with readFromSocket_eof [of rd b res ds e] got inv show ?thesis by (simp add: good_def)
  qed
qed

lemma keeps_writeToSocket: "write_ok wr \<Longrightarrow> keeps tb_inv (writeToSocket wr e)"
proof (rule keepsI_good)
  fix b assume wr: "write_ok wr" and inv: "tb_inv b"
  show "good tb_inv (writeToSocket wr e) b"
  proof (cases "wr (content b) > 0")
    case True
    from writeToSocket_ok [OF inv wr True, of e] show ?thesis by (auto simp: good_def)
  next
    case False
    with writeToSocket_fail [OF inv, of wr e] inv show ?thesis by (simp add: good_def)
  qed
qed

lemma keeps_appendToBuffer: "keeps tb_inv (appendToBuffer ds)"
proof (rule keepsI_good)
  fix b assume inv: "tb_inv b"
  show "good tb_inv (appendToBuffer ds) b"
  proof (cases "append_safe (length ds) b")
    case True
    from appendToBuffer_safe [OF inv True] show ?thesis by (auto simp: good_def)
  next
    case False
    then have nofit: "writablebytes b < length ds" by (simp add: append_safe_def)
    consider (long) "max_size < length ds * 2"
      | (hang) "length ds * 2 \<le> max_size" "length ds < mWritePos b" "mWritePos b \<le> 2 * length ds"
      | (bad) "2 * length ds < mWritePos b"
      using False nofit by (fastforce simp: append_safe_def)
    then show ?thesis
    proof cases
      case long
      with appendToBuffer_too_long [OF nofit] inv show ?thesis by (simp add: good_def)
    next
      case hang
      with appendToBuffer_hangs [OF inv nofit] show ?thesis by (simp add: good_def)
    next
      case bad
      with appendToBuffer_overrun [OF inv nofit] show ?thesis by (auto simp: good_def)
    qed
  qed
qed

lemma keeps_extract: "keeps tb_inv (TcpBuffer_extract n)"
proof (rule keepsI_good)
  fix b assume inv: "tb_inv b"
  from extract_content [OF inv, of n] show "good tb_inv (TcpBuffer_extract n) b"
    by (auto simp: good_def)
qed

lemma keeps_extractString: "keeps tb_inv (extractString n)"
proof (rule keepsI_good)
  fix b assume inv: "tb_inv b"
  from extract_content [OF inv, of n] show "good tb_inv (extractString n) b"
    by (auto simp: good_def extractString_extract [OF inv])
qed

section \<open>Access to the buffers\<close>

lemma good_on_recv:
  assumes "conn_inv C K Oth w" and "c \<in> C" and "keeps tb_inv m"
  shows "good (conn_inv C K Oth) (on_recv c m) w"
proof -
  from conn_invD(2) [OF assms(1,2)] obtain tc where tc: "conns w c = Some tc" by blast
  note ok = conn_wfD(3) [OF conn_invD(1) [OF assms(1)] tc]
  obtain r b where m: "m (mRecvBuffer tc) = (r, b)" by fastforce
  have g: "case r of Inl e \<Rightarrow> allowed e \<and> (fatal e \<or> tb_inv b) | Inr a \<Rightarrow> tb_inv b"
    using keeps_case [OF assms(3) conn_okD(1) [OF ok]] m by (cases r) simp_all
  have up: "conn_inv C K Oth (w\<lparr>conns := (conns w)(c := Some (tc\<lparr>mRecvBuffer := b\<rparr>))\<rparr>)" if "tb_inv b"
    using ok that by (intro conn_inv_upd [OF assms(1) tc]) (simp_all add: conn_ok_def conn_chan_def)
  show ?thesis using g up tc m
    by (cases r) (auto simp: good_def on_recv_def with_conn_def upd_conn_def thenE_def bindE_def)
qed

lemma good_on_send:
  assumes "conn_inv C K Oth w" and "c \<in> C" and "keeps tb_inv m"
  shows "good (conn_inv C K Oth) (on_send c m) w"
proof -
  from conn_invD(2) [OF assms(1,2)] obtain tc where tc: "conns w c = Some tc" by blast
  note ok = conn_wfD(3) [OF conn_invD(1) [OF assms(1)] tc]
  obtain r b where m: "m (mSendBuffer tc) = (r, b)" by fastforce
  have g: "case r of Inl e \<Rightarrow> allowed e \<and> (fatal e \<or> tb_inv b) | Inr a \<Rightarrow> tb_inv b"
    using keeps_case [OF assms(3) conn_okD(2) [OF ok]] m by (cases r) simp_all
  have up: "conn_inv C K Oth (w\<lparr>conns := (conns w)(c := Some (tc\<lparr>mSendBuffer := b\<rparr>))\<rparr>)" if "tb_inv b"
    using ok that by (intro conn_inv_upd [OF assms(1) tc]) (simp_all add: conn_ok_def conn_chan_def)
  show ?thesis using g up tc m
    by (cases r) (auto simp: good_def on_send_def with_conn_def upd_conn_def thenE_def bindE_def)
qed

text \<open>Updates of fields that the invariant reads only through \<open>conn_ok\<close>.\<close>

lemma keeps_upd_conn:
  assumes "\<And>(w :: ('u, 'z) conn_loop_scheme) tc. conn_ok w c tc \<Longrightarrow> conn_ok w c (g tc)"
    and "\<And>tc. mpChannel (g tc) = mpChannel tc" and "c \<in> C"
  shows "keeps (conn_inv C K Oth :: ('u, 'z) conn_loop_scheme \<Rightarrow> bool) (upd_conn c g)"
proof (rule keepsI_good)
  fix w :: "('u, 'z) conn_loop_scheme" assume inv: "conn_inv C K Oth w"
  from conn_invD(2) [OF inv assms(3)] obtain tc where tc: "conns w c = Some tc" by blast
  show "good (conn_inv C K Oth) (upd_conn c g) w"
    using inv tc
  proof (rule good_upd_conn)
    show "conn_ok w c (g tc)" by (rule assms(1) [OF conn_wfD(3) [OF conn_invD(1) [OF inv] tc]])
  qed (rule assms(2))
qed

lemma conn_ok_ghost [simp]:
  "conn_ok w c (tc\<lparr>arrived := x\<rparr>) = conn_ok w c tc"
  "conn_ok w c (tc\<lparr>wire := x\<rparr>) = conn_ok w c tc"
  "conn_ok w c (tc\<lparr>finSent := f\<rparr>) = conn_ok w c tc"
  "conn_ok w c (tc\<lparr>mConnectionCb := u, mMessageCb := u2, mWriteCompleteCb := u3, mHighWaterMarkCb := u4, mConnCloseCb := u5\<rparr>) = conn_ok w c tc"
  "conn_ok w c (tc\<lparr>mMessageCb := u2, mWriteCompleteCb := u3, mConnectionCb := u, mHighWaterMarkCb := u4, mConnCloseCb := u5\<rparr>) = conn_ok w c tc"
  by (simp_all add: conn_ok_def conn_chan_def)

lemma conn_ok_dis: "conn_ok w c tc \<Longrightarrow> conn_ok w c (tc\<lparr>mState := DisConnected\<rparr>)"
  by (simp add: conn_ok_def conn_chan_def)

lemma conn_ok_state: "conn_ok w c tc \<Longrightarrow> mpChannel tc \<noteq> None \<Longrightarrow> conn_ok w c (tc\<lparr>mState := st\<rparr>)"
  by (auto simp: conn_ok_def conn_chan_def)

section \<open>Callbacks\<close>

lemma keeps_run_opt: "usr_ok usr \<Longrightarrow> c \<in> C \<Longrightarrow> keeps (conn_inv C K Oth) (run_opt usr cb c)"
  by (cases cb) (auto simp: run_opt_def usr_ok_def intro: keeps_ret simp del: retE_simp)

lemma keeps_run_close: "c \<in> C \<Longrightarrow> keeps (conn_inv C K Oth) (run_close k cb c)"
  by (cases cb) (auto simp: run_close_def intro: keeps_ret keeps_queue simp del: retE_simp split: close_cb.split)

lemma keeps_user_cb:
  "usr_ok usr \<Longrightarrow> c \<in> C \<Longrightarrow> keeps (conn_inv C K Oth) (with_conn c (\<lambda>tc. run_opt usr (sel tc) c))"
  by (rule keepsI_good, rule good_with_conn) (auto intro: good_keeps keeps_run_opt)

section \<open>Handlers\<close>

lemma good_recv_step:
  assumes k: "kernel_ok k" and inv: "conn_inv C K Oth w" and c: "c \<in> C" and tc: "conns w c = Some tc"
    and st: "mState tc \<noteq> DisConnected"
  shows "good (conn_inv C K Oth) (recv_step k c) w"
  unfolding recv_step_def
proof (rule good_with_conn [OF inv c])
  fix tc' assume tc': "conns w c = Some tc'" and ok: "conn_ok w c tc'"
  with tc st have "mState tc' \<noteq> DisConnected" by simp
  then show "good (conn_inv C K Oth) (with_socket tc' (\<lambda>s.
     thenE (on_recv c (readFromSocket (k_read k (sFd s)) (getSocketError k s)))
       (upd_conn c (\<lambda>t. t\<lparr>arrived := arrived t @ snd (k_read k (sFd s) (writablebytes (mRecvBuffer tc')))\<rparr>)))) w"
    using k inv c
    by (intro good_with_socket [OF ok] good_then good_on_recv keeps_readFromSocket
        good_keeps [OF keeps_upd_conn]) (auto simp: kernel_ok_def)
qed

lemma good_send_step:
  assumes k: "kernel_ok k" and inv: "conn_inv C K Oth w" and c: "c \<in> C" and tc: "conns w c = Some tc"
    and st: "mState tc \<noteq> DisConnected"
  shows "good (conn_inv C K Oth) (send_step k c) w"
  unfolding send_step_def
proof (rule good_with_conn [OF inv c])
  fix tc' assume tc': "conns w c = Some tc'" and ok: "conn_ok w c tc'"
  with tc st have "mState tc' \<noteq> DisConnected" by simp
  then show "good (conn_inv C K Oth) (with_socket tc' (\<lambda>s.
     thenE (on_send c (writeToSocket (k_write k (sFd s)) (getSocketError k s)))
       (upd_conn c (\<lambda>t. t\<lparr>wire := wire t @ take (nat (k_write k (sFd s) (content (mSendBuffer tc')))) (content (mSendBuffer tc'))\<rparr>)))) w"
    using k inv c
    by (intro good_with_socket [OF ok] good_then good_on_send keeps_writeToSocket
        good_keeps [OF keeps_upd_conn]) (auto simp: kernel_ok_def)
qed


text \<open>\<open>conn_inv\<close> with one more connection that has its channel.\<close>

lemma conn_inv_insert:
  "conn_inv C K Oth w \<Longrightarrow> conns w c = Some tc \<Longrightarrow> mpChannel tc \<noteq> None \<Longrightarrow> conn_inv (insert c C) (insert c K) Oth w"
  by (auto simp: conn_inv_def)

lemma conn_inv_mono: "conn_inv C K Oth w \<Longrightarrow> C' \<subseteq> C \<Longrightarrow> K' \<subseteq> K \<Longrightarrow> conn_inv C' K' Oth w"
  by (auto simp: conn_inv_def)

lemma good_mono: "good P m w \<Longrightarrow> (\<And>s. P s \<Longrightarrow> Q s) \<Longrightarrow> good Q m w"
  by (auto simp: good_def split: prod.splits sum.splits)

lemma good_channel:
  assumes "conn_inv C K Oth w" and "conns w c = Some tc" and "mpChannel tc \<noteq> None"
    and "good (conn_inv (insert c C) (insert c K) Oth) m w"
  shows "good (conn_inv C K Oth) m w"
  using assms(4) by (rule good_mono) (auto elim: conn_inv_mono)

lemma keeps_handleError:
  assumes "c \<in> K"
  shows "keeps (conn_inv C K Oth) (handleError c)"
  unfolding handleError_def
proof (rule keepsI_good, goal_cases)
  case inv: (1 w)
  from conn_invD(3) [OF inv assms] obtain tc where tc: "conns w c = Some tc" "mpChannel tc \<noteq> None" by blast
  have ins: "conn_inv (insert c C) K Oth w" using inv tc by (auto simp: conn_inv_def)
  show ?case
    using tc by (intro good_with_conn [OF ins] good_with_socket good_keeps [OF keeps_in_thread] inv) auto
qed

lemma keeps_handleClose:
  assumes u: "usr_ok usr" and c: "c \<in> C" "c \<in> K"
  shows "keeps (conn_inv C K Oth) (handleClose k usr c)"
  unfolding handleClose_def
proof (rule keepsI_good, rule good_with_conn [OF _ c(1)], assumption, goal_cases)
  case (1 w tc)
  note inv = 1(1) and ok = 1(3)
  have chn: "mpChannel tc \<noteq> None" using conn_invD(3) [OF inv c(2)] 1(2) by auto
  show ?case
  proof (rule good_with_socket [OF ok], goal_cases)
    case (2 s)
    have "keeps (conn_inv C K Oth) (block
     [assertInLoopThread,
      assertTrue (mState tc = Connected \<or> mState tc = HalfClosed) ''[TcpConnection] handleClose: destroy a bad connection!'',
      upd_conn c (\<lambda>tc. tc\<lparr>mState := DisConnected\<rparr>),
      run_close k (mConnCloseCb tc) c,
      with_conn c (\<lambda>tc. run_opt usr (mConnectionCb tc) c)])"
      using c u by (intro keeps_block)
        (auto intro: keeps_in_thread keeps_assert keeps_upd_conn keeps_run_close keeps_user_cb conn_ok_dis)
    from good_keeps [OF this inv] show ?case .
  qed (use chn in simp)
qed

lemma keeps_handleRead:
  assumes u: "usr_ok usr" and k: "kernel_ok k" and c: "c \<in> C" "c \<in> K"
  shows "keeps (conn_inv C K Oth) (handleRead k usr c)"
  unfolding handleRead_def
proof (rule keepsI_good, rule good_with_conn [OF _ c(1)], assumption, goal_cases)
  case (1 w tc)
  note inv = 1(1) and tc = 1(2)
  show ?case unfolding block.simps
  proof (intro good_in_thread_then inv good_assert_then good_then good_catch_net, goal_cases)
    case 1
    then show ?case by (intro good_recv_step [OF k inv c(1) tc]) (elim disjE, simp_all)
  next
    case (2 w')
    then show ?case by (intro good_keeps [OF keeps_user_cb [OF u c(1)]])
  next
    case (4 n w')
    then show ?case by (auto intro: good_keeps keeps_handleClose [OF u c] keeps_handleError [OF c(2)])
  qed (rule good_ret, assumption)+
qed

lemma keeps_disableWrite:
  assumes "c \<in> C" "c \<in> K"
  shows "keeps (conn_inv C K Oth) (with_conn c (\<lambda>tc. chan_of_conn tc (disableWrite k)))"
proof (rule keepsI_good, rule good_with_conn [OF _ assms(1)], assumption, goal_cases)
  case (1 w tc)
  have "mpChannel tc \<noteq> None" using conn_invD(3) [OF 1(1) assms(2)] 1(2) by auto
  then show ?case using 1 by (intro good_chan_of_conn [OF 1(3)] good_mask_ops)
qed

lemma keeps_handleWrite:
  assumes u: "usr_ok usr" and k: "kernel_ok k" and c: "c \<in> C"
  shows "keeps (conn_inv C K Oth) (handleWrite k usr c)"
  unfolding handleWrite_def
proof (rule keepsI_good, rule good_with_conn [OF _ c], assumption, goal_cases)
  case (1 w tc)
  note inv = 1(1) and tc = 1(2) and ok = 1(3)
  show ?case unfolding block.simps
  proof (intro good_in_thread_then inv good_assert_then, goal_cases)
    case 1
    then have st: "mState tc \<noteq> DisConnected" and chn: "mpChannel tc \<noteq> None"
      using conn_okD(3) [OF ok] by auto
    let ?C = "insert c C" and ?K = "insert c K"
    have inv': "conn_inv ?C ?K Oth w" by (rule conn_inv_insert [OF inv tc chn])
    have cs: "c \<in> ?C" "c \<in> ?K" by simp_all
    show ?case
    proof (rule good_channel [OF inv tc chn], intro good_then good_when inv', goal_cases)
      case 1
      show ?case by (rule good_send_step [OF k inv' cs(1) tc st])
    next
      case (2 w')
      have "keeps (conn_inv ?C ?K Oth) (block
          [run_opt usr (mWriteCompleteCb tc) c, with_conn c (\<lambda>tc. chan_of_conn tc (disableWrite k))])" for tc
        by (intro keeps_block) (auto intro: keeps_run_opt [OF u] keeps_disableWrite)
      note g = good_keeps [OF this 2, unfolded block.simps]
      show ?case using 2 g by (intro good_with_conn [OF 2 cs(1)] good_when)
    qed (rule good_ret, assumption)+
  qed
qed

section \<open>Sending, establishing, shutting down\<close>

lemma keeps_start_writing:
  assumes "c \<in> C" "c \<in> K"
  shows "keeps (conn_inv C K Oth) (with_conn c (\<lambda>tc. chan_of_conn tc (\<lambda>a. with_channel a (\<lambda>ch.
           whenE (\<not> isWriting ch) (enableWrite k a)))))"
proof (rule keepsI_good, rule good_with_conn [OF _ assms(1)], assumption, goal_cases)
  case (1 w tc)
  have "mpChannel tc \<noteq> None" using conn_invD(3) [OF 1(1) assms(2)] 1(2) by auto
  then show ?case
  proof (rule good_chan_of_conn [OF 1(3)], goal_cases)
    case (1 a ch)
    have "good (conn_inv C K Oth) (whenE (\<not> isWriting ch) (enableWrite k a)) w"
      using \<open>conn_inv C K Oth w\<close> 1 by (intro good_when good_mask_ops)
    with 1 show ?case by (simp add: with_channel_def good_def)
  qed
qed

lemma keeps_sendInLoop:
  assumes u: "usr_ok usr" and c: "c \<in> C"
  shows "keeps (conn_inv C K Oth) (sendInLoop k usr c data)"
  unfolding sendInLoop_def
proof (rule keepsI_good, rule good_with_conn [OF _ c], assumption, goal_cases)
  case (1 w tc)
  note inv = 1(1) and tc = 1(2) and ok = 1(3)
  show ?case
  proof (rule good_in_thread_then, rule inv, cases "isConnected tc")
    case False
    with inv show "good (conn_inv C K Oth) (if \<not> isConnected tc then retE () else block
        [on_send c (appendToBuffer data),
         with_conn c (\<lambda>tc. whenE (TcpBuffer_size (mSendBuffer tc) > TCP_HIGH_WATER_MARK)
           (run_opt usr (mHighWaterMarkCb tc) c)),
         with_conn c (\<lambda>tc. chan_of_conn tc (\<lambda>a. with_channel a (\<lambda>ch.
           whenE (\<not> isWriting ch) (enableWrite k a))))]) w"
      by (simp add: good_def)
  next
    case True
    then have chn: "mpChannel tc \<noteq> None" using conn_okD(3) [OF ok] by (auto simp: isConnected_def)
    let ?C = "insert c C" and ?K = "insert c K"
    have inv': "conn_inv ?C ?K Oth w" by (rule conn_inv_insert [OF inv tc chn])
    have cs: "c \<in> ?C" "c \<in> ?K" by simp_all
    have hw: "keeps (conn_inv ?C ?K Oth) (with_conn c (\<lambda>tc. whenE (TcpBuffer_size (mSendBuffer tc) > TCP_HIGH_WATER_MARK)
           (run_opt usr (mHighWaterMarkCb tc) c)))"
      by (rule keepsI_good, rule good_with_conn [OF _ cs(1)], assumption)
        (auto intro: good_keeps keeps_when keeps_run_opt [OF u])
    have rest: "keeps (conn_inv ?C ?K Oth) (block
        [with_conn c (\<lambda>tc. whenE (TcpBuffer_size (mSendBuffer tc) > TCP_HIGH_WATER_MARK)
           (run_opt usr (mHighWaterMarkCb tc) c)),
         with_conn c (\<lambda>tc. chan_of_conn tc (\<lambda>a. with_channel a (\<lambda>ch.
           whenE (\<not> isWriting ch) (enableWrite k a))))])"
      by (intro keeps_block) (auto intro: hw keeps_start_writing)
    from good_then [OF good_on_send [OF inv' cs(1) keeps_appendToBuffer] good_keeps [OF rest]] True
    show "good (conn_inv C K Oth) (if \<not> isConnected tc then retE () else block
        [on_send c (appendToBuffer data),
         with_conn c (\<lambda>tc. whenE (TcpBuffer_size (mSendBuffer tc) > TCP_HIGH_WATER_MARK)
           (run_opt usr (mHighWaterMarkCb tc) c)),
         with_conn c (\<lambda>tc. chan_of_conn tc (\<lambda>a. with_channel a (\<lambda>ch.
           whenE (\<not> isWriting ch) (enableWrite k a))))]) w"
      by (intro good_channel [OF inv tc chn]) simp
  qed
qed

lemma keeps_send: "usr_ok usr \<Longrightarrow> c \<in> C \<Longrightarrow> keeps (conn_inv C K Oth) (send k usr c data)"
  unfolding send_def by (intro keeps_with keeps_if keeps_sendInLoop keeps_queue) auto

lemma keeps_establishConnect:
  assumes u: "usr_ok usr" and c: "c \<in> C" "c \<in> K"
  shows "keeps (conn_inv C K Oth) (establishConnect k usr c)"
  unfolding establishConnect_def
proof (rule keepsI_good, rule good_with_conn [OF _ c(1)], assumption, goal_cases)
  case (1 w tc)
  note inv = 1(1) and ok = 1(3)
  have chn: "mpChannel tc \<noteq> None" using conn_invD(3) [OF inv c(2)] 1(2) by auto
  show ?case unfolding block.simps
  proof (intro good_in_thread_then inv good_then, goal_cases)
    case 1
    show ?case using inv chn by (intro good_chan_of_conn [OF ok] good_mask_ops)
  next
    case (2 w')
    then show ?case
    proof -
      obtain td where td: "conns w' c = Some td" "mpChannel td \<noteq> None" using conn_invD(3) [OF 2 c(2)] by blast
      note okd = conn_wfD(3) [OF conn_invD(1) [OF 2] td(1)]
      show ?thesis using 2 td(1) conn_ok_state [OF okd td(2)] by (rule good_upd_conn) simp
    qed
  next
    case (3 w')
    then show ?case by (intro good_keeps [OF keeps_user_cb [OF u c(1)]])
  qed (rule good_ret, assumption)
qed

lemma keeps_shutdownConnection: "c \<in> C \<Longrightarrow> keeps (conn_inv C K Oth) (shutdownConnection k c)"
  unfolding shutdownConnection_def by (intro keeps_noexcept keeps_queue) simp

lemma keeps_shutdown_in_loop:
  assumes k: "kernel_ok k" and c: "c \<in> C"
  shows "keeps (conn_inv C K Oth) (shutdown_in_loop k c)"
  unfolding shutdown_in_loop_def
proof (rule keepsI_good, rule good_with_conn [OF _ c], assumption, goal_cases)
  case (1 w tc)
  note inv = 1(1) and tc = 1(2) and ok = 1(3)
  show ?case
  proof (rule good_catch_std, cases "mState tc = DisConnected")
    case True
    with inv show "good (conn_inv C K Oth) (if mState tc = DisConnected then retE ()
      else block
        [whenE (TcpBuffer_size (mSendBuffer tc) \<noteq> 0) (send_step k c),
         upd_conn c (\<lambda>tc. tc\<lparr>mState := HalfClosed\<rparr>),
         with_conn c (\<lambda>tc. chan_of_conn tc (disableWrite k)),
         with_conn c (\<lambda>tc. with_socket tc (\<lambda>s. upd_conn c (\<lambda>tc. tc\<lparr>finSent := True\<rparr>)))]) w"
      by (simp add: good_def)
  next
    case st: False
    then have chn: "mpChannel tc \<noteq> None" using conn_okD(3) [OF ok] by auto
    let ?C = "insert c C" and ?K = "insert c K"
    have inv': "conn_inv ?C ?K Oth w" by (rule conn_inv_insert [OF inv tc chn])
    have cs: "c \<in> ?C" "c \<in> ?K" by simp_all
    have "good (conn_inv ?C ?K Oth) (block
        [whenE (TcpBuffer_size (mSendBuffer tc) \<noteq> 0) (send_step k c),
         upd_conn c (\<lambda>tc. tc\<lparr>mState := HalfClosed\<rparr>),
         with_conn c (\<lambda>tc. chan_of_conn tc (disableWrite k)),
         with_conn c (\<lambda>tc. with_socket tc (\<lambda>s. upd_conn c (\<lambda>tc. tc\<lparr>finSent := True\<rparr>)))]) w"
      unfolding block.simps
    proof (intro good_then good_when inv', goal_cases)
      case 1
      show ?case by (rule good_send_step [OF k inv' cs(1) tc st])
    next
      case (2 w')
      obtain td where td: "conns w' c = Some td" "mpChannel td \<noteq> None" using conn_invD(3) [OF 2 cs(2)] by blast
      note okd = conn_wfD(3) [OF conn_invD(1) [OF 2] td(1)]
      show ?case using 2 td(1) conn_ok_state [OF okd td(2)] by (rule good_upd_conn) simp
    next
      case (3 w')
      then show ?case by (intro good_keeps [OF keeps_disableWrite]) auto
    next
      case (4 w')
      note i4 = 4(3)
      show ?case
      proof (rule good_with_conn [OF i4 cs(1)], rule good_with_socket, assumption, goal_cases)
        case (1 td)
        then show ?case using conn_invD(3) [OF i4 cs(2)] by auto
      next
        case (2 td s)
        show ?case by (rule good_keeps [OF keeps_upd_conn i4]) (use cs in auto)
      qed
    qed (rule good_ret, assumption)
    from good_channel [OF inv tc chn this] st
    show "good (conn_inv C K Oth) (if mState tc = DisConnected then retE ()
      else block
        [whenE (TcpBuffer_size (mSendBuffer tc) \<noteq> 0) (send_step k c),
         upd_conn c (\<lambda>tc. tc\<lparr>mState := HalfClosed\<rparr>),
         with_conn c (\<lambda>tc. chan_of_conn tc (disableWrite k)),
         with_conn c (\<lambda>tc. with_socket tc (\<lambda>s. upd_conn c (\<lambda>tc. tc\<lparr>finSent := True\<rparr>)))]) w" by simp
  qed (rule good_ret)
qed

end
