(* ===== verification/ConnLife.thy ===== *)
theory ConnLife
  imports ConnOps
begin

text \<open>
  The life of a connection: it is made with its channel and socket, loses both together in
  \<open>destroyConnection\<close>, the channel first, and its descriptor is closed once.
\<close>

section \<open>Giving up channel and socket\<close>

definition released :: "addr \<Rightarrow> 'u chan_cb channel \<Rightarrow> nat \<Rightarrow> 'u tcp_connection \<Rightarrow> ('u, 'z) conn_loop_scheme \<Rightarrow> ('u, 'z) conn_loop_scheme" where
  "released a ch c tc w = (unregister a ch w)\<lparr>openFds := removeAll (mFd ch) (openFds w),
     conns := (conns w)(c := Some (tc\<lparr>mpChannel := None, mpSocket := None\<rparr>))\<rparr>"

lemma unregister_fields [simp]:
  "conns (unregister a ch w) = conns w" "nextConn (unregister a ch w) = nextConn w"
  "openFds (unregister a ch w) = openFds w" "mPendingTasks (unregister a ch w) = mPendingTasks w"
  "channels (unregister a ch w) = (channels w)(a := None)"
  by (simp_all add: unregister_def)

lemma conn_ok_openFds [simp]: "conn_ok (w\<lparr>openFds := f\<rparr>) c tc = conn_ok w c tc"
  by (simp add: conn_ok_def)

lemma conn_inv_released:
  assumes inv: "conn_inv C K Oth w" and c: "c \<notin> K" and tc: "conns w c = Some tc" and st: "mState tc = DisConnected"
    and a: "mpChannel tc = Some a" "channels w a = Some ch"
  shows "conn_inv C K Oth (released a ch c tc w)"
proof -
  note wf = conn_invD(1) [OF inv]
  have "conn_wf (released a ch c tc w)"
  proof (rule conn_wfI, goal_cases)
    case 1
    from net_wf_unregister' [OF conn_wfD(1) [OF wf] a(2)] show ?case by (simp add: released_def)
  next
    case 2
    from fds_open_close [OF conn_wfD(1,2) [OF wf] a(2)] show ?case by (simp add: released_def fds_open_def)
  next
    case (3 d td)
    show ?case
    proof (cases "d = c")
      case True
      with 3 st conn_okD(1,2) [OF conn_wfD(3) [OF wf tc]] show ?thesis
        by (auto simp: released_def conn_ok_def)
    next
      case False
      with 3 have td: "conns w d = Some td" by (simp add: released_def)
      note ok = conn_wfD(3) [OF wf td]
      have "mpChannel td \<noteq> Some a" using conn_chan_inj [OF wf td tc] a(1) False by auto
      with ok show ?thesis by (auto simp: released_def conn_ok_def)
    qed
  next
    case (4 b chn cb d)
    then have b: "b \<noteq> a" "channels w b = Some chn" by (auto simp: released_def split: if_splits)
    from conn_wfD(4) [OF wf b(2) 4(2,3)] obtain td where td: "conns w d = Some td" "mpChannel td = Some b" by blast
    with b a tc have "d \<noteq> c" by auto
    with td show ?case by (simp add: released_def)
  next
    case (5 d)
    with conn_wfD(5) [OF wf, of d] tc show ?case by (auto simp: released_def)
  next
    case (6 t d)
    with conn_wfD(6) [OF wf, of t d] tc show ?case by (auto simp: released_def)
  qed
  moreover have "\<not> foreign ch"
    using conn_okD(5) [OF conn_wfD(3) [OF wf tc] a(1)] a(2) by (auto dest: conn_chan_foreign)
  then have "others (released a ch c tc w) = others w"
    using a(2) by (auto simp: others_def released_def fun_eq_iff)
  ultimately show ?thesis using inv c tc by (auto simp: conn_inv_def released_def)
qed

lemma release_channel_ok:
  assumes inv: "conn_inv C K Oth w" and tc: "conns w c = Some tc" and a: "mpChannel tc = Some a" "channels w a = Some ch"
    and d: "destroy_ok k u ch w"
  shows "release_channel k u c w = (Inr (), (unregister a ch w)\<lparr>conns := (conns w)(c := Some (tc\<lparr>mpChannel := None\<rparr>))\<rparr>)"
  using Channel_destroy_ok [OF conn_wfD(1) [OF conn_invD(1) [OF inv]] a(2) d] tc a
  by (simp add: release_channel_def with_conn_def exec_simps upd_conn_def)

lemma release_channel_fails:
  assumes inv: "conn_inv C K Oth w" and tc: "conns w c = Some tc" and a: "mpChannel tc = Some a" "channels w a = Some ch"
    and d: "\<not> destroy_ok k u ch w"
  shows "\<exists>m. release_channel k u c w = (Inl (Terminate m), w)"
  using Channel_destroy_fails [OF conn_wfD(1) [OF conn_invD(1) [OF inv]] a(2) d] tc a
  by (auto simp: release_channel_def with_conn_def exec_simps)

text \<open>The connection \<open>c\<close> is in state \<open>DisConnected\<close>.\<close>

definition conn_dis :: "nat set \<Rightarrow> nat set \<Rightarrow> (addr \<Rightarrow> 'u chan_cb channel option) \<Rightarrow> nat \<Rightarrow> ('u, 'z) conn_loop_scheme \<Rightarrow> bool" where
  "conn_dis C K Oth c w \<longleftrightarrow> conn_inv C K Oth w \<and> c \<notin> K \<and> (\<exists>tc. conns w c = Some tc \<and> mState tc = DisConnected)"

definition conn_gone :: "nat set \<Rightarrow> nat set \<Rightarrow> (addr \<Rightarrow> 'u chan_cb channel option) \<Rightarrow> nat \<Rightarrow> ('u, 'z) conn_loop_scheme \<Rightarrow> bool" where
  "conn_gone C K Oth c w \<longleftrightarrow> conn_inv C K Oth w \<and> c \<notin> K
     \<and> (\<exists>tc. conns w c = Some tc \<and> mState tc = DisConnected \<and> mpChannel tc = None \<and> mpSocket tc = None)"

lemma conn_gone_dis: "conn_gone C K Oth c w \<Longrightarrow> conn_dis C K Oth c w"
  by (auto simp: conn_gone_def conn_dis_def)

lemma release_pair:
  assumes dis: "conn_dis C K Oth c w"
  shows "(\<exists>w'. thenE (release_channel k u c) (release_socket c) w = (Inr (), w') \<and> conn_gone C K Oth c w')
       \<or> (\<exists>m. thenE (release_channel k u c) (release_socket c) w = (Inl (Terminate m), w))"
proof -
  from dis obtain tc where inv: "conn_inv C K Oth w" "c \<notin> K" and tc: "conns w c = Some tc" "mState tc = DisConnected"
    by (auto simp: conn_dis_def)
  note ok = conn_wfD(3) [OF conn_invD(1) [OF inv(1)] tc(1)]
  show ?thesis
  proof (cases "mpChannel tc")
    case None
    with conn_okD(4) [OF ok] have "mpSocket tc = None" by simp
    with None inv tc show ?thesis
      by (simp add: release_channel_def release_socket_def with_conn_def exec_simps conn_gone_def)
  next
    case (Some a)
    from conn_okD(5) [OF ok Some] obtain ch s where
      ch: "channels w a = Some ch" and s: "mpSocket tc = Some s" "sFd s = mFd ch" by blast
    show ?thesis
    proof (cases "destroy_ok k u ch w")
      case True
      let ?w = "(unregister a ch w)\<lparr>conns := (conns w)(c := Some (tc\<lparr>mpChannel := None\<rparr>))\<rparr>"
      have "release_socket c ?w = (Inr (), released a ch c tc w)"
        using s by (simp add: release_socket_def with_conn_def exec_simps upd_conn_def Socket_close_def close_fd_def released_def)
      with release_channel_ok [OF inv(1) tc(1) Some ch True]
      have "thenE (release_channel k u c) (release_socket c) w = (Inr (), released a ch c tc w)"
        by (simp add: thenE_def bindE_def)
      moreover have "conn_gone C K Oth c (released a ch c tc w)"
        using conn_inv_released [OF inv tc Some ch] inv(2) tc by (simp add: conn_gone_def released_def)
      ultimately show ?thesis by blast
    next
      case False
      from release_channel_fails [OF inv(1) tc(1) Some ch False] show ?thesis
        by (auto simp: thenE_def bindE_def)
    qed
  qed
qed

lemma keeps_release_pair: "keeps (conn_dis C K Oth c) (thenE (release_channel k u c) (release_socket c))"
proof (rule keepsI_good, goal_cases)
  case (1 w)
  from release_pair [OF 1, of k u] show ?case
  proof (elim disjE exE conjE)
    fix w' assume "thenE (release_channel k u c) (release_socket c) w = (Inr (), w')" and g: "conn_gone C K Oth c w'"
    then show ?thesis using conn_gone_dis [OF g] by (simp add: good_def)
  next
    fix m assume "thenE (release_channel k u c) (release_socket c) w = (Inl (Terminate m), w)"
    then show ?thesis by (simp add: good_def)
  qed
qed

lemma conn_dis_mask: "conn_dis C K Oth c w \<Longrightarrow> mask_step a w w' \<Longrightarrow> net_wf w' \<Longrightarrow> conn_dis C K Oth c w'"
  using conn_inv_mask by (fastforce simp: conn_dis_def mask_step_def)

lemma good_dis_disableAll:
  assumes "conn_dis C K Oth c w" and "channels w a = Some ch"
  shows "good (conn_dis C K Oth c) (disableAll k a) w"
proof -
  have inv: "conn_inv C K Oth w" using assms(1) by (simp add: conn_dis_def)
  have n: "net_wf w" using inv by (auto simp: conn_inv_def conn_wf_def)
  have "conn_dis C K Oth c (snd (disableAll k a w))"
    by (rule conn_dis_mask [OF assms(1) mask_steps(5) [OF n] preservesD [OF preserves_disableAll n]])
  with good_mask_ops(5) [OF inv assms(2), of k] show ?thesis
    by (auto simp: good_def split: prod.splits sum.splits)
qed

lemma keeps_destroyConnection_dis: "keeps (conn_dis C K Oth c) (destroyConnection k u c)"
proof (rule keepsI_good, goal_cases)
  case (1 w)
  note dis = 1
  then obtain tc where inv: "conn_inv C K Oth w" and tc: "conns w c = Some tc" by (auto simp: conn_dis_def)
  have pair: "good (conn_dis C K Oth c) (thenE (release_channel k u c) (thenE (release_socket c) (retE ()))) w'"
    if "conn_dis C K Oth c w'" for w'
  proof -
    have "keeps (conn_dis C K Oth c) (thenE (thenE (release_channel k u c) (release_socket c)) (retE ()))"
      by (intro keeps_then keeps_release_pair keeps_ret)
    from good_keeps [OF this that] show ?thesis by (simp only: thenE_assoc)
  qed
  have body: "good (conn_dis C K Oth c) (block
        [(case mpChannel tc of
            None \<Rightarrow> retE ()
          | Some a \<Rightarrow> block [disableAll k a, release_channel k u c]),
         release_socket c]) w"
  proof (cases "mpChannel tc")
    case None
    with tc have "release_channel k u c w = (Inr (), w)"
      by (simp add: release_channel_def with_conn_def)
    with pair [OF dis] None show ?thesis by (simp add: good_def thenE_def bindE_def)
  next
    case (Some a)
    from conn_okD(5) [OF conn_wfD(3) [OF conn_invD(1) [OF inv] tc] Some] obtain ch where "channels w a = Some ch" by blast
    from good_then [OF good_dis_disableAll [OF dis this] pair] Some show ?thesis
      by (simp add: thenE_assoc thenE_ret_left)
  qed
  have "good (conn_dis C K Oth c) (block
     [assertInLoopThread,
      assertTrue (mState tc = DisConnected) ''[TcpConnection] destroyConnection: must set setState as DisConnected!'',
      catch_std (block
        [(case mpChannel tc of
            None \<Rightarrow> retE ()
          | Some a \<Rightarrow> block [disableAll k a, release_channel k u c]),
         release_socket c])
        (\<lambda>e. retE ())]) w"
    unfolding block.simps(2) [of assertInLoopThread] block.simps(2) [of "assertTrue b m" for b m]
    by (rule good_in_thread_then, rule dis, rule good_assert_then, rule dis,
        rule good_block_last, rule good_catch_std, rule body, rule good_ret)
  with tc show ?case
    unfolding destroyConnection_def by (intro good_noexcept) (simp add: with_conn_def good_def)
qed

lemma keeps_destroyConnection:
  assumes "c \<in> C" and "c \<notin> K"
  shows "keeps (conn_inv C K Oth) (destroyConnection k u c)"
proof (rule keepsI_good, goal_cases)
  case (1 w)
  from conn_invD(2) [OF 1 assms(1)] obtain tc where tc: "conns w c = Some tc" by blast
  show ?case
  proof (cases "mState tc = DisConnected")
    case True
    with 1 tc assms have "conn_dis C K Oth c w" by (simp add: conn_dis_def)
    from good_keeps [OF keeps_destroyConnection_dis this] show ?thesis
      by (rule good_mono) (simp add: conn_dis_def)
  next
    case False
    with tc show ?thesis
      by (cases "isInLoopThread w") (auto simp: destroyConnection_def with_conn_def exec_simps noexcept_def
          good_def assertInLoopThread_def)
  qed
qed

section \<open>The destructor\<close>

lemma conn_inv_erase:
  assumes "conn_gone C K Oth c w" and free: "\<And>t. t \<in> set (mPendingTasks w) \<Longrightarrow> about t \<noteq> Some c"
  shows "conn_inv (C - {c}) K Oth (w\<lparr>conns := (conns w)(c := None)\<rparr>)"
proof -
  from assms obtain tc where inv: "conn_inv C K Oth w" "c \<notin> K" and tc: "conns w c = Some tc" "mpChannel tc = None"
    by (auto simp: conn_gone_def)
  note wf = conn_invD(1) [OF inv(1)]
  have "conn_wf (w\<lparr>conns := (conns w)(c := None)\<rparr>)"
  proof (rule conn_wfI, goal_cases)
    case (3 d td)
    with conn_wfD(3) [OF wf] show ?case by (simp split: if_splits)
  next
    case (4 a ch cb d)
    with conn_wfD(4) [OF wf, of a ch cb d] tc show ?case by auto
  next
    case (5 d)
    with conn_wfD(5) [OF wf, of d] show ?case by simp
  next
    case (6 t d)
    with conn_wfD(6) [OF wf, of t d] free [of t] show ?case by auto
  qed (use conn_wfD(1,2) [OF wf] in simp_all)
  with inv show ?thesis by (auto simp: conn_inv_def)
qed

lemma good_frame:
  "good P m s \<Longrightarrow> moves (\<lambda>s t. f t = f s) m \<Longrightarrow> good (\<lambda>t. P t \<and> f t = f s) m s"
  by (cases "m s") (auto simp: good_def dest: movesD split: sum.splits)

lemma good_release_erase:
  assumes "conn_dis C K Oth c w" and free: "\<And>t. t \<in> set (mPendingTasks w) \<Longrightarrow> about t \<noteq> Some c"
  shows "good (conn_inv (C - {c}) K Oth) (thenE (release_channel k u c) (thenE (release_socket c)
     (thenE (modifyE (\<lambda>w. w\<lparr>conns := (conns w)(c := None)\<rparr>)) (retE ())))) w"
  unfolding thenE_assoc [of "release_channel k u c", symmetric]
  using release_pair [OF assms(1), of k u]
proof (elim disjE exE conjE)
  let ?m = "thenE (release_channel k u c) (release_socket c)"
  fix w' assume r: "?m w = (Inr (), w')" and g: "conn_gone C K Oth c w'"
  have "moves still ?m" by (intro moves_then still.release still.pre)
  from movesD [OF this r] have same: "mPendingTasks w' = mPendingTasks w" by (simp add: still_def)
  have "thenE ?m n w = n w'" for n :: "('a, 'b, unit) conn_exec"
    by (rule thenE_ok [of ?m w, OF r])
  then show "good (conn_inv (C - {c}) K Oth) (thenE ?m (thenE (modifyE (\<lambda>w. w\<lparr>conns := (conns w)(c := None)\<rparr>)) (retE ()))) w"
    using conn_inv_erase [OF g] free unfolding same by (simp add: good_def) (simp add: thenE_def bindE_def)
next
  let ?m = "thenE (release_channel k u c) (release_socket c)"
  fix m assume r: "?m w = (Inl (Terminate m), w)"
  have "thenE ?m n w = (Inl (Terminate m), w)" for n :: "('a, 'b, unit) conn_exec"
    by (rule thenE_fails [of ?m w, OF r])
  then show "good (conn_inv (C - {c}) K Oth) (thenE ?m (thenE (modifyE (\<lambda>w. w\<lparr>conns := (conns w)(c := None)\<rparr>)) (retE ()))) w"
    by (simp add: good_def)
qed

text \<open>The body of the destructor: a connection that is still open is given up first.\<close>

definition close_first :: "kernel \<Rightarrow> bool \<Rightarrow> nat \<Rightarrow> 'u tcp_connection \<Rightarrow> ('u, 'z, unit) conn_exec" where
  "close_first k u c tc = whenE (mState tc = Connected \<or> mState tc = HalfClosed) (block
     [upd_conn c (\<lambda>tc. tc\<lparr>mState := DisConnected\<rparr>), destroyConnection k u c])"

lemma good_close_first:
  assumes inv: "conn_inv C K Oth w" and c: "conns w c = Some tc" "c \<notin> K"
  shows "good (conn_dis C K Oth c) (close_first k u c tc) w"
proof (cases "mState tc = DisConnected")
  case True
  with inv c show ?thesis by (simp add: good_def conn_dis_def close_first_def)
next
  case False
  then have cond: "mState tc = Connected \<or> mState tc = HalfClosed" by (cases "mState tc") auto
  have ok: "conn_ok w c tc" by (rule conn_wfD(3) [OF conn_invD(1) [OF inv] c(1)])
  have up: "good (conn_dis C K Oth c) (upd_conn c (\<lambda>tc. tc\<lparr>mState := DisConnected\<rparr>)) w"
    using conn_inv_upd [OF inv c(1) conn_ok_dis [OF ok]] c by (simp add: good_def upd_conn_def conn_dis_def)
  have "good (conn_dis C K Oth c) (block [upd_conn c (\<lambda>tc. tc\<lparr>mState := DisConnected\<rparr>), destroyConnection k u c]) w"
    unfolding block.simps
    by (rule good_then [OF up], rule good_then [OF good_keeps [OF keeps_destroyConnection_dis]], assumption)
      (rule good_ret)
  with cond show ?thesis by (simp add: close_first_def)
qed

lemma delete_body:
  "conns w c = Some tc \<Longrightarrow> TcpConnection_delete k u c w = noexcept (thenE (close_first k u c tc)
     (thenE (release_channel k u c) (thenE (release_socket c)
       (thenE (modifyE (\<lambda>w. w\<lparr>conns := (conns w)(c := None)\<rparr>)) (retE ()))))) w"
  by (simp add: TcpConnection_delete_def noexcept_def catchE_def with_conn_def close_first_def)

lemma good_delete:
  assumes inv: "conn_inv C K Oth w" and c: "conns w c = Some tc" "c \<notin> K"
    and free: "\<And>t. t \<in> set (mPendingTasks w) \<Longrightarrow> about t \<noteq> Some c"
  shows "good (conn_inv (C - {c}) K Oth) (TcpConnection_delete k u c) w"
proof -
  have "good (conn_inv (C - {c}) K Oth) (thenE (close_first k u c tc) (thenE (release_channel k u c)
     (thenE (release_socket c) (thenE (modifyE (\<lambda>w. w\<lparr>conns := (conns w)(c := None)\<rparr>)) (retE ()))))) w"
  proof (rule good_then_strong [OF good_frame [OF good_close_first [OF inv c], of mPendingTasks]], goal_cases)
    case 1
    have "moves still (close_first k u c tc)"
      unfolding close_first_def block.simps
      by (intro moves_when moves_then moves_ret still.pre still.upd still.destroyConnection)
    then show ?case by (rule moves_mono) (simp add: still_def)
  next
    case (2 w')
    then show ?case using free by (intro good_release_erase) auto
  next
    case (3 w')
    then show ?case by (auto simp: conn_dis_def elim: conn_inv_mono)
  qed
  then show ?thesis using delete_body [of w c tc k u, OF c(1)] good_noexcept by (fastforce simp: good_def)
qed

lemma delete_gone: "TcpConnection_delete k u c w = (Inr (), w') \<Longrightarrow> conns w' c = None"
  by (cases "conns w c")
    (auto simp: delete_body noexcept_def catchE_def thenE_def bindE_def TcpConnection_delete_def with_conn_def
      split: prod.splits sum.splits if_splits)

text \<open>The destructor touches no deleted object, even while a queued functor still names the connection.\<close>

lemma sound_delete:
  assumes inv: "conn_inv C K Oth w" and c: "conns w c = Some tc" "c \<notin> K"
  shows "sound (\<lambda>_. True) (TcpConnection_delete k u c) w"
proof -
  let ?rest = "thenE (release_channel k u c) (release_socket c)"
  have "sound (\<lambda>_. True) (thenE (close_first k u c tc) (thenE ?rest
     (thenE (modifyE (\<lambda>w. w\<lparr>conns := (conns w)(c := None)\<rparr>)) (retE ())))) w"
  proof (rule sound_then [OF good_sound [OF good_close_first [OF inv c]]])
    fix w' :: "('a, 'b) conn_loop_scheme" assume "conn_dis C K Oth c w'"
    then show "sound (\<lambda>_. True) (thenE ?rest (thenE (modifyE (\<lambda>w. w\<lparr>conns := (conns w)(c := None)\<rparr>)) (retE ()))) w'"
      using release_pair [of C K Oth c w' k u]
      by (auto simp: sound_def thenE_ok thenE_fails)
  qed
  then show ?thesis unfolding thenE_assoc
    using delete_body [of w c tc k u, OF c(1)]
    by (auto simp: sound_def noexcept_def catchE_def split: prod.splits sum.splits if_splits)
qed

section \<open>The constructor\<close>

text \<open>A socket that was just made: open, and no channel uses its descriptor.\<close>

definition sock_fresh :: "socket \<Rightarrow> ('u, 'z) conn_loop_scheme \<Rightarrow> bool" where
  "sock_fresh s w \<longleftrightarrow> sFd s \<in> set (openFds w) \<and> (\<forall>a ch. channels w a = Some ch \<longrightarrow> mFd ch \<noteq> sFd s)"

definition conn_channel :: "socket \<Rightarrow> nat \<Rightarrow> 'u chan_cb channel" where
  "conn_channel s c = (Channel_init NoCallback (sFd s) Normal)\<lparr>mChannelInfo := conn_id s,
     mWriteCb := ConnWrite c, mReadCb := ConnRead c, mErrorCb := ConnError c, mCloseCb := ConnClose c\<rparr>"

definition created :: "socket \<Rightarrow> ('u, 'z) conn_loop_scheme \<Rightarrow> ('u, 'z) conn_loop_scheme" where
  "created s w = (register (nextAddr w) (conn_channel s (nextConn w)) w)\<lparr>nextConn := nextConn w + 1,
     conns := (conns w)(nextConn w := Some (conn_init s (nextAddr w)))\<rparr>"

lemma register_fields [simp]:
  "conns (register a ch w) = conns w" "nextConn (register a ch w) = nextConn w"
  "openFds (register a ch w) = openFds w" "mPendingTasks (register a ch w) = mPendingTasks w"
  "channels (register a ch w) = (channels w)(a := Some ch)"
  by (simp_all add: register_def)

lemma net_wf_nextConn [simp]: "net_wf (w\<lparr>nextConn := n\<rparr>) = net_wf w" "fds_open (w\<lparr>nextConn := n\<rparr>) = fds_open w"
  "conn_ok (w\<lparr>nextConn := n\<rparr>) c tc = conn_ok w c tc"
  by (simp_all add: net_wf_def fds_open_def conn_ok_def)

lemma conn_channel_fd [simp]: "mFd (conn_channel s c) = sFd s"
  by (simp add: conn_channel_def)

lemma createTcpConnection_ok:
  assumes inv: "conn_inv C K Oth w" and ok: "create_ok k (sFd s) w"
  shows "createTcpConnection k s w = (Inr (nextConn w), created s w)"
proof -
  let ?w = "w\<lparr>nextConn := nextConn w + 1\<rparr>"
  have wf: "net_wf ?w" using conn_wfD(1) [OF conn_invD(1) [OF inv]] by simp
  have ok': "create_ok k (sFd s) ?w" using ok by (simp add: create_ok_def isInLoopThread_def)
  show ?thesis
    using Channel_create_ok [OF wf ok', of NoCallback Normal]
    by (simp add: createTcpConnection_def Let_def exec_simps set_callbacks_def with_channel_def set_channel_def
        created_def conn_channel_def register_def Channel_init_def)
qed

lemma createTcpConnection_fails:
  assumes inv: "conn_inv C K Oth w" and ok: "\<not> create_ok k (sFd s) w"
  shows "\<exists>e w'. createTcpConnection k s w = (Inl e, w') \<and> (fatal e \<and> allowed e \<or> \<not> fatal e \<and>
     w' = w\<lparr>nextConn := nextConn w + 1, nextAddr := nextAddr w + 1, openFds := removeAll (sFd s) (openFds w)\<rparr>)"
proof -
  let ?w = "w\<lparr>nextConn := nextConn w + 1\<rparr>"
  have wf: "net_wf ?w" using conn_wfD(1) [OF conn_invD(1) [OF inv]] by simp
  have ok': "\<not> create_ok k (sFd s) ?w" using ok by (simp add: create_ok_def isInLoopThread_def)
  show ?thesis
    using Channel_create_fails [OF wf ok', of NoCallback Normal]
    by (auto simp: createTcpConnection_def Let_def exec_simps Socket_close_def close_fd_def)
qed

lemma conn_inv_created:
  assumes inv: "conn_inv C K Oth w" and k: "ctl_ok k" and ok: "create_ok k (sFd s) w" and fr: "sock_fresh s w"
  shows "conn_inv (insert (nextConn w) C) (insert (nextConn w) K) Oth (created s w)"
proof -
  let ?c = "nextConn w" and ?a = "nextAddr w" and ?ch = "conn_channel s (nextConn w) :: 'a chan_cb channel"
  note wf = conn_invD(1) [OF inv]
  have noc: "conns w ?c = None" using conn_wfD(5) [OF wf] by simp
  have noa: "channels w ?a = None" using net_wf_fresh [OF conn_wfD(1) [OF wf]] by simp
  have "conn_wf (created s w)"
  proof (rule conn_wfI, goal_cases)
    case 1
    from net_wf_register' [OF conn_wfD(1) [OF wf] le_refl, of ?ch] create_ok_free [OF k ok]
    show ?case by (simp add: created_def)
  next
    case 2
    from fds_open_register [OF conn_wfD(2) [OF wf], of ?ch ?a] fr
    show ?case by (simp add: created_def sock_fresh_def)
  next
    case (3 d td)
    show ?case
    proof (cases "d = ?c")
      case True
      with 3 show ?thesis
        by (auto simp: created_def conn_ok_def conn_init_def tb_inv_new conn_chan_def conn_channel_def)
    next
      case False
      with 3 have td: "conns w d = Some td" by (simp add: created_def)
      with conn_wfD(3) [OF wf td] noa show ?thesis by (auto simp: created_def conn_ok_def)
    qed
  next
    case (4 b ch cb d)
    show ?case
    proof (cases "b = ?a")
      case True
      with 4 have "d = ?c" by (auto simp: created_def chan_cbs_def conn_channel_def)
      with True show ?thesis by (simp add: created_def conn_init_def)
    next
      case False
      with 4 have "channels w b = Some ch" by (simp add: created_def)
      from conn_wfD(4) [OF wf this 4(2,3)] noc show ?thesis by (auto simp: created_def)
    qed
  next
    case (5 d)
    with conn_wfD(5) [OF wf, of d] show ?case by (simp add: created_def)
  next
    case (6 t d)
    with conn_wfD(6) [OF wf, of t d] show ?case by (simp add: created_def)
  qed
  moreover have "others (created s w) = others w"
  proof (rule ext)
    fix b
    have "\<not> foreign ?ch" by (simp add: foreign_def chan_cbs_def conn_channel_def)
    with noa show "others (created s w) b = others w b" by (auto simp: others_def created_def)
  qed
  ultimately show ?thesis using inv noc by (auto simp: conn_inv_def created_def conn_init_def)
qed

lemma conn_inv_close_fresh:
  assumes inv: "conn_inv C K Oth w" and fr: "sock_fresh s w"
  shows "conn_inv C K Oth (w\<lparr>openFds := removeAll (sFd s) (openFds w)\<rparr>)"
proof -
  note wf = conn_invD(1) [OF inv]
  have "conn_wf (w\<lparr>openFds := removeAll (sFd s) (openFds w)\<rparr>)"
  proof (rule conn_wfI, goal_cases)
    case 2
    show ?case using fds_openD [OF conn_wfD(2) [OF wf]] fr by (auto simp: fds_open_def sock_fresh_def)
  next
    case (3 c tc)
    with conn_wfD(3) [OF wf] show ?case by simp
  next
    case (4 a ch cb c)
    with conn_wfD(4) [OF wf] show ?case by simp
  next
    case (5 c)
    with conn_wfD(5) [OF wf] show ?case by simp
  next
    case (6 t c)
    with conn_wfD(6) [OF wf, of t c] show ?case by simp
  qed (use conn_wfD(1) [OF wf] in simp)
  with inv show ?thesis by (simp add: conn_inv_def)
qed

lemma conn_wf_counters:
  assumes "conn_wf w" and "nextConn w \<le> n" and "nextAddr w \<le> m"
  shows "conn_wf (w\<lparr>nextConn := n, nextAddr := m\<rparr>)"
proof (rule conn_wfI, goal_cases)
  case 1
  from net_wf_nextAddr [OF conn_wfD(1) [OF assms(1)] assms(3)] show ?case by (simp add: net_wf_def)
next
  case 2
  from conn_wfD(2) [OF assms(1)] show ?case by (simp add: fds_open_def)
next
  case (3 c tc)
  with conn_wfD(3) [OF assms(1)] show ?case by (simp add: conn_ok_def)
next
  case (4 a ch cb c)
  with conn_wfD(4) [OF assms(1)] show ?case by simp
next
  case (5 c)
  with conn_wfD(5) [OF assms(1), of c] assms(2) show ?case by simp
next
  case (6 t c)
  with conn_wfD(6) [OF assms(1), of t c] show ?case by simp
qed

lemma createTcpConnection_cases:
  assumes inv: "conn_inv C K Oth w" and k: "ctl_ok k" and fr: "sock_fresh s w"
  shows "(\<exists>w'. createTcpConnection k s w = (Inr (nextConn w), w')
            \<and> conn_inv (insert (nextConn w) C) (insert (nextConn w) K) Oth w' \<and> w' = created s w)
       \<or> (\<exists>e w'. createTcpConnection k s w = (Inl e, w') \<and> allowed e \<and> (fatal e \<or> conn_inv C K Oth w'))"
proof (cases "create_ok k (sFd s) w")
  case True
  with createTcpConnection_ok [OF inv True] conn_inv_created [OF inv k True fr] show ?thesis by blast
next
  case False
  from createTcpConnection_fails [OF inv False] obtain e w' where
    r: "createTcpConnection k s w = (Inl e, w')" and c: "fatal e \<and> allowed e \<or> \<not> fatal e \<and>
     w' = w\<lparr>nextConn := nextConn w + 1, nextAddr := nextAddr w + 1, openFds := removeAll (sFd s) (openFds w)\<rparr>"
    by blast
  have "conn_inv C K Oth w'" if nf: "\<not> fatal e"
  proof -
    have eq: "w' = (w\<lparr>openFds := removeAll (sFd s) (openFds w)\<rparr>)\<lparr>nextConn := nextConn w + 1, nextAddr := nextAddr w + 1\<rparr>"
      using c nf by simp
    have i: "conn_inv C K Oth (w\<lparr>openFds := removeAll (sFd s) (openFds w)\<rparr>)" by (rule conn_inv_close_fresh [OF inv fr])
    have "conn_wf w'" unfolding eq by (rule conn_wf_counters [OF conn_invD(1) [OF i]]) simp_all
    with i show ?thesis by (simp add: conn_inv_def eq)
  qed
  with r c show ?thesis by (auto dest: not_fatal_allowed)
qed

end
