(* ===== verification/TcpServer.thy ===== *)
theory TcpServer
  imports TcpConnection
begin

text \<open>
  The server (\<open>include/tcp/TcpServer.h\<close>, \<open>src/tcp/TcpServer.cpp\<close>) in one loop:
  \<open>maxThreadNum = 0\<close>, or its part in a loop of the pool (\<open>PooledServer\<close>).
  \<open>mConnectionSet\<close> holds the references to the connections, which keep them alive.
\<close>

record 'u server_loop = "'u conn_loop" +
  mpListenSocket :: "socket option"
  mpListenChannel :: "addr option"
  mConnectionSet :: "nat set"
  sConnectionCb :: "'u option"
  sMessageCb :: "'u option"
  sWriteCompleteCb :: "'u option"
  sHighWaterMarkCb :: "'u option"
  sIdentification :: string

type_synonym ('u, 'z, 'a) server_exec = "(failure, ('u, 'z) server_loop_scheme, 'a) exec"

definition MAX_CONNECTION_NUMS :: nat where "MAX_CONNECTION_NUMS = 256"

text \<open>
  The constructor; the members that were built are destroyed when it throws. The last
  steps only make the identification, from the clock and the thread number.
\<close>

definition TcpServer_new :: "kernel \<Rightarrow> SocketAddr \<Rightarrow> int \<Rightarrow> string \<Rightarrow> ('u, 'z, unit) server_exec" where
  "TcpServer_new k serverAddr maxListenQueue ident = block
     [assertTrue (maxListenQueue > 0) ''[TcpServer] maxListenQueue must bigger than 0'',
      assertInLoopThread,
      bindE (createTcpListenSocket k serverAddr maxListenQueue) (\<lambda>s.
        catchE (block
          [Socket_setopt k ''failed to setReuseAddr'' s,
           Socket_setopt k ''failed to setReusePort'' s,
           bindE (Channel_create k NoCallback (sFd s) Normal) (\<lambda>a. block
             [set_callbacks a (\<lambda>ch. ch\<lparr>mChannelInfo := ''Server listen in port '' @ to_dec (unat (mPort (mLocalAddr s))),
                mReadCb := ServerRead, mCloseCb := ServerFatal, mErrorCb := ServerFatal\<rparr>),
              modifyE (\<lambda>w. w\<lparr>mpListenSocket := Some s, mpListenChannel := Some a, mConnectionSet := {},
                sIdentification := ident @ addr_str (mLocalAddr s)\<rparr>)])])
          (\<lambda>e. if fatal e then throwE e else thenE (Socket_close s) (throwE e)))]"

definition with_listen :: "(socket \<Rightarrow> ('u, 'z, 'a) server_exec) \<Rightarrow> ('u, 'z, 'a) server_exec" where
  "with_listen f = withE (\<lambda>w. case mpListenSocket w of
     None \<Rightarrow> throwE (Undefined ''null mpListenSocket'') | Some s \<Rightarrow> f s)"

definition TcpServer_start :: "kernel \<Rightarrow> ('u, 'z, unit) server_exec" where
  "TcpServer_start k = block
     [assertInLoopThread,
      with_listen (\<lambda>s. bindE (Socket_listen k s) (\<lambda>s'. modifyE (\<lambda>w. w\<lparr>mpListenSocket := Some s'\<rparr>))),
      withE (\<lambda>w. case mpListenChannel w of None \<Rightarrow> throwE (Undefined ''null mpListenChannel'')
                 | Some a \<Rightarrow> enableRead k a)]"

definition server_setConnectionCallback :: "'u option \<Rightarrow> ('u, 'z, unit) server_exec" where
  "server_setConnectionCallback cb = modifyE (\<lambda>w. w\<lparr>sConnectionCb := cb\<rparr>)"

definition server_setMessageCallback :: "'u option \<Rightarrow> ('u, 'z, unit) server_exec" where
  "server_setMessageCallback cb = modifyE (\<lambda>w. w\<lparr>sMessageCb := cb\<rparr>)"

definition server_setWriteCompleteCallback :: "'u option \<Rightarrow> ('u, 'z, unit) server_exec" where
  "server_setWriteCompleteCallback cb = modifyE (\<lambda>w. w\<lparr>sWriteCompleteCb := cb\<rparr>)"

definition server_setHighWaterMarkCallback :: "'u option \<Rightarrow> ('u, 'z, unit) server_exec" where
  "server_setHighWaterMarkCallback cb = modifyE (\<lambda>w. w\<lparr>sHighWaterMarkCb := cb\<rparr>)"

text \<open>
  A new connection: accept, refuse when the set is full, otherwise make the connection,
  copy the callbacks, establish it and keep it. A failed \<open>accept\<close> is logged as ignored
  and thrown on. When a later step throws, the only reference to the connection goes.
  \<open>elsewhere\<close> are the connections of the set that live in other loops.
\<close>

definition createNewConnectionInSubLoop :: "kernel \<Rightarrow> nat \<Rightarrow> ('u \<Rightarrow> nat \<Rightarrow> ('u, 'z, unit) server_exec) \<Rightarrow> ('u, 'z, unit) server_exec" where
  "createNewConnectionInSubLoop k elsewhere usr = thenE assertInLoopThread
     (bindE (with_listen (\<lambda>s. Socket_accept k s)) (\<lambda>clientSocket. withE (\<lambda>w.
        if card (mConnectionSet w) + elsewhere = MAX_CONNECTION_NUMS then Socket_close clientSocket
        else bindE (createTcpConnection k clientSocket) (\<lambda>c.
          catchE (block
            [copy_callbacks c (sConnectionCb w) (sMessageCb w) (sWriteCompleteCb w) (sHighWaterMarkCb w) ServerClose,
             establishConnect k usr c,
             modifyE (\<lambda>w. w\<lparr>mConnectionSet := insert c (mConnectionSet w)\<rparr>)])
            (\<lambda>e. if fatal e then throwE e
                 else block [TcpConnection_delete k True c, throwE e])))))"

definition createNewConnection :: "kernel \<Rightarrow> ('u \<Rightarrow> nat \<Rightarrow> ('u, 'z, unit) server_exec) \<Rightarrow> ('u, 'z, unit) server_exec" where
  "createNewConnection k usr = thenE assertInLoopThread (createNewConnectionInSubLoop k 0 usr)"

text \<open>An error or hang-up of the listening socket is fatal.\<close>

definition server_listen_error :: "('u, 'z, unit) server_exec" where
  "server_listen_error = throwE (Terminate ''Error happen for server!'')"

text \<open>
  The functor of the close callback. It owns a reference (\<open>guard\<close>), which goes when the
  functor is destroyed; the object goes with the last reference.
\<close>

definition server_close_task :: "kernel \<Rightarrow> nat \<Rightarrow> ('u, 'z, unit) server_exec" where
  "server_close_task k c = block
     [destroyConnection k False c,
      modifyE (\<lambda>w. w\<lparr>mConnectionSet := mConnectionSet w - {c}\<rparr>)]"

definition server_drop_guard :: "kernel \<Rightarrow> nat \<Rightarrow> ('u, 'z, unit) server_exec" where
  "server_drop_guard k c = withE (\<lambda>w. if c \<in> mConnectionSet w \<or> ServerCloseTask c \<in> set (mPendingTasks w) \<or> conns w c = None
     then retE () else TcpConnection_delete k False c)"

text \<open>The destructor of the server: the connections, the channel, the socket.\<close>

definition TcpServer_delete :: "kernel \<Rightarrow> nat list \<Rightarrow> ('u, 'z, unit) server_exec" where
  "TcpServer_delete k order = noexcept (block
     [assertInLoopThread,
      forE (TcpConnection_delete k False) order,
      modifyE (\<lambda>w. w\<lparr>mConnectionSet := {}\<rparr>),
      withE (\<lambda>w. case mpListenChannel w of None \<Rightarrow> retE () | Some a \<Rightarrow> Channel_destroy k False a),
      modifyE (\<lambda>w. w\<lparr>mpListenChannel := None\<rparr>),
      withE (\<lambda>w. case mpListenSocket w of None \<Rightarrow> retE () | Some s \<Rightarrow> Socket_close s),
      modifyE (\<lambda>w. w\<lparr>mpListenSocket := None\<rparr>)])"

end
