(* ===== verification/TcpClient.thy ===== *)
theory TcpClient
  imports TcpServer
begin

text \<open>
  The client (\<open>include/tcp/TcpClient.h\<close>, \<open>src/tcp/TcpClient.cpp\<close>): a state machine
  that connects, retries with a doubling delay, and owns one connection.
  Delays are milliseconds, as in the code.
\<close>

record 'u client_loop = "'u server_loop" +
  mServerAddr :: SocketAddr
  clientState :: ClientState
  mConnection :: "nat option"
  mConnSocket :: "socket option"
  mConnChannel :: "addr option"
  mConnRetryDelay :: int
  mConnRandomDelay :: int
  clConnectionCb :: "'u option"
  clMessageCb :: "'u option"
  clWriteCompleteCb :: "'u option"
  clHighWaterMarkCb :: "'u option"
  clIdentification :: string

type_synonym ('u, 'z, 'a) client_exec = "(failure, ('u, 'z) client_loop_scheme, 'a) exec"

definition TCP_MAX_RETRY_TIMEOUT :: int where "TCP_MAX_RETRY_TIMEOUT = 5 * 60 * 1000"
definition TCP_INIT_RETRY_TIMEOUT :: int where "TCP_INIT_RETRY_TIMEOUT = 100"

definition UNKNOWN_CLIENT_ID :: string where "UNKNOWN_CLIENT_ID = ''UNKNOWN_CLIENT_ID''"

text \<open>\<open>ClientState\<close> and \<open>ConnState\<close> both have a \<open>Connected\<close>.\<close>

abbreviation ClConnected :: ClientState where "ClConnected \<equiv> ClientState.Connected"

fun client_to_string :: "ClientState \<Rightarrow> string" where
  "client_to_string Disconnect = ''Disconnect''"
| "client_to_string ClientState.Connected = ''Connected''"
| "client_to_string Connecting = ''Connecting''"
| "client_to_string ForceDisconnected = ''ForceDisconnected''"

text \<open>The constructor; \<open>rnd\<close> is the draw from 0 to 500.\<close>

definition TcpClient_new :: "SocketAddr \<Rightarrow> int \<Rightarrow> ('u, 'z, unit) client_exec" where
  "TcpClient_new serverAddr rnd = block
     [assertInLoopThread,
      modifyE (\<lambda>w. w\<lparr>mServerAddr := serverAddr, clientState := Disconnect, mConnection := None,
        mConnSocket := None, mConnChannel := None, mConnRetryDelay := TCP_INIT_RETRY_TIMEOUT,
        mConnRandomDelay := rnd, clIdentification := UNKNOWN_CLIENT_ID\<rparr>)]"

definition retry :: "kernel \<Rightarrow> ('u, 'z, unit) client_exec" where
  "retry k = thenE assertInLoopThread (withE (\<lambda>w.
     if mConnRetryDelay w < TCP_MAX_RETRY_TIMEOUT
     then bindE (runAfter k (TransTask Connecting) ((mConnRetryDelay w + mConnRandomDelay w) * 1000)) (\<lambda>_.
       modifyE (\<lambda>w. w\<lparr>mConnRetryDelay := mConnRetryDelay w * 2\<rparr>))
     else throwE (NetworkException ''[TcpClient] Connect time out!'' (k_errno k))))"

definition release_conn_channel :: "kernel \<Rightarrow> ('u, 'z, unit) client_exec" where
  "release_conn_channel k = withE (\<lambda>w. case mConnChannel w of
     None \<Rightarrow> retE ()
   | Some a \<Rightarrow> block [Channel_destroy k False a, modifyE (\<lambda>w. w\<lparr>mConnChannel := None\<rparr>)])"

definition release_conn_socket :: "('u, 'z, unit) client_exec" where
  "release_conn_socket = withE (\<lambda>w. case mConnSocket w of
     None \<Rightarrow> retE ()
   | Some s \<Rightarrow> block [Socket_close s, modifyE (\<lambda>w. w\<lparr>mConnSocket := None\<rparr>)])"

definition doConnecting :: "kernel \<Rightarrow> ('u, 'z, unit) client_exec" where
  "doConnecting k = block
     [release_conn_channel k,
      release_conn_socket,
      withE (\<lambda>w. bindE (createTcpClientSocket k (mServerAddr w)) (\<lambda>r. case r of
        None \<Rightarrow> retry k
      | Some s \<Rightarrow> thenE (modifyE (\<lambda>w. w\<lparr>mConnSocket := Some s\<rparr>))
          (let errCode = getSocketError k s in
           if errCode = EINPROGRESS \<or> errCode = EINTR \<or> errCode = EISCONN then
             bindE (Channel_create k NoCallback (sFd s) Normal) (\<lambda>a. block
               [modifyE (\<lambda>w. w\<lparr>mConnChannel := Some a\<rparr>),
                set_callbacks a (\<lambda>ch. ch\<lparr>mChannelInfo := ''Client temp channel'',
                  mErrorCb := ClientError, mWriteCb := ClientWrite\<rparr>),
                enableWrite k a])
           else if errCode = 0 then queueInLoop k (TransTask ClientState.Connected)
           else retry k)))]"

text \<open>Callbacks of the temporary channel.\<close>

definition client_error_cb :: "kernel \<Rightarrow> ('u, 'z, unit) client_exec" where
  "client_error_cb k = withE (\<lambda>w. case mConnSocket w of
     None \<Rightarrow> throwE (Undefined ''null mConnSocket'') | Some s \<Rightarrow> retry k)"

definition client_write_cb :: "kernel \<Rightarrow> ('u, 'z, unit) client_exec" where
  "client_write_cb k = queueInLoop k (TransTask ClientState.Connected)"

text \<open>\<open>stamp\<close> is the time and thread prefix of the new identification.\<close>

definition doConnected :: "kernel \<Rightarrow> ('u \<Rightarrow> nat \<Rightarrow> ('u, 'z, unit) client_exec) \<Rightarrow> ('u, 'z, unit) client_exec" where
  "doConnected k usr = withE (\<lambda>w. case mConnSocket w of
     None \<Rightarrow> throwE (Terminate ''[TcpClient] bad socket pointer!'')
   | Some s \<Rightarrow> block
      [assertTrue (getSocketError k s = 0) ''[TcpClient] bad socket!'',
       release_conn_channel k,
       modifyE (\<lambda>w. w\<lparr>mConnRetryDelay := TCP_INIT_RETRY_TIMEOUT, mConnSocket := None\<rparr>),
       bindE (createTcpConnection k s) (\<lambda>c. block
         [withE (\<lambda>w. case mConnection w of None \<Rightarrow> retE () | Some old \<Rightarrow> TcpConnection_delete k False old),
          modifyE (\<lambda>w. w\<lparr>mConnection := Some c\<rparr>),
          copy_callbacks c (clConnectionCb w) (clMessageCb w) (clWriteCompleteCb w) (clHighWaterMarkCb w) ClientClose,
          modifyE (\<lambda>w. w\<lparr>clIdentification := addr_str (mLocalAddr s)\<rparr>),
          establishConnect k usr c])])"

definition doDisconnected :: "kernel \<Rightarrow> ('u, 'z, unit) client_exec" where
  "doDisconnected k = withE (\<lambda>w. case mConnection w of
     None \<Rightarrow> throwE (Terminate ''[TcpClient] destroy on a bad connection!'')
   | Some c \<Rightarrow> block
      [modifyE (\<lambda>w. w\<lparr>clIdentification := UNKNOWN_CLIENT_ID\<rparr>),
       destroyConnection k False c,
       modifyE (\<lambda>w. w\<lparr>mConnection := None\<rparr>),
       TcpConnection_delete k False c,
       modifyE (\<lambda>w. w\<lparr>mConnRetryDelay := TCP_INIT_RETRY_TIMEOUT\<rparr>),
       retry k])"

definition doForceDisconnected :: "kernel \<Rightarrow> ('u, 'z, unit) client_exec" where
  "doForceDisconnected k = queueInLoop k ClientShutdownTask"

definition client_shutdown_task :: "kernel \<Rightarrow> ('u, 'z, unit) client_exec" where
  "client_shutdown_task k = withE (\<lambda>w. case mConnection w of
     None \<Rightarrow> throwE (Undefined ''null mConnection'') | Some c \<Rightarrow> shutdownConnection k c)"

definition set_client_state :: "ClientState \<Rightarrow> ('u, 'z, unit) client_exec" where
  "set_client_state st = modifyE (\<lambda>w. w\<lparr>clientState := st\<rparr>)"

definition transStateInLoop :: "kernel \<Rightarrow> ('u \<Rightarrow> nat \<Rightarrow> ('u, 'z, unit) client_exec) \<Rightarrow> ClientState \<Rightarrow> ('u, 'z, unit) client_exec" where
  "transStateInLoop k usr newState = thenE assertInLoopThread (withE (\<lambda>w.
     let oldState = clientState w in
     case newState of
       Disconnect \<Rightarrow>
         if oldState \<noteq> ClientState.Connected then retE ()
         else block [set_client_state newState, doDisconnected k]
     | Connecting \<Rightarrow>
         if oldState = ClientState.Connected then retE ()
         else block [set_client_state newState, doConnecting k]
     | ClientState.Connected \<Rightarrow>
         if oldState \<noteq> Connecting then retE ()
         else block [set_client_state newState, doConnected k usr]
     | ForceDisconnected \<Rightarrow>
         if oldState = Disconnect \<or> oldState = ForceDisconnected then retE ()
         else block [set_client_state newState, doForceDisconnected k]))"

definition TcpClient_connect :: "kernel \<Rightarrow> ('u \<Rightarrow> nat \<Rightarrow> ('u, 'z, unit) client_exec) \<Rightarrow> ('u, 'z, unit) client_exec" where
  "TcpClient_connect k usr = block [assertInLoopThread, transStateInLoop k usr Connecting]"

definition TcpClient_disconnect :: "kernel \<Rightarrow> ('u, 'z, unit) client_exec" where
  "TcpClient_disconnect k = withE (\<lambda>w. case mConnection w of
     None \<Rightarrow> retE () | Some _ \<Rightarrow> queueInLoop k (TransTask ForceDisconnected))"

definition client_setConnectionCallback :: "'u option \<Rightarrow> ('u, 'z, unit) client_exec" where
  "client_setConnectionCallback cb = modifyE (\<lambda>w. w\<lparr>clConnectionCb := cb\<rparr>)"

definition client_setMessageCallback :: "'u option \<Rightarrow> ('u, 'z, unit) client_exec" where
  "client_setMessageCallback cb = modifyE (\<lambda>w. w\<lparr>clMessageCb := cb\<rparr>)"

definition client_setWriteCompleteCallback :: "'u option \<Rightarrow> ('u, 'z, unit) client_exec" where
  "client_setWriteCompleteCallback cb = modifyE (\<lambda>w. w\<lparr>clWriteCompleteCb := cb\<rparr>)"

definition client_setHighWaterMarkCallback :: "'u option \<Rightarrow> ('u, 'z, unit) client_exec" where
  "client_setHighWaterMarkCallback cb = modifyE (\<lambda>w. w\<lparr>clHighWaterMarkCb := cb\<rparr>)"

text \<open>The destructor: the members in reverse order of declaration.\<close>

definition TcpClient_delete :: "kernel \<Rightarrow> ('u, 'z, unit) client_exec" where
  "TcpClient_delete k = noexcept (block
     [assertInLoopThread,
      release_conn_channel k,
      release_conn_socket,
      withE (\<lambda>w. case mConnection w of None \<Rightarrow> retE () | Some c \<Rightarrow> TcpConnection_delete k False c)])"

end
