(* ===== verification/Reactor.thy ===== *)
theory Reactor
  imports TcpClient
begin

text \<open>
  The whole process: what each closure of \<open>Closures\<close> does when it runs, and the loop that
  runs them. \<open>usr u c\<close> is the application's closure \<open>u\<close>, run with the
  connection \<open>c\<close>; it may make system calls, so the loop gives it the round's kernel.
\<close>

type_synonym ('u, 'z) usr = "'u \<Rightarrow> nat \<Rightarrow> ('u, 'z, unit) client_exec"

text \<open>Queued functors, and the ones a timer runs.\<close>

fun run_task :: "kernel \<Rightarrow> ('u, 'z) usr \<Rightarrow> 'u task \<Rightarrow> ('u, 'z, unit) client_exec" where
  "run_task k usr (SendTask c data) = sendInLoop k usr c data"
| "run_task k usr (ShutdownTask c) = shutdown_in_loop k c"
| "run_task k usr (ServerCloseTask c) = server_close_task k c"
| "run_task k usr (TransTask st) = transStateInLoop k usr st"
| "run_task k usr ClientShutdownTask = client_shutdown_task k"
| "run_task k usr (AddOneshotTask fd i cb) = add_oneshot k fd i cb"
| "run_task k usr (AddRepeatingTask fd i cb) = add_repeating k fd i cb"
| "run_task k usr (RemoveTimerTask i) = remove_timer k i"
| "run_task k usr (UserTask u n) = usr u n"

text \<open>The end of a functor: only the server's close functor owns a reference that matters.\<close>

fun discard_task :: "kernel \<Rightarrow> 'u task \<Rightarrow> ('u, 'z, unit) client_exec" where
  "discard_task k (ServerCloseTask c) = server_drop_guard k c"
| "discard_task k _ = retE ()"

text \<open>Channel callbacks.\<close>

fun run_cb :: "kernel \<Rightarrow> ('u, 'z) usr \<Rightarrow> 'u chan_cb \<Rightarrow> ('u, 'z, unit) client_exec" where
  "run_cb k usr NoCallback = retE ()"
| "run_cb k usr (ConnRead c) = handleRead k usr c"
| "run_cb k usr (ConnWrite c) = handleWrite k usr c"
| "run_cb k usr (ConnError c) = handleError c"
| "run_cb k usr (ConnClose c) = handleClose k usr c"
| "run_cb k usr ServerRead = createNewConnection k usr"
| "run_cb k usr ServerFatal = server_listen_error"
| "run_cb k usr ClientError = client_error_cb k"
| "run_cb k usr ClientWrite = client_write_cb k"
| "run_cb k usr WakeupRead = EventFd_handleRead k"
| "run_cb k usr (OneshotRead fd i cb) = oneshot_read k (run_task k usr) i cb"
| "run_cb k usr (RepeatingRead fd cb) = repeating_read (run_task k usr) cb"
| "run_cb k usr (TimerError fd) = retE ()"

definition reactor :: "kernel list \<Rightarrow> prio_sort \<Rightarrow> (kernel \<Rightarrow> ('u, 'z) usr) \<Rightarrow> ('u, 'z, unit) client_exec" where
  "reactor ks srt usr = startLoop ks srt (\<lambda>k. run_cb k (usr k)) (\<lambda>k. run_task k (usr k)) discard_task"

text \<open>
  A process before anything is made, in a thread that has a loop: concrete runs start here.
\<close>

definition blank_world :: "'u client_loop" where
  "blank_world = \<lparr>mIsExit = True, mIsLoopingNow = False, mIsDoPendingWorks = False, mPendingTasks = [],
     mpPoller = Epoller_new, mWakeups = 0, tCurrentLoop = Some 1, loopId = 1, channels = Map.empty,
     nextAddr = 0, openFds = [],
     mpWakeupFd = -1, mpWakeupChannel = None, mTimerMap = [], epollFd = -1, timerSpecs = (\<lambda>_. None), clockReads = 0,
     conns = Map.empty, nextConn = 0,
     mpListenSocket = None, mpListenChannel = None, mConnectionSet = {}, sConnectionCb = None, sMessageCb = None,
     sWriteCompleteCb = None, sHighWaterMarkCb = None, sIdentification = [],
     mServerAddr = no_addr, clientState = Disconnect, mConnection = None, mConnSocket = None, mConnChannel = None,
     mConnRetryDelay = TCP_INIT_RETRY_TIMEOUT, mConnRandomDelay = 0, clConnectionCb = None, clMessageCb = None,
     clWriteCompleteCb = None, clHighWaterMarkCb = None, clIdentification = UNKNOWN_CLIENT_ID\<rparr>"

text \<open>A buffer that holds some bytes, and a connection with them received.\<close>

definition buffer_with :: "byte list \<Rightarrow> tcp_buffer" where
  "buffer_with ds = TcpBuffer_new\<lparr>mBuffer := ds @ replicate 1024 0, mWritePos := length ds\<rparr>"

definition received :: "byte list \<Rightarrow> 'u tcp_connection" where
  "received ds = (conn_init (Socket_init 5) 0)\<lparr>mState := Connected, mRecvBuffer := buffer_with ds\<rparr>"

lemma buffer_with: "length ds \<le> 1000 \<Longrightarrow> tb_inv (buffer_with ds)" "content (buffer_with ds) = ds"
  by (simp_all add: buffer_with_def tb_inv_def content_def TcpBuffer_new_def max_size_def)

lemma received_buffer [simp]: "mRecvBuffer (received ds) = buffer_with ds" "mState (received ds) = Connected"
  by (simp_all add: received_def)

end
