(* ===== verification/ServerSafety.thy ===== *)
theory ServerSafety
  imports ConnLife Reactor
begin

text \<open>
  A process that runs a server and no timers or client: whatever the kernel answers and
  whatever the application's callbacks do with live connections, the loop never touches a
  deleted object, and the live connections are the ones in the server's set.
\<close>

section \<open>The invariant of the server\<close>

definition server_cbs :: "'u chan_cb set" where
  "server_cbs = {NoCallback, ServerRead, ServerFatal, WakeupRead}"

definition queue_ok :: "'u task list \<Rightarrow> bool" where
  "queue_ok ts \<longleftrightarrow> list_all (\<lambda>t. conn_task t \<and> \<not> is_send t) ts"

text \<open>The parts that no operation of a connection touches.\<close>

definition server_rest :: "nat \<Rightarrow> (addr \<Rightarrow> 'u chan_cb channel option) \<Rightarrow> ('u, 'z) client_loop_scheme \<Rightarrow> bool" where
  "server_rest lim Oth w \<longleftrightarrow> finite (mConnectionSet w) \<and> card (mConnectionSet w) \<le> lim
     \<and> isInLoopThread w \<and> clientState w = Disconnect
     \<and> (\<exists>s. mpListenSocket w = Some s \<and> mIsListenSocket s \<and> mIsTCPSocket s)
     \<and> (\<forall>a ch. Oth a = Some ch \<longrightarrow> chan_cbs ch \<subseteq> server_cbs)"

text \<open>
  Between two callbacks or rounds, with at most \<open>lim\<close> connections: a loop that shares the
  server's bound with other loops has what these leave of it.
\<close>

definition serving :: "nat \<Rightarrow> (addr \<Rightarrow> 'u chan_cb channel option) \<Rightarrow> ('u, 'z) client_loop_scheme \<Rightarrow> bool" where
  "serving lim Oth w \<longleftrightarrow> conn_inv (mConnectionSet w) {} Oth w \<and> server_rest lim Oth w
     \<and> (\<forall>c. conns w c \<noteq> None \<longrightarrow> c \<in> mConnectionSet w) \<and> queue_ok (mPendingTasks w)"

abbreviation server_inv :: "(addr \<Rightarrow> 'u chan_cb channel option) \<Rightarrow> ('u, 'z) client_loop_scheme \<Rightarrow> bool" where
  "server_inv \<equiv> serving MAX_CONNECTION_NUMS"

text \<open>The same while the callbacks of the connection \<open>c\<close> run.\<close>

definition server_at :: "nat \<Rightarrow> nat \<Rightarrow> (addr \<Rightarrow> 'u chan_cb channel option) \<Rightarrow> ('u, 'z) client_loop_scheme \<Rightarrow> bool" where
  "server_at lim c Oth w \<longleftrightarrow> serving lim Oth w \<and> (\<exists>tc. conns w c = Some tc \<and> mpChannel tc \<noteq> None)"

lemma loop_frame_more:
  fixes s t :: "('u, 'z) client_loop_scheme"
  assumes "loop_frame s t"
  shows "mConnectionSet t = mConnectionSet s" and "clientState t = clientState s"
    and "mpListenSocket t = mpListenSocket s"
proof -
  have "conn_loop.more t = conn_loop.more s" using assms by (simp add: loop_frame_def)
  then show "mConnectionSet t = mConnectionSet s" "clientState t = clientState s" "mpListenSocket t = mpListenSocket s"
    by (cases s; cases t; simp)+
qed

lemma conn_inv_set [simp]:
  "conn_inv C K Oth (w\<lparr>mConnectionSet := S\<rparr>) = conn_inv C K Oth w"
  by (simp add: conn_inv_def conn_wf_def conn_ok_def net_wf_def fds_open_def others_def fun_eq_iff)

lemma isInLoopThread_set [simp]: "isInLoopThread (w\<lparr>mConnectionSet := S\<rparr>) = isInLoopThread w"
  by (simp add: isInLoopThread_def)

lemma server_rest_frame:
  fixes s t :: "('u, 'z) client_loop_scheme"
  assumes "server_rest lim Oth s" and "loop_frame s t"
  shows "server_rest lim Oth t"
  using assms(1) loop_frame_more [OF assms(2)] assms(2)
  by (simp add: server_rest_def isInLoopThread_def loop_frame_def)

lemma queue_ok_frame:
  "queue_ok (mPendingTasks s) \<Longrightarrow> loop_frame s t \<Longrightarrow> isInLoopThread s \<Longrightarrow> queue_ok (mPendingTasks t)"
  unfolding queue_ok_def loop_frame_def list_all_iff by auto

section \<open>Operations of one connection\<close>

text \<open>
  What the library shows of an operation of a live connection, its invariant and its frame,
  keeps the invariant of the server.
\<close>

lemma lift_conn:
  fixes w :: "('u, 'z) client_loop_scheme"
  assumes at: "server_at lim c Oth w" and m: "\<And>C K. c \<in> C \<Longrightarrow> c \<in> K \<Longrightarrow> keeps (conn_inv C K Oth) m"
    and fr: "moves loop_frame m"
  shows "good (server_at lim c Oth) m w"
proof -
  from at obtain tc where inv: "serving lim Oth w" and tc: "conns w c = Some tc" "mpChannel tc \<noteq> None"
    by (auto simp: server_at_def)
  let ?S = "mConnectionSet w"
  have "c \<in> ?S" using inv tc by (auto simp: serving_def)
  moreover have "conn_inv ?S {c} Oth w" using inv tc by (auto simp: serving_def conn_inv_def)
  ultimately have g: "good (conn_inv ?S {c} Oth) m w" by (intro good_keeps m) auto
  have "server_at lim c Oth t" if i: "conn_inv ?S {c} Oth t" and f: "loop_frame w t" for t
  proof -
    have "\<forall>d. conns t d \<noteq> None \<longrightarrow> d \<in> ?S"
      using f inv by (auto simp: loop_frame_def same_conns_def serving_def)
    moreover have "queue_ok (mPendingTasks t)" "server_rest lim Oth t"
      using queue_ok_frame [OF _ f] server_rest_frame [OF _ f] inv by (auto simp: serving_def server_rest_def)
    ultimately show ?thesis
      using i conn_inv_mono [OF i order_refl, of "{}"] conn_invD(3) [OF i, of c] loop_frame_more(1) [OF f]
      by (simp add: server_at_def serving_def)
  qed
  then show ?thesis using g movesD [OF fr]
    by (fastforce simp: good_def split: prod.splits sum.splits)
qed

section \<open>Accepting\<close>

lemma serving_fields [simp]:
  "serving lim Oth (w\<lparr>mIsExit := b\<rparr>) = serving lim Oth w"
  "serving lim Oth (w\<lparr>mIsLoopingNow := b\<rparr>) = serving lim Oth w"
  "serving lim Oth (w\<lparr>mIsDoPendingWorks := b\<rparr>) = serving lim Oth w"
  "serving lim Oth (w\<lparr>mWakeups := n\<rparr>) = serving lim Oth w"
  by (simp_all add: serving_def server_rest_def isInLoopThread_def)

lemma serving_fds:
  assumes "serving lim Oth w" and "conn_inv (mConnectionSet w) {} Oth (w\<lparr>openFds := l\<rparr>)"
  shows "serving lim Oth (w\<lparr>openFds := l\<rparr>)"
  using assms by (simp add: serving_def server_rest_def isInLoopThread_def)

lemma accept_cases:
  fixes w :: "('u, 'z) client_loop_scheme"
  assumes inv: "serving lim Oth w" and k: "kernel_ok k" and s: "mIsListenSocket s" "mIsTCPSocket s"
  shows "(\<exists>e. Socket_accept k s w = (Inl e, w) \<and> \<not> fatal e)
       \<or> (\<exists>cs. Socket_accept k s w = (Inr cs, w\<lparr>openFds := sFd cs # openFds w\<rparr>)
           \<and> sock_fresh cs (w\<lparr>openFds := sFd cs # openFds w\<rparr>))"
proof (cases "k_accept k (sFd s) (openFds w) < 0")
  case True
  with s show ?thesis by (simp add: Socket_accept_def exec_simps open_fd_cases)
next
  case ok: False
  have fresh: "k_accept k (sFd s) (openFds w) \<notin> set (openFds w)"
    using k by (simp add: kernel_ok_def new_fd_ok_def)
  show ?thesis
  proof (cases "mIpProtocol (mLocalAddr s)")
    case IPv4
    with Socket_accept_v4 [OF s IPv4, of k w] ok obtain cs where
      cs: "Socket_accept k s w = (Inr cs, w\<lparr>openFds := sFd cs # openFds w\<rparr>)" "sFd cs = k_accept k (sFd s) (openFds w)"
      by auto
    have "fds_open w" using inv by (simp add: serving_def conn_inv_def conn_wf_def)
    with fresh cs(2) have "sock_fresh cs (w\<lparr>openFds := sFd cs # openFds w\<rparr>)"
      by (auto simp: sock_fresh_def dest: fds_openD)
    with cs(1) show ?thesis by blast
  next
    case IPv6
    from Socket_accept_v6 [OF s IPv6, of k w] k ok show ?thesis by (simp add: kernel_ok_def)
  qed
qed

lemma sound_bindI: "m s = (Inr a, s') \<Longrightarrow> sound Q (f a) s' \<Longrightarrow> sound Q (bindE m f) s"
  by (simp add: sound_def bindE_def)

lemma sound_bindF: "m s = (Inl e, s') \<Longrightarrow> allowed e \<Longrightarrow> sound Q (bindE m f) s"
  by (simp add: sound_def bindE_def)

text \<open>The callbacks the server copies into a new connection, and its first events.\<close>

definition new_callbacks :: "('u, 'z) client_loop_scheme \<Rightarrow> 'u tcp_connection \<Rightarrow> 'u tcp_connection" where
  "new_callbacks w = (\<lambda>tc. tc\<lparr>mConnectionCb := sConnectionCb w, mMessageCb := sMessageCb w,
     mWriteCompleteCb := sWriteCompleteCb w, mHighWaterMarkCb := sHighWaterMarkCb w, mConnCloseCb := Some ServerClose\<rparr>)"

definition set_up :: "kernel \<Rightarrow> ('u, 'z) usr \<Rightarrow> ('u tcp_connection \<Rightarrow> 'u tcp_connection) \<Rightarrow> nat \<Rightarrow> ('u, 'z, unit) client_exec" where
  "set_up k usr g c = thenE (upd_conn c g) (establishConnect k usr c)"

section \<open>Polling\<close>

lemma serving_revents:
  assumes inv: "serving lim Oth w" and n: "net_wf (set_revents evs w)"
  shows "serving lim Oth (set_revents evs w)"
proof -
  obtain ch where fr: "set_revents evs w = w\<lparr>channels := ch\<rparr>" using set_revents_frame by blast
  have "conn_inv (mConnectionSet w) {} Oth (set_revents evs w)"
    by (rule conn_inv_revents [OF _ n]) (use inv in \<open>simp add: serving_def\<close>)
  with inv show ?thesis by (simp add: serving_def server_rest_def fr isInLoopThread_def)
qed

text \<open>An event for an unknown descriptor ends the process; otherwise only returned events change.\<close>

lemma sound_poll:
  assumes inv: "serving lim Oth w"
  shows "sound (serving lim Oth) (Epoller_poll k srt) w"
proof (cases "fst (k_epoll_wait k) < 0")
  case True
  then show ?thesis by (simp add: sound_def Epoller_poll_def Let_def)
next
  case False
  have wf: "net_wf w" using inv by (simp add: serving_def conn_inv_def conn_wf_def)
  show ?thesis
  proof (cases "\<forall>(fd, ev) \<in> set (poll_events k). registered w fd")
    case True
    from poll_collect_ok [OF wf True, of "[]"] serving_revents [OF inv] False show ?thesis
      by (simp add: sound_def Epoller_poll_def Let_def bindE_def poll_events_def)
  next
    case nr: False
    from poll_collect_unknown [OF wf nr, of "[]"] False show ?thesis
      by (auto simp: sound_def Epoller_poll_def Let_def bindE_def poll_events_def)
  qed
qed

text \<open>A channel belongs to a live connection, with all its callbacks, or to the server.\<close>

lemma channel_owner:
  assumes inv: "serving lim Oth w" and ch: "channels w a = Some ch"
  shows "chan_cbs ch \<subseteq> server_cbs \<or> (\<exists>c. server_at lim c Oth w \<and> (\<forall>cb \<in> chan_cbs ch. refers cb = Some c))"
proof (cases "foreign ch")
  case True
  have "others w = Oth" using inv by (simp add: serving_def conn_inv_def)
  then have "Oth a = Some (ch\<lparr>mEvent := 0, mRevent := 0\<rparr>)" using ch True by (auto simp: others_def)
  with inv have "chan_cbs (ch\<lparr>mEvent := 0, mRevent := 0\<rparr>) \<subseteq> server_cbs"
    by (auto simp only: serving_def server_rest_def)
  then show ?thesis by (simp add: chan_cbs_def)
next
  case False
  then obtain cb c where cb: "cb \<in> chan_cbs ch" "refers cb = Some c" by (auto simp: foreign_def)
  have wf: "conn_wf w" using inv by (simp add: serving_def conn_inv_def)
  from conn_wfD(4) [OF wf ch cb] obtain tc where tc: "conns w c = Some tc" "mpChannel tc = Some a" by blast
  with conn_okD(5) [OF conn_wfD(3) [OF wf tc(1)] tc(2)] ch have "conn_chan c tc ch" by auto
  then have "\<forall>cb \<in> chan_cbs ch. refers cb = Some c" by (auto simp: conn_chan_def chan_cbs_def)
  with tc inv show ?thesis by (auto simp: server_at_def)
qed

section \<open>A batch of functors\<close>

text \<open>
  \<open>doPendingTasks\<close> takes the queue \<open>ts\<close>. The close functors in it keep their
  connections alive until they are dropped, after all of them ran.
\<close>

definition drops :: "nat \<Rightarrow> 'u task list \<Rightarrow> (addr \<Rightarrow> 'u chan_cb channel option) \<Rightarrow> ('u, 'z) client_loop_scheme \<Rightarrow> bool" where
  "drops lim ts Oth w \<longleftrightarrow> conn_inv (mConnectionSet w) {} Oth w \<and> server_rest lim Oth w \<and> mPendingTasks w = []
     \<and> (\<forall>c. conns w c \<noteq> None \<longrightarrow> c \<in> mConnectionSet w \<or> ServerCloseTask c \<in> set ts)"

definition batch :: "nat \<Rightarrow> 'u task list \<Rightarrow> (addr \<Rightarrow> 'u chan_cb channel option) \<Rightarrow> ('u, 'z) client_loop_scheme \<Rightarrow> bool" where
  "batch lim ts Oth w \<longleftrightarrow> drops lim ts Oth w \<and> (\<forall>t \<in> set ts. \<forall>c. about t = Some c \<longrightarrow> conns w c \<noteq> None)"

lemma batch_start:
  assumes "serving lim Oth w"
  shows "batch lim (mPendingTasks w) Oth (w\<lparr>mIsDoPendingWorks := b, mPendingTasks := []\<rparr>)"
proof -
  have wf: "conn_wf w" using assms by (simp add: serving_def conn_inv_def)
  have "conn_wf (w\<lparr>mIsDoPendingWorks := b, mPendingTasks := []\<rparr>)"
    using conn_wf_tasks [of "w\<lparr>mIsDoPendingWorks := b\<rparr>" "[]"] wf by simp
  with assms conn_wfD(6) [OF wf] show ?thesis
    by (auto simp: batch_def drops_def serving_def server_rest_def conn_inv_def isInLoopThread_def)
qed

lemma drops_done: "drops lim [] Oth w \<Longrightarrow> serving lim Oth w"
  by (simp add: drops_def serving_def queue_ok_def)

lemma drops_fields [simp]: "drops lim ts Oth (w\<lparr>mIsDoPendingWorks := b\<rparr>) = drops lim ts Oth w"
  by (simp add: drops_def server_rest_def isInLoopThread_def)

lemma still_more:
  fixes s t :: "('u, 'z) client_loop_scheme"
  assumes "still s t"
  shows "mConnectionSet t = mConnectionSet s" and "server_rest lim Oth t = server_rest lim Oth s"
proof -
  have "conn_loop.more t = conn_loop.more s" using assms by (simp add: still_def)
  then show "mConnectionSet t = mConnectionSet s" "server_rest lim Oth t = server_rest lim Oth s"
    using assms by (cases s; cases t; simp add: server_rest_def still_def isInLoopThread_def)+
qed

lemma lift_batch:
  fixes w :: "('u, 'z) client_loop_scheme"
  assumes b: "batch lim ts Oth w" and c: "conns w c \<noteq> None"
    and m: "\<And>C. c \<in> C \<Longrightarrow> keeps (conn_inv C {} Oth) m" and st: "moves still m" and al: "moves same_conns m"
  shows "good (batch lim ts Oth) m w"
proof -
  let ?S = "mConnectionSet w"
  have "conn_inv (insert c ?S) {} Oth w" using b c by (auto simp: batch_def drops_def conn_inv_def)
  with m [of "insert c ?S"] have g: "good (conn_inv (insert c ?S) {} Oth) m w" by (intro good_keeps) auto
  have "batch lim ts Oth t" if "conn_inv (insert c ?S) {} Oth t" "still w t" "same_conns w t" for t
    using b conn_inv_mono [OF that(1), of ?S "{}"] still_more [OF that(2)] that(2,3)
    by (auto simp: batch_def drops_def same_conns_def still_def)
  then show ?thesis using g movesD [OF st] movesD [OF al]
    by (fastforce simp: good_def split: prod.splits sum.splits)
qed

lemma good_close_task:
  fixes w :: "('u, 'z) client_loop_scheme"
  assumes b: "batch lim ts Oth w" and t: "ServerCloseTask c \<in> set ts"
  shows "good (batch lim ts Oth) (server_close_task k c) w"
  unfolding server_close_task_def block.simps
proof (rule good_then)
  have "conns w c \<noteq> None" using b t by (force simp: batch_def)
  then show "good (batch lim ts Oth) (destroyConnection k False c) w"
    by (intro lift_batch [OF b] keeps_destroyConnection still.destroyConnection alive.destroyConnection) auto
next
  fix v :: "('u, 'z) client_loop_scheme" assume v: "batch lim ts Oth v"
  have i: "conn_inv (mConnectionSet v - {c}) {} Oth v"
    using v by (auto simp: batch_def drops_def elim: conn_inv_mono)
  have "card (mConnectionSet v - {c}) \<le> card (mConnectionSet v)"
    using v by (intro card_mono) (auto simp: batch_def drops_def server_rest_def)
  with v t i have "batch lim ts Oth (v\<lparr>mConnectionSet := mConnectionSet v - {c}\<rparr>)"
    by (auto simp: batch_def drops_def server_rest_def)
  then show "good (batch lim ts Oth) (thenE (modifyE (\<lambda>w. w\<lparr>mConnectionSet := mConnectionSet w - {c}\<rparr>)) (retE ())) v"
    by (simp add: good_def thenE_def bindE_def)
qed

lemma sound_drop:
  fixes w :: "('u, 'z) client_loop_scheme"
  assumes d: "drops lim (t # ts) Oth w"
  shows "sound (drops lim ts Oth) (discard_task k t) w"
proof (cases "\<exists>c. t = ServerCloseTask c \<and> c \<notin> mConnectionSet w \<and> conns w c \<noteq> None")
  case False
  have "discard_task k t w = (Inr (), w)"
    using False d by (cases t) (auto simp: server_drop_guard_def)
  moreover have "drops lim ts Oth w" using d False by (auto simp: drops_def)
  ultimately show ?thesis by (simp add: sound_def)
next
  case True
  then obtain c tc where t: "t = ServerCloseTask c" "c \<notin> mConnectionSet w" and tc: "conns w c = Some tc" by auto
  have eq: "discard_task k t w = TcpConnection_delete k False c w"
    using t tc d by (simp add: server_drop_guard_def drops_def)
  obtain r w' where r: "TcpConnection_delete k False c w = (r, w')" by fastforce
  have g: "good (conn_inv (mConnectionSet w - {c}) {} Oth) (TcpConnection_delete k False c) w"
    by (rule good_delete) (use d tc in \<open>auto simp: drops_def\<close>)
  show ?thesis
  proof (cases r)
    case (Inl e)
    with g r eq show ?thesis by (simp add: sound_def good_def)
  next
    case (Inr u)
    from movesD [OF still.delete r] movesD [OF shrink.delete r] have "still w w'" "no_new_conns w w'" .
    moreover have "conn_inv (mConnectionSet w) {} Oth w'" using g r Inr t(2) by (simp add: good_def)
    moreover have "conns w' c = None" using r Inr delete_gone by simp
    moreover have "\<forall>d. conns w' d \<noteq> None \<longrightarrow> d \<in> mConnectionSet w \<or> ServerCloseTask d \<in> set ts"
    proof (intro allI impI)
      fix e assume e: "conns w' e \<noteq> None"
      with \<open>no_new_conns w w'\<close> have "conns w e \<noteq> None" by (auto simp: no_new_conns_def)
      moreover have "e \<noteq> c" using e \<open>conns w' c = None\<close> by auto
      ultimately show "e \<in> mConnectionSet w \<or> ServerCloseTask e \<in> set ts"
        using d t(1) by (auto simp: drops_def)
    qed
    ultimately have "drops lim ts Oth w'" using d still_more [of w w']
      by (simp add: drops_def still_def)
    with r Inr eq show ?thesis by (simp add: sound_def)
  qed
qed

lemma sound_drops:
  fixes w :: "('u, 'z) client_loop_scheme"
  shows "drops lim ts Oth w \<Longrightarrow> sound (drops lim [] Oth) (forE (discard_task k) ts) w"
proof (induction ts arbitrary: w)
  case Nil
  then show ?case by (simp add: sound_def)
next
  case (Cons t ts)
  then show ?case unfolding forE.simps by (intro sound_then [OF sound_drop]) auto
qed

section \<open>The application\<close>

text \<open>
  What the server needs of the application's closures: they keep the connections'
  invariant, and leave everything but connections, channels and queue alone.
\<close>

locale server_app =
  fixes usr :: "kernel \<Rightarrow> ('u, 'z) usr"
  assumes usr_keeps: "kernel_ok k \<Longrightarrow> usr_ok (usr k)"
    and usr_frame: "moves loop_frame (usr k u c)"
begin

lemma good_conn_cb:
  assumes "kernel_ok k" and "refers cb = Some c" and "server_at lim c Oth w"
  shows "good (server_at lim c Oth) (run_cb k (usr k) cb) w"
proof (rule lift_conn [OF assms(3)])
  show "keeps (conn_inv C K Oth) (run_cb k (usr k) cb)" if "c \<in> C" "c \<in> K" for C K
    using assms(2) that usr_keeps [OF assms(1)] assms(1)
    by (cases cb) (auto intro: keeps_handleRead keeps_handleWrite keeps_handleError keeps_handleClose)
  show "moves loop_frame (run_cb k (usr k) cb)"
    using assms(2) usr_frame
    by (cases cb) (auto intro: loop.handleRead loop.handleWrite loop.handleError loop.handleClose)
qed

lemma good_set_up:
  assumes "kernel_ok k" and "c \<in> C" and "c \<in> K" and "conn_inv C K Oth w"
    and "\<And>(w :: ('u, 'z) client_loop_scheme) tc. conn_ok w c tc \<Longrightarrow> conn_ok w c (g tc)"
    and "\<And>tc. mpChannel (g tc) = mpChannel tc"
  shows "good (conn_inv C K Oth) (set_up k (usr k) g c) w"
  unfolding set_up_def
  by (rule good_keeps [OF keeps_then [OF keeps_upd_conn keeps_establishConnect]])
    (use assms usr_keeps in auto)

lemma frame_set_up: "moves loop_frame (set_up k (usr k) g c)"
  unfolding set_up_def by (intro moves_then loop.pre loop.upd loop.establish usr_frame)

lemma sound_set_up:
  fixes w :: "('u, 'z) client_loop_scheme"
  assumes k: "kernel_ok k" and inv: "serving lim Oth w" and room: "card (mConnectionSet w) < lim"
    and i: "conn_inv (insert c (mConnectionSet w)) {c} Oth (created s w)" and c: "c = nextConn w"
    and g: "\<And>(w :: ('u, 'z) client_loop_scheme) tc. conn_ok w c tc \<Longrightarrow> conn_ok w c (g tc)"
      "\<And>tc. mpChannel (g tc) = mpChannel tc"
  shows "sound (serving lim Oth)
     (catchE (thenE (set_up k (usr k) g c) (thenE (modifyE (\<lambda>w. w\<lparr>mConnectionSet := insert c (mConnectionSet w)\<rparr>)) (retE ())))
        (\<lambda>e. if fatal e then throwE e else block [TcpConnection_delete k True c, throwE e])) (created s w)"
proof -
  let ?S = "mConnectionSet w" and ?w = "created s w"
  have same: "mConnectionSet ?w = ?S" "mPendingTasks ?w = mPendingTasks w" "isInLoopThread ?w = isInLoopThread w"
    "server_rest lim Oth ?w = server_rest lim Oth w"
    by (simp_all add: created_def register_def isInLoopThread_def server_rest_def)
  obtain r w' where r: "set_up k (usr k) g c ?w = (r, w')" by fastforce
  note f = movesD [OF frame_set_up r]
  have gd: "good (conn_inv (insert c ?S) {c} Oth) (set_up k (usr k) g c) ?w"
    by (rule good_set_up [OF k _ _ i g]) auto
  show ?thesis
  proof (cases r)
    case (Inr u)
    with gd r have i': "conn_inv (insert c ?S) {c} Oth w'" by (simp add: good_def)
    have live: "\<forall>d. conns w' d \<noteq> None \<longrightarrow> d \<in> insert c ?S"
      using f inv c by (auto simp: loop_frame_def same_conns_def serving_def created_def)
    have q: "queue_ok (mPendingTasks w')"
      by (rule queue_ok_frame [OF _ f]) (use inv same in \<open>auto simp: serving_def server_rest_def\<close>)
    have "server_rest lim Oth w'" by (rule server_rest_frame [OF _ f]) (use inv same in \<open>auto simp: serving_def\<close>)
    moreover have "mConnectionSet w' = ?S" using loop_frame_more(1) [OF f] same by simp
    moreover have "card (insert c ?S) \<le> lim" "finite ?S"
      using room inv by (auto simp: card_insert_if serving_def server_rest_def)
    ultimately have "serving lim Oth (w'\<lparr>mConnectionSet := insert c (mConnectionSet w')\<rparr>)"
      using conn_inv_mono [OF i' order_refl, of "{}"] live q by (simp add: serving_def server_rest_def)
    with r Inr show ?thesis by (simp add: sound_def catchE_def thenE_def bindE_def)
  next
    case (Inl e)
    show ?thesis
    proof (cases "fatal e")
      case True
      with r Inl gd show ?thesis by (simp add: sound_def catchE_def thenE_def bindE_def good_def)
    next
      case False
      with gd r Inl have i': "conn_inv (insert c ?S) {c} Oth w'" by (simp add: good_def)
      from conn_invD(2) [OF this, of c] obtain tc where tc: "conns w' c = Some tc" by blast
      have "sound (\<lambda>_. True) (TcpConnection_delete k True c) w'"
        by (rule sound_delete [OF conn_inv_mono [OF i' order_refl, of "{}"] tc]) auto
      with r Inl False not_fatal_allowed [OF False] show ?thesis
        by (auto simp: sound_def catchE_def thenE_def bindE_def split: prod.splits sum.splits)
    qed
  qed
qed

lemma sound_accept_upto:
  fixes w :: "('u, 'z) client_loop_scheme"
  assumes k: "kernel_ok k" and inv: "serving lim Oth w" and lim: "lim + elsewhere = MAX_CONNECTION_NUMS"
  shows "sound (serving lim Oth) (createNewConnectionInSubLoop k elsewhere (usr k)) w"
proof -
  have th: "isInLoopThread w" using inv by (simp add: serving_def server_rest_def)
  obtain s where s: "mpListenSocket w = Some s" "mIsListenSocket s" "mIsTCPSocket s"
    using inv by (auto simp: serving_def server_rest_def)
  let ?rest = "\<lambda>clientSocket. withE (\<lambda>w. if card (mConnectionSet w) + elsewhere = MAX_CONNECTION_NUMS then Socket_close clientSocket
        else bindE (createTcpConnection k clientSocket) (\<lambda>c.
          catchE (block
            [upd_conn c (\<lambda>tc. tc\<lparr>mConnectionCb := sConnectionCb w, mMessageCb := sMessageCb w,
               mWriteCompleteCb := sWriteCompleteCb w, mHighWaterMarkCb := sHighWaterMarkCb w,
               mConnCloseCb := Some ServerClose\<rparr>),
             establishConnect k (usr k) c,
             modifyE (\<lambda>w. w\<lparr>mConnectionSet := insert c (mConnectionSet w)\<rparr>)])
            (\<lambda>e. if fatal e then throwE e
                 else block [TcpConnection_delete k True c, throwE e])))"
  have eq: "createNewConnectionInSubLoop k elsewhere (usr k) w = bindE (Socket_accept k s) ?rest w"
    unfolding createNewConnectionInSubLoop_def copy_callbacks_eq using th s by (simp add: thenE_def bindE_def
        assertInLoopThread_def with_listen_def)
  have "sound (serving lim Oth) (bindE (Socket_accept k s) ?rest) w"
    using accept_cases [OF inv k s(2,3)]
  proof (elim disjE exE conjE)
    fix e assume "Socket_accept k s w = (Inl e, w)" "\<not> fatal e"
    then show ?thesis by (intro sound_bindF) (auto intro: not_fatal_allowed)
  next
    fix cs assume a: "Socket_accept k s w = (Inr cs, w\<lparr>openFds := sFd cs # openFds w\<rparr>)"
      and fr: "sock_fresh cs (w\<lparr>openFds := sFd cs # openFds w\<rparr>)"
    let ?w = "w\<lparr>openFds := sFd cs # openFds w\<rparr>"
    have inv1: "serving lim Oth ?w"
      by (rule serving_fds [OF inv conn_inv_open]) (use inv in \<open>simp add: serving_def\<close>)
    then have c1: "conn_inv (mConnectionSet ?w) {} Oth ?w" by (simp add: serving_def)
    have "sound (serving lim Oth) (?rest cs) ?w"
    proof (cases "card (mConnectionSet ?w) + elsewhere = MAX_CONNECTION_NUMS")
      case True
      have "serving lim Oth (?w\<lparr>openFds := removeAll (sFd cs) (openFds ?w)\<rparr>)"
        by (rule serving_fds [OF inv1 conn_inv_close_fresh [OF c1 fr]])
      with True show ?thesis by (simp add: sound_def Socket_close_def close_fd_def)
    next
      case False
      with inv1 lim have room: "card (mConnectionSet ?w) < lim" by (simp add: serving_def server_rest_def)
      have ctl: "ctl_ok k" using k by (simp add: kernel_ok_def)
      from createTcpConnection_cases [OF c1 ctl fr] show ?thesis
      proof (elim disjE exE conjE)
        fix w' assume cr: "createTcpConnection k cs ?w = (Inr (nextConn ?w), w')" "w' = created cs ?w"
          and i: "conn_inv (insert (nextConn ?w) (mConnectionSet ?w)) {nextConn ?w} Oth w'"
        from sound_set_up [OF k inv1 room i [unfolded cr(2)] refl, of "new_callbacks w"] False cr show ?thesis
          by (simp add: sound_def bindE_def set_up_def thenE_assoc new_callbacks_def cong: if_cong)
      qed (use False in \<open>simp_all add: sound_def bindE_def\<close>)
    qed
    with a show ?thesis by (rule sound_bindI)
  qed
  with eq show ?thesis by (simp add: sound_def)
qed

lemma sound_accept:
  fixes w :: "('u, 'z) client_loop_scheme"
  assumes k: "kernel_ok k" and inv: "server_inv Oth w"
  shows "sound (server_inv Oth) (createNewConnection k (usr k)) w"
proof -
  have "isInLoopThread w" using inv by (simp add: serving_def server_rest_def)
  then have "createNewConnection k (usr k) w = createNewConnectionInSubLoop k 0 (usr k) w"
    by (simp add: createNewConnection_def thenE_def bindE_def assertInLoopThread_def)
  with sound_accept_upto [OF k inv, of 0] show ?thesis by (simp add: sound_def)
qed

lemma sound_own_cb:
  assumes "serving lim Oth w" and "cb \<in> server_cbs" and "cb \<noteq> ServerRead"
  shows "sound (serving lim Oth) (run_cb k (usr k) cb) w"
  using assms
  by (cases "k_eventfd_read k < 0") (auto simp: server_cbs_def sound_def server_listen_error_def EventFd_handleRead_def)

lemma sound_server_cb:
  fixes w :: "('u, 'z) client_loop_scheme"
  assumes "kernel_ok k" and "server_inv Oth w" and "cb \<in> server_cbs"
  shows "sound (server_inv Oth) (run_cb k (usr k) cb) w"
  using sound_accept [OF assms(1,2)] sound_own_cb [OF assms(2,3)] by (cases "cb = ServerRead") simp_all

lemma sound_handleEvent:
  fixes w :: "('u, 'z) client_loop_scheme"
  assumes k: "kernel_ok k" and inv: "server_inv Oth w" and ch: "channels w a = Some ch"
  shows "sound (server_inv Oth) (handleEvent (run_cb k (usr k)) a) w"
proof -
  have calls: "set (handleEvent_calls ch) \<subseteq> chan_cbs ch"
    by (auto simp: handleEvent_calls_def chan_cbs_def)
  have "sound (server_inv Oth) (forE (run_cb k (usr k)) (handleEvent_calls ch)) w"
    using channel_owner [OF inv ch]
  proof (elim disjE exE conjE)
    assume "chan_cbs ch \<subseteq> server_cbs"
    with calls show ?thesis by (intro sound_for inv sound_server_cb k) auto
  next
    fix c assume at: "server_at MAX_CONNECTION_NUMS c Oth w" and r: "\<forall>cb \<in> chan_cbs ch. refers cb = Some c"
    have "sound (server_at MAX_CONNECTION_NUMS c Oth) (forE (run_cb k (usr k)) (handleEvent_calls ch)) w"
      by (rule sound_for, rule at, rule good_sound, rule good_conn_cb [OF k]) (use calls r in auto)
    then show ?thesis by (rule sound_mono) (simp add: server_at_def)
  qed
  with ch show ?thesis by (simp add: handleEvent_def with_channel_def sound_def)
qed

lemma good_run_task:
  fixes w :: "('u, 'z) client_loop_scheme"
  assumes k: "kernel_ok k" and b: "batch lim ts Oth w" and t: "t \<in> set ts" "conn_task t" "\<not> is_send t"
  shows "good (batch lim ts Oth) (run_task k (usr k) t) w"
proof (cases t)
  case (ShutdownTask c)
  with b t have "conns w c \<noteq> None" by (force simp: batch_def)
  with ShutdownTask show ?thesis
    by (auto intro!: lift_batch [OF b] keeps_shutdown_in_loop k still.shutdown_in_loop alive.shutdown_in_loop)
next
  case (ServerCloseTask c)
  with b t good_close_task show ?thesis by simp
next
  case (TransTask st)
  with t have "st = Disconnect" by (simp add: conn_task_def)
  moreover have "isInLoopThread w" "clientState w = Disconnect"
    using b by (simp_all add: batch_def drops_def server_rest_def)
  ultimately show ?thesis using b TransTask
    by (simp add: transStateInLoop_def good_def thenE_def bindE_def assertInLoopThread_def)
qed (use t in \<open>simp_all add: conn_task_def\<close>)

lemma sound_tasks:
  fixes w :: "('u, 'z) client_loop_scheme"
  assumes k: "kernel_ok k" and inv: "serving lim Oth w"
  shows "sound (serving lim Oth) (doPendingTasks (run_task k (usr k)) (discard_task k)) w"
proof -
  let ?ts = "mPendingTasks w" and ?w = "w\<lparr>mIsDoPendingWorks := True, mPendingTasks := []\<rparr>"
  let ?run = "forE (run_task k (usr k)) ?ts" and ?dis = "forE (discard_task k) ?ts"
  have q: "\<forall>t \<in> set ?ts. conn_task t \<and> \<not> is_send t"
    using inv by (auto simp: serving_def queue_ok_def list_all_iff)
  have g: "good (batch lim ?ts Oth) ?run ?w"
    by (rule good_for, rule batch_start [OF inv], rule good_run_task [OF k]) (use q in auto)
  obtain r w1 where r: "?run ?w = (r, w1)" by fastforce
  show ?thesis
  proof (cases r)
    case (Inr u)
    with g r have "drops lim ?ts Oth (w1\<lparr>mIsDoPendingWorks := False\<rparr>)" by (simp add: good_def batch_def)
    from sound_drops [OF this] have "sound (serving lim Oth) ?dis (w1\<lparr>mIsDoPendingWorks := False\<rparr>)"
      by (rule sound_mono) (rule drops_done)
    with doPendingTasks_ok [of _ w] r Inr show ?thesis by (simp add: sound_def)
  next
    case (Inl e)
    show ?thesis
    proof (cases "fatal e")
      case True
      with r Inl g show ?thesis by (simp add: sound_def good_def doPendingTasks_def thenE_def bindE_def catchE_def)
    next
      case False
      with r Inl g have "drops lim ?ts Oth w1" by (simp add: good_def batch_def)
      from sound_drops [OF this, of k] r Inl False not_fatal_allowed [OF False] show ?thesis
        by (auto simp: sound_def doPendingTasks_def thenE_def bindE_def catchE_def split: prod.splits sum.splits)
    qed
  qed
qed

section \<open>The whole loop\<close>

lemma sound_round:
  fixes w :: "('u, 'z) client_loop_scheme"
  assumes k: "kernel_ok k" and inv: "server_inv Oth w"
  shows "sound (server_inv Oth) (loop_round k srt (run_cb k (usr k)) (run_task k (usr k)) (discard_task k)) w"
proof -
  let ?I = "server_inv Oth" and ?cb = "run_cb k (usr k)"
  let ?handle = "\<lambda>a. withE (\<lambda>w. if hasChannel (mpPoller w) a then handleEvent ?cb a else retE ())"
  let ?body = "\<lambda>active. block
     [whenE (length active = 0) (modifyE (\<lambda>w. w\<lparr>mIsLoopingNow := False\<rparr>)), forE ?handle active,
      modifyE (\<lambda>w. w\<lparr>mIsLoopingNow := False\<rparr>), doPendingTasks (run_task k (usr k)) (discard_task k)]"
  have handle: "sound ?I (?handle a) u" if u: "?I u" for a and u :: "('u, 'z) client_loop_scheme"
  proof (cases "hasChannel (mpPoller u) a")
    case True
    moreover have "net_wf u" using u by (simp add: serving_def conn_inv_def conn_wf_def)
    ultimately obtain ch where "channels u a = Some ch" by (auto simp: hasChannel_def net_wf_def)
    from sound_handleEvent [OF k u this] True show ?thesis by (simp add: sound_def)
  qed (use u in \<open>simp add: sound_def\<close>)
  have body: "sound ?I (?body active) v" if v: "?I v" for active and v :: "('u, 'z) client_loop_scheme"
    unfolding block.simps
  proof (intro sound_then [where P = ?I])
    show "sound ?I (whenE (length active = 0) (modifyE (\<lambda>w. w\<lparr>mIsLoopingNow := False\<rparr>))) v"
      using v by (intro sound_when sound_modify) simp_all
    show "sound ?I (forE ?handle active) u" if "?I u" for u using that handle by (rule sound_for)
    show "sound ?I (modifyE (\<lambda>w. w\<lparr>mIsLoopingNow := False\<rparr>)) u" if "?I u" for u using that by (intro sound_modify) simp
    show "sound ?I (doPendingTasks (run_task k (usr k)) (discard_task k)) u" if "?I u" for u using k that by (rule sound_tasks)
    show "sound ?I (retE ()) u" if "?I u" for u using that by (rule sound_ret)
  qed
  have "sound ?I (modifyE (\<lambda>w. w\<lparr>mIsLoopingNow := True\<rparr>)) w" using inv by (intro sound_modify) simp
  then show ?thesis unfolding loop_round_def
    by (rule sound_then) (rule sound_bind, rule sound_poll, assumption, rule body)
qed

lemma sound_rounds:
  fixes w :: "('u, 'z) client_loop_scheme"
  shows "\<forall>k \<in> set ks. kernel_ok k \<Longrightarrow> server_inv Oth w \<Longrightarrow>
    sound (server_inv Oth) (loop_rounds ks srt (\<lambda>k. run_cb k (usr k)) (\<lambda>k. run_task k (usr k)) discard_task) w"
proof (induction ks arbitrary: w)
  case Nil
  then show ?case by (simp add: sound_def)
next
  case (Cons k ks)
  then have "sound (server_inv Oth) (thenE (loop_round k srt (run_cb k (usr k)) (run_task k (usr k)) (discard_task k))
      (loop_rounds ks srt (\<lambda>k. run_cb k (usr k)) (\<lambda>k. run_task k (usr k)) discard_task)) w"
    by (intro sound_then [OF sound_round]) auto
  with Cons.prems show ?case by (simp add: sound_def)
qed

lemma sound_reactor:
  fixes w :: "('u, 'z) client_loop_scheme"
  assumes "\<forall>k \<in> set ks. kernel_ok k" and "server_inv Oth w"
  shows "sound (server_inv Oth) (reactor ks srt usr) w"
proof -
  have "sound (server_inv Oth) assertInLoopThread w"
    using assms(2) by (simp add: sound_def assertInLoopThread_def serving_def server_rest_def)
  then show ?thesis unfolding reactor_def startLoop_def block.simps
    by (intro sound_then [where P = "server_inv Oth"] sound_rounds assms(1) sound_ret) (simp_all add: sound_modify)
qed

end

end
