(* ===== verification/ServerStart.thy ===== *)
theory ServerStart
  imports ServerSafety
begin

text \<open>
  From a process in which nothing was made to a server that listens: the constructors of
  the event loop and of the server, and \<open>start\<close>, establish the invariant of
  \<open>ServerSafety\<close> or fail without touching a missing object.
\<close>

section \<open>A process that is starting\<close>

definition idle :: "('u, 'z) client_loop_scheme \<Rightarrow> bool" where
  "idle w \<longleftrightarrow> (\<forall>c. conns w c = None) \<and> mPendingTasks w = [] \<and> clientState w = Disconnect"

definition fresh_process :: "('u, 'z) client_loop_scheme \<Rightarrow> bool" where
  "fresh_process w \<longleftrightarrow> idle w \<and> (\<forall>a. channels w a = None)"

text \<open>The channels belong to the server, and the wakeup channel is one of them.\<close>

definition shell :: "('u, 'z) client_loop_scheme \<Rightarrow> bool" where
  "shell w \<longleftrightarrow> idle w \<and> net_wf w \<and> fds_open w \<and> mTimerMap w = []
     \<and> (\<forall>a ch. channels w a = Some ch \<longrightarrow> chan_cbs ch \<subseteq> server_cbs)
     \<and> (\<forall>a. mpWakeupChannel w = Some a \<longrightarrow> channels w a \<noteq> None)"

definition starting :: "('u, 'z) client_loop_scheme \<Rightarrow> bool" where
  "starting w \<longleftrightarrow> shell w \<and> isInLoopThread w"

lemma shell_open: "shell w \<Longrightarrow> shell (w\<lparr>openFds := fd # openFds w\<rparr>)"
  by (auto simp: shell_def idle_def fds_open_def net_wf_def)

lemma starting_open: "starting w \<Longrightarrow> starting (w\<lparr>openFds := fd # openFds w\<rparr>)"
  by (simp add: starting_def shell_open isInLoopThread_def)

lemma shell_fields [simp]:
  "shell (w\<lparr>mIsExit := b\<rparr>) = shell w" "shell (w\<lparr>mIsLoopingNow := b\<rparr>) = shell w"
  "shell (w\<lparr>mIsDoPendingWorks := b\<rparr>) = shell w" "shell (w\<lparr>epollFd := fd\<rparr>) = shell w"
  "shell (w\<lparr>mpWakeupFd := fd\<rparr>) = shell w" "shell (w\<lparr>tCurrentLoop := l\<rparr>) = shell w"
  "shell (w\<lparr>mConnectionSet := S\<rparr>) = shell w" "shell (w\<lparr>mpListenSocket := s\<rparr>) = shell w"
  "shell (w\<lparr>mpListenChannel := a\<rparr>) = shell w" "shell (w\<lparr>sIdentification := i\<rparr>) = shell w"
  "shell (w\<lparr>sConnectionCb := cb\<rparr>) = shell w" "shell (w\<lparr>sMessageCb := cb\<rparr>) = shell w"
  by (simp_all add: shell_def idle_def fds_open_def net_wf_def)

lemma starting_channel:
  assumes st: "starting w" and fd: "fd \<in> set (openFds w)" and k: "ctl_ok k"
  shows "(\<exists>a w'. Channel_create k NoCallback fd p w = (Inr a, w') \<and> starting w'
            \<and> (\<exists>ch. channels w' a = Some ch) \<and> event_loop.more w' = event_loop.more w)
       \<or> (\<exists>e w'. Channel_create k NoCallback fd p w = (Inl e, w') \<and> allowed e \<and> (fatal e \<or> starting w'))"
proof -
  have wf: "net_wf w" using st by (simp add: starting_def shell_def)
  show ?thesis
  proof (cases "create_ok k fd w")
    case True
    let ?w = "register (nextAddr w) (Channel_init NoCallback fd p) w"
    have "net_wf ?w" using net_wf_register' [OF wf le_refl] create_ok_free [OF k True] by simp
    moreover have "fds_open ?w" using st fd by (intro fds_open_register) (simp_all add: starting_def shell_def)
    moreover have "chan_cbs (Channel_init NoCallback fd p) \<subseteq> server_cbs"
      by (simp add: chan_cbs_def Channel_init_def server_cbs_def)
    ultimately have "starting ?w" using st
      by (auto simp: starting_def shell_def idle_def isInLoopThread_def register_def)
    with Channel_create_ok [OF wf True, of NoCallback p] show ?thesis by (simp add: register_def)
  next
    case False
    have "starting (w\<lparr>nextAddr := nextAddr w + 1\<rparr>)"
      using st net_wf_nextAddr [OF wf, of "nextAddr w + 1"]
      by (simp add: starting_def shell_def idle_def isInLoopThread_def fds_open_def)
    with Channel_create_fails [OF wf False, of NoCallback p] show ?thesis by auto
  qed
qed

lemma starting_callbacks:
  assumes st: "starting w" and ch: "channels w a = Some ch"
    and f: "chan_cbs (f ch) \<subseteq> server_cbs" "mFd (f ch) = mFd ch"
  shows "\<exists>w'. set_callbacks a f w = (Inr (), w') \<and> starting w' \<and> channels w' a = Some (f ch)
     \<and> event_loop.more w' = event_loop.more w"
proof -
  let ?w = "w\<lparr>channels := (channels w)(a := Some (f ch))\<rparr>"
  have "net_wf ?w" using st ch f(2) by (intro net_wf_set_channel) (auto simp: starting_def shell_def)
  with st ch f have "starting ?w"
    by (auto simp: starting_def shell_def idle_def isInLoopThread_def fds_open_def)
  with ch show ?thesis by (simp add: set_callbacks_def with_channel_def set_channel_def)
qed

lemma starting_mask:
  assumes st: "starting w" and m: "mask_step a w w'" and n: "net_wf w'"
  shows "starting w'"
proof -
  have "chan_cbs ch \<subseteq> server_cbs" if "channels w' b = Some ch" for b ch
    using mask_step_channel_back [OF m that] st by (fastforce simp: starting_def shell_def)
  moreover have "channels w' b \<noteq> None" if "channels w b \<noteq> None" for b
    using mask_step_channel [OF m] that by fastforce
  moreover have "fds_open w'" using st fds_open_mask_step [OF m] by (simp add: starting_def shell_def)
  ultimately show ?thesis using st n m
    by (auto simp: starting_def shell_def idle_def isInLoopThread_def mask_step_def)
qed

lemma starting_conn_inv: "starting w \<Longrightarrow> conn_inv {} {} (others w) w"
  by (force simp: starting_def shell_def idle_def conn_inv_def conn_wf_def server_cbs_def)

lemma starting_enable:
  assumes st: "starting w" and ch: "channels w a = Some ch"
  shows "good starting (enableRead k a) w" and "mask_step a w (snd (enableRead k a w))"
proof -
  have wf: "net_wf w" using st by (simp add: starting_def shell_def)
  show m: "mask_step a w (snd (enableRead k a w))" by (rule mask_steps(1) [OF wf])
  have "starting (snd (enableRead k a w))"
    by (rule starting_mask [OF st m preservesD [OF preserves_enableRead wf]])
  with good_mask_ops(1) [OF starting_conn_inv [OF st] ch, of k]
  show "good starting (enableRead k a) w" by (auto simp: good_def split: prod.splits sum.splits)
qed

section \<open>The event loop\<close>

lemma good_open_fd:
  "starting w \<Longrightarrow> \<not> fatal e \<Longrightarrow> good starting (bindE (open_fd f e) (\<lambda>fd. modifyE (\<lambda>w. w\<lparr>epollFd := fd\<rparr>))) w"
  by (cases "f (openFds w) < 0")
    (simp_all add: good_def bindE_def open_fd_cases not_fatal_allowed starting_open [unfolded starting_def] starting_def isInLoopThread_def)

text \<open>The wakeup descriptor and its channel.\<close>

definition make_wakeup :: "kernel \<Rightarrow> ('u, 'z, unit) timer_exec" where
  "make_wakeup k = thenE
     (bindE (open_fd (k_new_fd k) (SystemException ''[EventFd] createEventFd failed.'')) (\<lambda>fd.
        modifyE (\<lambda>w. w\<lparr>mpWakeupFd := fd\<rparr>)))
     (thenE (withE (\<lambda>w. bindE (Channel_create k NoCallback (mpWakeupFd w) Normal) (\<lambda>a. block
           [modifyE (\<lambda>w. w\<lparr>mpWakeupChannel := Some a\<rparr>),
            set_callbacks a (\<lambda>c. c\<lparr>mChannelInfo := ''Wakeup channel'', mReadCb := WakeupRead\<rparr>),
            enableRead k a]))) (retE ()))"

lemma Channel_create_cbs:
  assumes "net_wf w" and "Channel_create k nop fd p w = (Inr a, w')"
  shows "channels w' a = Some (Channel_init nop fd p)"
proof (cases "create_ok k fd w")
  case True
  with Channel_create_ok [OF assms(1) True] assms(2) show ?thesis by (auto simp: register_def)
next
  case False
  with Channel_create_fails [OF assms(1) False, of nop p] assms(2) show ?thesis by auto
qed

lemma good_wakeup:
  fixes w :: "('u, 'z) client_loop_scheme"
  assumes st: "starting w" and k: "ctl_ok k"
  shows "good starting (make_wakeup k) w"
proof (cases "k_new_fd k (openFds w) < 0")
  case True
  with st show ?thesis by (simp add: good_def make_wakeup_def thenE_def bindE_def open_fd_cases)
next
  case False
  let ?fd = "k_new_fd k (openFds w)"
  let ?w = "w\<lparr>openFds := ?fd # openFds w, mpWakeupFd := ?fd\<rparr>"
  have st1: "starting ?w" using starting_open [OF st, of ?fd] by (simp add: starting_def isInLoopThread_def)
  let ?rest = "\<lambda>a. block [modifyE (\<lambda>w. w\<lparr>mpWakeupChannel := Some a\<rparr>),
     set_callbacks a (\<lambda>c. c\<lparr>mChannelInfo := ''Wakeup channel'', mReadCb := WakeupRead\<rparr>), enableRead k a]"
  have eq: "make_wakeup k w = thenE (bindE (Channel_create k NoCallback ?fd Normal) ?rest) (retE ()) ?w"
    using False by (simp add: make_wakeup_def thenE_def bindE_def open_fd_cases)
  have "good starting (bindE (Channel_create k NoCallback ?fd Normal) ?rest) ?w"
    using starting_channel [OF st1 _ k, of ?fd Normal, simplified]
  proof (elim disjE exE conjE)
    fix a w1 ch
    assume c: "Channel_create k NoCallback ?fd Normal ?w = (Inr a, w1)" and st2: "starting w1" and "channels w1 a = Some ch"
    have wf: "net_wf ?w" using st1 by (simp add: starting_def shell_def)
    note ch = Channel_create_cbs [OF wf c]
    let ?v = "w1\<lparr>mpWakeupChannel := Some a\<rparr>"
    have st3: "starting ?v" using st2 ch
      by (auto simp: starting_def shell_def idle_def isInLoopThread_def net_wf_def fds_open_def)
    let ?f = "\<lambda>c :: 'u chan_cb channel. c\<lparr>mChannelInfo := ''Wakeup channel'', mReadCb := WakeupRead\<rparr>"
    have "\<exists>v'. set_callbacks a ?f ?v = (Inr (), v') \<and> starting v' \<and> channels v' a = Some (?f (Channel_init NoCallback ?fd Normal))
        \<and> event_loop.more v' = event_loop.more ?v"
      by (rule starting_callbacks [OF st3]) (use ch in \<open>simp_all add: chan_cbs_def Channel_init_def server_cbs_def\<close>)
    then obtain v' where v': "set_callbacks a ?f ?v = (Inr (), v')" "starting v'"
      "channels v' a = Some (?f (Channel_init NoCallback ?fd Normal))" by blast
    from starting_enable(1) [OF v'(2,3), of k] c v'(1) show ?thesis
      by (simp add: good_def bindE_def thenE_def split: prod.splits sum.splits)
  qed (auto simp: good_def bindE_def)
  then have "good starting (thenE (bindE (Channel_create k NoCallback ?fd Normal) ?rest) (retE ())) ?w"
    by (rule good_then) (simp add: good_def)
  with eq show ?thesis by (simp add: good_def)
qed

text \<open>The destruction of the members that were made, in and outside the loop's thread.\<close>

lemma sound_release_members:
  assumes sh: "shell w"
  shows "sound (\<lambda>_. True) (release_members k u) w"
proof (cases "mpWakeupChannel w")
  case None
  with sh show ?thesis
    by (simp add: release_members_def release_wakeup_channel_def TimerQueue_delete_def sound_def exec_simps close_fd_def shell_def)
next
  case (Some a)
  with sh obtain ch where ch: "channels w a = Some ch" by (auto simp: shell_def)
  have wf: "net_wf w" using sh by (simp add: shell_def)
  have ti: "mTimerMap w = []" using sh by (simp add: shell_def)
  show ?thesis
  proof (cases "destroy_ok k u ch w")
    case True
    with Some ti Channel_destroy_ok [OF wf ch True] show ?thesis
      by (simp add: release_members_def release_wakeup_channel_def TimerQueue_delete_def sound_def exec_simps
          close_fd_def unregister_def)
  next
    case False
    with Some Channel_destroy_fails [OF wf ch False] show ?thesis
      by (auto simp: release_members_def release_wakeup_channel_def sound_def exec_simps)
  qed
qed

lemma sound_EventLoop_new:
  fixes w :: "('u, 'z) client_loop_scheme"
  assumes fr: "fresh_process w" and k: "ctl_ok k"
  shows "sound starting (EventLoop_new k) w"
proof (cases "tCurrentLoop w = None")
  case False
  then show ?thesis by (auto simp: EventLoop_new_def sound_def thenE_def bindE_def)
next
  case True
  let ?w = "w\<lparr>tCurrentLoop := Some (loopId w), mpPoller := Epoller_new, mTimerMap := [],
        mpWakeupFd := -1, mpWakeupChannel := None, epollFd := -1\<rparr>"
  let ?h = "\<lambda>e. if fatal e then throwE e
             else block [whenE (is_sys e) (modifyE (\<lambda>w. w\<lparr>tCurrentLoop := None\<rparr>)), release_members k True, throwE e]"
  let ?body = "thenE (bindE (open_fd (k_new_fd k) (SystemException ''createEpoller failed.'')) (\<lambda>fd.
           modifyE (\<lambda>w. w\<lparr>epollFd := fd\<rparr>))) (make_wakeup k)"
  let ?last = "modifyE (\<lambda>w. w\<lparr>mIsExit := True, mIsLoopingNow := False, mIsDoPendingWorks := False\<rparr>)"
  have st: "starting ?w" using fr
    by (auto simp: fresh_process_def starting_def shell_def idle_def isInLoopThread_def net_wf_def fds_open_def Epoller_new_def)
  have body: "good starting ?body ?w"
    by (rule good_then [OF good_open_fd [OF st]]) (simp_all add: good_wakeup k)
  have "sound starting (catchE ?body ?h) ?w"
  proof (cases "?body ?w")
    case (Pair r v)
    show ?thesis
    proof (cases r)
      case (Inl e)
      show ?thesis
      proof (cases "fatal e")
        case True
        with body Pair Inl show ?thesis by (simp add: good_def sound_def catchE_def)
      next
        case False
        with body Pair Inl have "shell v" by (simp add: good_def starting_def)
        then have "sound (\<lambda>_. True) (release_members k True) (if is_sys e then v\<lparr>tCurrentLoop := None\<rparr> else v)"
          by (intro sound_release_members) simp
        with Pair Inl False not_fatal_allowed [OF False] show ?thesis
          by (auto simp: sound_def catchE_def thenE_def bindE_def whenE_def split: prod.splits sum.splits if_splits)
      qed
    qed (use body Pair in \<open>simp add: good_def sound_def catchE_def\<close>)
  qed
  then have "sound starting (thenE (catchE ?body ?h) (thenE ?last (retE ()))) ?w"
    by (rule sound_then) (simp add: sound_def thenE_def bindE_def starting_def isInLoopThread_def)
  with True show ?thesis
    by (simp add: EventLoop_new_def make_wakeup_def sound_def thenE_def [of "assertTrue b m" for b m] bindE_def [of "retE ()"]
        thenE_def [of "modifyE f" for f] bindE_def [of "modifyE f" for f] thenE_assoc)
qed

section \<open>The server\<close>

definition ready :: "('u, 'z) client_loop_scheme \<Rightarrow> bool" where
  "ready w \<longleftrightarrow> starting w \<and> mConnectionSet w = {}
     \<and> (\<exists>s. mpListenSocket w = Some s \<and> mIsListenSocket s \<and> mIsTCPSocket s)
     \<and> (\<exists>a. mpListenChannel w = Some a \<and> channels w a \<noteq> None)"

lemma starting_server_inv:
  assumes "starting w" and "mConnectionSet w = {}"
    and "\<exists>s. mpListenSocket w = Some s \<and> mIsListenSocket s \<and> mIsTCPSocket s"
  shows "server_inv (others w) w"
  using assms starting_conn_inv [of w]
  by (auto simp: serving_def server_rest_def starting_def shell_def idle_def queue_ok_def others_def
      chan_cbs_def split: option.splits if_splits)

lemma ready_server_inv: "ready w \<Longrightarrow> server_inv (others w) w"
  by (rule starting_server_inv) (simp_all add: ready_def)

text \<open>The part of the constructor after the socket was made; what it throws closes the socket.\<close>

definition listen_parts :: "kernel \<Rightarrow> string \<Rightarrow> socket \<Rightarrow> ('u, 'z, unit) server_exec" where
  "listen_parts k ident s = block
     [Socket_setopt k ''failed to setReuseAddr'' s,
      Socket_setopt k ''failed to setReusePort'' s,
      bindE (Channel_create k NoCallback (sFd s) Normal) (\<lambda>a. block
        [set_callbacks a (\<lambda>ch. ch\<lparr>mChannelInfo := ''Server listen in port '' @ to_dec (unat (mPort (mLocalAddr s))),
           mReadCb := ServerRead, mCloseCb := ServerFatal, mErrorCb := ServerFatal\<rparr>),
         modifyE (\<lambda>w. w\<lparr>mpListenSocket := Some s, mpListenChannel := Some a, mConnectionSet := {},
           sIdentification := ident @ addr_str (mLocalAddr s)\<rparr>)])]"

lemma sound_listen_parts:
  fixes w :: "('u, 'z) client_loop_scheme"
  assumes st: "starting w" and fd: "sFd s \<in> set (openFds w)" and k: "ctl_ok k"
    and s: "mIsListenSocket s" "mIsTCPSocket s"
  shows "sound ready (listen_parts k ident s) w"
proof -
  let ?f = "\<lambda>ch :: 'u chan_cb channel. ch\<lparr>mChannelInfo := ''Server listen in port '' @ to_dec (unat (mPort (mLocalAddr s))),
           mReadCb := ServerRead, mCloseCb := ServerFatal, mErrorCb := ServerFatal\<rparr>"
  let ?rest = "\<lambda>a. block [set_callbacks a ?f,
         modifyE (\<lambda>w. w\<lparr>mpListenSocket := Some s, mpListenChannel := Some a, mConnectionSet := {},
           sIdentification := ident @ addr_str (mLocalAddr s)\<rparr>)]"
  have "sound ready (bindE (Channel_create k NoCallback (sFd s) Normal) ?rest) w"
    using starting_channel [OF st fd k, of Normal]
  proof (elim disjE exE conjE)
    fix a w1 ch
    assume c: "Channel_create k NoCallback (sFd s) Normal w = (Inr a, w1)" and st1: "starting w1"
    have wf: "net_wf w" using st by (simp add: starting_def shell_def)
    note ch = Channel_create_cbs [OF wf c]
    have "\<exists>v. set_callbacks a ?f w1 = (Inr (), v) \<and> starting v \<and> channels v a = Some (?f (Channel_init NoCallback (sFd s) Normal))
        \<and> event_loop.more v = event_loop.more w1"
      by (rule starting_callbacks [OF st1 ch]) (simp_all add: chan_cbs_def Channel_init_def server_cbs_def)
    then obtain v where v: "set_callbacks a ?f w1 = (Inr (), v)" "starting v" "channels v a \<noteq> None" by auto
    then have "ready (v\<lparr>mpListenSocket := Some s, mpListenChannel := Some a, mConnectionSet := {},
           sIdentification := ident @ addr_str (mLocalAddr s)\<rparr>)"
      using s by (auto simp: ready_def starting_def isInLoopThread_def)
    with c v(1) show ?thesis by (simp add: sound_def bindE_def thenE_def)
  qed (auto simp: sound_def bindE_def)
  then show ?thesis
    by (auto simp: listen_parts_def Socket_setopt_def sound_def thenE_def bindE_def split: prod.splits sum.splits)
qed

lemma TcpServer_new_parts: "TcpServer_new k serverAddr n ident = block
     [assertTrue (n > 0) ''[TcpServer] maxListenQueue must bigger than 0'',
      assertInLoopThread,
      bindE (createTcpListenSocket k serverAddr n) (\<lambda>s.
        catchE (listen_parts k ident s) (\<lambda>e. if fatal e then throwE e else thenE (Socket_close s) (throwE e)))]"
  by (simp only: TcpServer_new_def listen_parts_def)

lemma sound_TcpServer_new:
  fixes w :: "('u, 'z) client_loop_scheme"
  assumes st: "starting w" and k: "ctl_ok k"
  shows "sound ready (TcpServer_new k serverAddr n ident) w"
proof (cases "n > 0 \<and> \<not> k_new_fd k (openFds w) < 0")
  case False
  then show ?thesis using st
    by (cases "n > 0") (auto simp: TcpServer_new_parts sound_def thenE_def bindE_def starting_def assertInLoopThread_def
        createTcpListenSocket_def createTcpNonblockingSocket_def open_fd_cases)
next
  case True
  let ?fd = "k_new_fd k (openFds w)"
  let ?s = "(Socket_init ?fd)\<lparr>mIsListenSocket := True, mMaxListenQueue := n, mIsTCPSocket := True,
     mIsUDPSocket := False, mLocalAddr := no_addr\<lparr>mPort := mPort serverAddr, mIpProtocol := mIpProtocol serverAddr\<rparr>\<rparr>"
  let ?w = "w\<lparr>openFds := ?fd # openFds w\<rparr>"
  have "sound ready (listen_parts k ident ?s) ?w"
    by (rule sound_listen_parts [OF starting_open [OF st] _ k]) simp_all
  then have "sound ready (catchE (listen_parts k ident ?s)
     (\<lambda>e. if fatal e then throwE e else thenE (Socket_close ?s) (throwE e))) ?w"
    by (auto simp: sound_def catchE_def thenE_def bindE_def Socket_close_def close_fd_def not_fatal_allowed
        split: prod.splits sum.splits)
  with True st show ?thesis
    by (auto simp: TcpServer_new_parts sound_def thenE_def bindE_def starting_def assertInLoopThread_def
        createTcpListenSocket_def createTcpNonblockingSocket_def open_fd_cases
        split: prod.splits sum.splits)
qed

lemma sound_TcpServer_start:
  fixes w :: "('u, 'z) client_loop_scheme"
  assumes r: "ready w"
  shows "sound ready (TcpServer_start k) w"
proof -
  from r obtain s a ch where s: "mpListenSocket w = Some s" "mIsListenSocket s" "mIsTCPSocket s"
    and a: "mpListenChannel w = Some a" "channels w a = Some ch" and st: "starting w"
    by (auto simp: ready_def)
  let ?s = "setLocalAddr k (mIpProtocol (mLocalAddr s)) s"
  let ?w = "w\<lparr>mpListenSocket := Some ?s\<rparr>"
  have kind: "mIsListenSocket ?s" "mIsTCPSocket ?s" using s by (simp_all add: setLocalAddr_def split: option.split)
  have st1: "starting ?w" using st by (simp add: starting_def isInLoopThread_def)
  obtain q v where q: "enableRead k a ?w = (q, v)" by fastforce
  have m: "mask_step a ?w v" using starting_enable(2) [OF st1, of a ch k] a q by simp
  have "ready v" if "starting v"
    using that mask_step_channel [OF m, of a ch] a r m kind by (auto simp: ready_def mask_step_def)
  then have en: "sound ready (enableRead k a) ?w"
    using starting_enable(1) [OF st1, of a ch k] a q by (auto simp: sound_def good_def split: sum.splits)
  have "TcpServer_start k w = (if k_bind k (sFd s) \<noteq> 0 then (Inl (Terminate ''bind error''), w)
     else if k_listen k (sFd s) \<noteq> 0 then (Inl (Terminate ''listen error''), w)
     else thenE (enableRead k a) (retE ()) ?w)"
    using s a st by (simp add: TcpServer_start_def thenE_def bindE_def assertInLoopThread_def starting_def
        with_listen_def Socket_listen_def)
  with sound_then [OF en, of ready "retE ()"] show ?thesis by (auto simp: sound_def)
qed

end
