(* ===== verification/HttpCommon.thy ===== *)
theory HttpCommon
  imports CppStd Decimal
begin

text \<open>
  The vocabulary of HTTP (\<open>include/http/HttpCommon.h\<close>): methods, versions, status codes,
  content types, character sets and encodings, with their texts. The overloads of
  \<open>to_cstr\<close> get a name each. Several enumerations have an \<open>UNKNOWN\<close>; its type's
  name tells them apart.
\<close>

section \<open>Methods and versions\<close>

datatype RequestType = UNKNOWN | GET | POST | PUT | DELETE

fun request_type_cstr :: "RequestType \<Rightarrow> string" where
  "request_type_cstr GET = ''GET''"
| "request_type_cstr POST = ''POST''"
| "request_type_cstr PUT = ''PUT''"
| "request_type_cstr DELETE = ''DELETE''"
| "request_type_cstr RequestType.UNKNOWN = ''UNKNOWN''"

datatype Version = UNKNOWN | HTTP1_0 | HTTP1_1 | HTTP3_0

fun version_cstr :: "Version \<Rightarrow> string" where
  "version_cstr HTTP1_0 = ''HTTP/1.0''"
| "version_cstr HTTP1_1 = ''HTTP/1.1''"
| "version_cstr _ = ''UNKNOWN''"

section \<open>Status codes\<close>

datatype StatusCode = UNKNOWN | OK | PARTIAL_CONTENT | MOVED_PERMANENTLY | BAD_REQUEST | UNAUTHORIZED
  | FORBIDDEN | NOT_FOUND | INTERNAL_SERVER_ERROR | METHOD_NOT_IMPLEMENTED | HTTP_VERSION_NO_SUPPORT

fun to_unsigned :: "StatusCode \<Rightarrow> nat" where
  "to_unsigned StatusCode.UNKNOWN = 0"
| "to_unsigned OK = 200"
| "to_unsigned PARTIAL_CONTENT = 206"
| "to_unsigned MOVED_PERMANENTLY = 301"
| "to_unsigned BAD_REQUEST = 400"
| "to_unsigned UNAUTHORIZED = 401"
| "to_unsigned FORBIDDEN = 403"
| "to_unsigned NOT_FOUND = 404"
| "to_unsigned INTERNAL_SERVER_ERROR = 500"
| "to_unsigned METHOD_NOT_IMPLEMENTED = 501"
| "to_unsigned HTTP_VERSION_NO_SUPPORT = 505"

fun status_cstr :: "StatusCode \<Rightarrow> string" where
  "status_cstr OK = ''200 OK''"
| "status_cstr PARTIAL_CONTENT = ''206 Partial Content''"
| "status_cstr MOVED_PERMANENTLY = ''301 Moved Permanently''"
| "status_cstr BAD_REQUEST = ''400 Bad Request''"
| "status_cstr FORBIDDEN = ''403 Forbindden''"
| "status_cstr NOT_FOUND = ''404 Not Found''"
| "status_cstr INTERNAL_SERVER_ERROR = ''500 Internal Server Error''"
| "status_cstr METHOD_NOT_IMPLEMENTED = ''501 Method Not Implemented''"
| "status_cstr _ = ''UNKNOWN''"

section \<open>Content types\<close>

datatype ContentType = UNKNOWN | BINARY | PLAIN | HTML | CSS | JAVASCRIPT | XML | JSON | JPEG | PNG | GIF
  | ICON | MP4 | MPG

fun content_type_cstr :: "ContentType \<Rightarrow> string" where
  "content_type_cstr BINARY = ''application/octet-stream''"
| "content_type_cstr PLAIN = ''text/plain''"
| "content_type_cstr HTML = ''text/html''"
| "content_type_cstr CSS = ''text/css''"
| "content_type_cstr JAVASCRIPT = ''application/x-javascript''"
| "content_type_cstr XML = ''application/xml''"
| "content_type_cstr JSON = ''application/json''"
| "content_type_cstr JPEG = ''image/jpeg''"
| "content_type_cstr PNG = ''image/png''"
| "content_type_cstr GIF = ''image/gif''"
| "content_type_cstr ICON = ''application/x-ico''"
| "content_type_cstr MP4 = ''video/mpeg4''"
| "content_type_cstr MPG = ''video/mpg''"
| "content_type_cstr ContentType.UNKNOWN = ''UNKNOWN''"

definition Str2ContentType :: "string \<Rightarrow> ContentType option" where
  "Str2ContentType = map_of
    [(''.html'', HTML), (''.jpg'', JPEG), (''.png'', PNG), (''.txt'', PLAIN), (''.js'', JAVASCRIPT),
     (''.json'', JSON), (''.xml'', XML), (''.mp4'', MP4), (''.ico'', ICON), (''.css'', CSS),
     (''.mpeg'', MPG), (''.mpg'', MPG)]"

section \<open>Character sets and encodings\<close>

datatype CharSet = UNKNOWN | UTF_8 | UTF_16 | UTF_32

fun charset_cstr :: "CharSet \<Rightarrow> string" where
  "charset_cstr UTF_8 = ''charset=UTF-8''"
| "charset_cstr UTF_16 = ''charset=UTF-16''"
| "charset_cstr UTF_32 = ''charset=UTF-32''"
| "charset_cstr CharSet.UNKNOWN = ''UNKNOWN''"

datatype EncodingType = NO_ENCODING | GZIP | COMPRESS | DEFLATE | BR

fun encoding_cstr :: "EncodingType \<Rightarrow> string" where
  "encoding_cstr BR = ''br''"
| "encoding_cstr GZIP = ''gzip''"
| "encoding_cstr COMPRESS = ''compress''"
| "encoding_cstr DEFLATE = ''deflate''"
| "encoding_cstr NO_ENCODING = ''No encoding''"

text \<open>Line ends: \<open>CRLF\<close> and \<open>BLANK_LINE\<close> of \<open>src/http/HttpRequest.cpp\<close>.\<close>

definition CRLF :: string where "CRLF = [CHR 0x0D, CHR 0x0A]"

definition BLANK_LINE :: string where "BLANK_LINE = [CHR 0x0D, CHR 0x0A, CHR 0x0D, CHR 0x0A]"

lemma length_CRLF [simp]: "length CRLF = 2"
  by (simp add: CRLF_def)

lemma BLANK_LINE_CRLF: "BLANK_LINE = CRLF @ CRLF"
  by (simp add: BLANK_LINE_def CRLF_def)

text \<open>A decimal number with its sign, as \<open>std::to_string\<close> and \<open>fmt\<close> print it.\<close>

definition int_to_dec :: "int \<Rightarrow> string" where
  "int_to_dec i = (if i < 0 then ''-'' else []) @ to_dec (nat \<bar>i\<bar>)"

end
