(* ===== verification/HttpRequest.thy ===== *)
theory HttpRequest
  imports HttpCommon StringHelper
begin

text \<open>
  The parser of requests (\<open>include/http/HttpRequest.h\<close>, \<open>src/http/HttpRequest.cpp\<close>).
  The two static functions fill the request they get by reference: they are statements on
  it. What they use of the standard library is here too: \<open>std::from_chars\<close>,
  \<open>std::stoll\<close>, and \<open>std::regex_match\<close> for the two patterns of the code.
\<close>

record http_request =
  mUrl :: string
  mHost :: string
  mQueryParameters :: string
  mType :: RequestType
  mVersion :: Version
  mContentType :: ContentType
  mContentLength :: int
  mRanges :: "(int \<times> int) list"
  mIsKeepAlive :: bool
  mAcceptEncodings :: "EncodingType list"
  mHeaders :: "string \<Rightarrow> string option"
  mBody :: string
  mRawRequest :: string
  mRequestSize :: int

definition HttpRequest_new :: http_request where
  "HttpRequest_new = \<lparr>mUrl = [], mHost = [], mQueryParameters = [], mType = RequestType.UNKNOWN,
     mVersion = Version.UNKNOWN, mContentType = ContentType.UNKNOWN, mContentLength = -1, mRanges = [],
     mIsKeepAlive = False, mAcceptEncodings = [], mHeaders = Map.empty, mBody = [], mRawRequest = [],
     mRequestSize = -1\<rparr>"

type_synonym 'a req_exec = "(failure, http_request, 'a) exec"

section \<open>Numbers and patterns of the standard library\<close>

definition INT64_MAX :: int where "INT64_MAX = 2 ^ 63 - 1"

text \<open>
  \<open>std::from_chars\<close> into an \<open>int64_t\<close>: an optional minus sign and the longest run of
  digits. Without digits the error is \<open>invalid_argument\<close>; a number out of range leaves
  the target alone, with another error.
\<close>

datatype from_chars_result = InvalidArg | RangeError | Parsed int

definition from_chars :: "string \<Rightarrow> from_chars_result" where
  "from_chars s =
     (let neg = (s \<noteq> [] \<and> hd s = CHR ''-'');
          ds = takeWhile is_digit (if neg then tl s else s);
          v = (if neg then - int (dec_val ds) else int (dec_val ds)) in
      if ds = [] then InvalidArg
      else if v < - INT64_MAX - 1 \<or> v > INT64_MAX then RangeError
      else Parsed v)"

text \<open>\<open>std::stoll\<close> of a non-empty run of digits.\<close>

definition stoll_digits :: "string \<Rightarrow> failure + int" where
  "stoll_digits ds = (if int (dec_val ds) > INT64_MAX then Inl OutOfRange else Inr (int (dec_val ds)))"

definition is_space :: "char \<Rightarrow> bool" where
  "is_space c \<longleftrightarrow> c = CHR '' '' \<or> (9 \<le> (of_char c :: nat) \<and> (of_char c :: nat) \<le> 13)"

text \<open>The pattern \<open>bytes=(.*)\<close>; a dot matches no line end.\<close>

definition match_range_header :: "string \<Rightarrow> string option" where
  "match_range_header s =
     (let body = drop 6 s in
      if take 6 s = ''bytes='' \<and> list_all (\<lambda>c. c \<noteq> CHR 0x0A \<and> c \<noteq> CHR 0x0D) body then Some body else None)"

text \<open>The pattern \<open>\s*(\d*)-(\d*)\<close>.\<close>

definition match_range :: "string \<Rightarrow> (string \<times> string) option" where
  "match_range s =
     (let s1 = dropWhile is_space s; ds = takeWhile is_digit s1; s2 = dropWhile is_digit s1 in
      if s2 \<noteq> [] \<and> hd s2 = CHR ''-'' \<and> list_all is_digit (tl s2) then Some (ds, tl s2) else None)"

section \<open>The request line\<close>

text \<open>
  The lambda \<open>parser\<close>. A part of the line is taken by position and length, both
  \<open>std::size_t\<close>: when its end lies before its start the length wraps. The string
  constructor then throws \<open>length_error\<close>, and \<open>strip\<close> of such a view reads far
  outside the line.
\<close>

definition parse_query :: "string \<Rightarrow> nat \<Rightarrow> nat \<Rightarrow> unit req_exec" where
  "parse_query line b e = (if e < b then throwE LengthError
     else modifyE (\<lambda>r. r\<lparr>mQueryParameters := take (e - b) (drop b line)\<rparr>))"

definition parse_url :: "string \<Rightarrow> nat \<Rightarrow> nat \<Rightarrow> unit req_exec" where
  "parse_url line b e = (if e < b then throwE (Undefined ''strip reads outside the request line'')
     else modifyE (\<lambda>r. r\<lparr>mUrl := strip (take (e - b) (drop b line))\<rparr>))"

definition parse_version :: "string \<Rightarrow> Version option" where
  "parse_version line =
     (if sv_find line ''HTTP/1.1'' 0 \<noteq> None then Some HTTP1_1
      else if sv_find line ''HTTP/1.0'' 0 \<noteq> None then Some HTTP1_0
      else None)"

definition start_line_parser :: "string \<Rightarrow> bool req_exec" where
  "start_line_parser line = (case parse_version line of
     None \<Rightarrow> retE False
   | Some v \<Rightarrow> thenE (modifyE (\<lambda>r. r\<lparr>mVersion := v\<rparr>))
      (case sv_find line ''/'' 0 of
         None \<Rightarrow> retE False
       | Some url_start \<Rightarrow>
          (case sv_find line ''HTTP'' 0 of
             None \<Rightarrow> retE False
           | Some http \<Rightarrow>
              (case sv_find line ''?'' 0 of
                 None \<Rightarrow> thenE (parse_url line (url_start + 1) http) (retE True)
               | Some url_end \<Rightarrow> thenE (parse_query line url_end http)
                   (thenE (parse_url line (url_start + 1) url_end) (retE True))))))"

definition parseStartLine :: "string \<Rightarrow> bool req_exec" where
  "parseStartLine line =
     (if line = [] then retE False
      else if sv_find line ''GET'' 0 \<noteq> None then
        thenE (modifyE (\<lambda>r. r\<lparr>mType := GET\<rparr>)) (start_line_parser line)
      else if sv_find line ''POST'' 0 \<noteq> None then
        thenE (modifyE (\<lambda>r. r\<lparr>mType := POST\<rparr>)) (start_line_parser line)
      else retE False)"

section \<open>The headers\<close>

definition to_encoding_type :: "string \<Rightarrow> EncodingType" where
  "to_encoding_type t =
     (if t = encoding_cstr GZIP then GZIP
      else if t = encoding_cstr BR then BR
      else if t = encoding_cstr DEFLATE then DEFLATE
      else NO_ENCODING)"

definition to_content_type :: "string \<Rightarrow> ContentType" where
  "to_content_type t =
     (if t = content_type_cstr HTML then HTML
      else if t = content_type_cstr JSON then JSON
      else if t = content_type_cstr JPEG then JPEG
      else if t = content_type_cstr PNG then PNG
      else if t = content_type_cstr GIF then GIF
      else if t = content_type_cstr PLAIN then PLAIN
      else ContentType.UNKNOWN)"

text \<open>One line of the headers; the first of two headers with the same name stays.\<close>

definition add_header :: "string \<Rightarrow> (string \<Rightarrow> string option) \<Rightarrow> (string \<Rightarrow> string option)" where
  "add_header line hs = (case sv_find line '':'' 0 of
     None \<Rightarrow> hs
   | Some d \<Rightarrow> (case hs (take d line) of
        None \<Rightarrow> hs(take d line := Some (strip (drop (d + 1) line)))
      | Some _ \<Rightarrow> hs))"

function header_lines :: "string \<Rightarrow> nat \<Rightarrow> (string \<Rightarrow> string option) \<Rightarrow> (string \<Rightarrow> string option)" where
  "header_lines headers start_pos hs = (case sv_find headers CRLF start_pos of
     None \<Rightarrow> hs
   | Some end_pos \<Rightarrow> header_lines headers (end_pos + 2)
       (add_header (take (end_pos - start_pos) (drop start_pos headers)) hs))"
  by pat_completeness auto

termination header_lines
proof (relation "measure (\<lambda>(headers, start_pos, hs). length headers - start_pos)", goal_cases)
  case 1
  show ?case by simp
next
  case (2 headers start_pos hs end_pos)
  from sv_find_Some(1,2) [OF 2] show ?case by simp
qed

declare header_lines.simps [simp del]

definition set_host :: "unit req_exec" where
  "set_host = modifyE (\<lambda>r. case mHeaders r ''Host'' of None \<Rightarrow> r | Some v \<Rightarrow> r\<lparr>mHost := v\<rparr>)"

definition set_keep_alive :: "unit req_exec" where
  "set_keep_alive = modifyE (\<lambda>r. if mHeaders r ''Connections'' = Some ''keep-alive'' then r\<lparr>mIsKeepAlive := True\<rparr> else r)"

definition set_encodings :: "unit req_exec" where
  "set_encodings = withE (\<lambda>r. case mHeaders r ''Accept-Encoding'' of
     None \<Rightarrow> retE ()
   | Some v \<Rightarrow> (case split v '','' of
        None \<Rightarrow> throwE Hang
      | Some fs \<Rightarrow> modifyE (\<lambda>r. r\<lparr>mAcceptEncodings := mAcceptEncodings r @ map (\<lambda>f. to_encoding_type (strip f)) fs\<rparr>)))"

definition set_content_info :: "bool req_exec" where
  "set_content_info = withE (\<lambda>r.
     if mType r = GET then retE True
     else case mHeaders r ''Content-Type'' of
       None \<Rightarrow> retE True
     | Some value \<Rightarrow>
        if to_content_type value = ContentType.UNKNOWN then retE False
        else thenE (modifyE (\<lambda>r. r\<lparr>mContentType := to_content_type value\<rparr>))
          (case mHeaders r ''Content-Length'' of
             None \<Rightarrow> retE True
           | Some len \<Rightarrow> (case from_chars len of
                InvalidArg \<Rightarrow> retE False
              | RangeError \<Rightarrow> retE True
              | Parsed n \<Rightarrow> thenE (modifyE (\<lambda>r. r\<lparr>mContentLength := n\<rparr>)) (retE True))))"

definition add_range :: "string \<Rightarrow> unit req_exec" where
  "add_range cur_range = (case match_range (c_str cur_range) of
     None \<Rightarrow> retE ()
   | Some (a, b) \<Rightarrow>
      bindE (if a = [] then retE 0 else liftE (stoll_digits a)) (\<lambda>first.
      bindE (if b = [] then retE (-1) else liftE (stoll_digits b)) (\<lambda>second.
        modifyE (\<lambda>r. r\<lparr>mRanges := mRanges r @ [(first, second)]\<rparr>))))"

definition set_ranges :: "unit req_exec" where
  "set_ranges = withE (\<lambda>r. case mHeaders r ''Range'' of
     None \<Rightarrow> retE ()
   | Some value \<Rightarrow> (case match_range_header (c_str value) of
        None \<Rightarrow> retE ()
      | Some range_str \<Rightarrow> (case split range_str '','' of
           None \<Rightarrow> throwE Hang
         | Some ranges \<Rightarrow> forE add_range ranges)))"

definition parseHeaders :: "string \<Rightarrow> bool req_exec" where
  "parseHeaders headers =
     (if headers = [] then retE True
      else thenE (block
        [modifyE (\<lambda>r. r\<lparr>mHeaders := header_lines headers 0 (mHeaders r)\<rparr>),
         set_host, set_keep_alive, set_encodings])
        (bindE set_content_info (\<lambda>ok.
           if \<not> ok then retE False else thenE set_ranges (retE True))))"

section \<open>The whole request\<close>

definition bad_request :: "string \<Rightarrow> 'a req_exec" where
  "bad_request msg = throwE (RequestError msg BadRequest)"

definition parse_body :: "string \<Rightarrow> nat \<Rightarrow> unit req_exec" where
  "parse_body raw start_pos = withE (\<lambda>r.
     if mType r \<noteq> GET \<and> int (length raw - start_pos) \<noteq> mContentLength r mod 2 ^ 64
     then throwE (RequestError ''[parseHttpRequest] parse body failed.'' PartialPacket)
     else modifyE (\<lambda>r. r\<lparr>mBody := drop start_pos raw, mRequestSize := int (length raw)\<rparr>))"

definition parse_request :: "string \<Rightarrow> unit req_exec" where
  "parse_request raw = (case sv_find raw CRLF 0 of
     None \<Rightarrow> bad_request ''[parseHttpRequest] parse failed.''
   | Some line_end \<Rightarrow> bindE (parseStartLine (take line_end raw)) (\<lambda>ok.
       if \<not> ok then bad_request ''[parseHttpRequest] parse request failed.''
       else case sv_find raw BLANK_LINE (line_end + 2) of
         None \<Rightarrow> bad_request ''[parseHttpRequest] parse header failed. BLANK_LINE not found''
       | Some blank \<Rightarrow>
          bindE (parseHeaders (take (blank + 2 - (line_end + 2)) (drop (line_end + 2) raw))) (\<lambda>ok.
            if \<not> ok then bad_request ''[parseHttpRequest] parse header failed.''
            else parse_body raw (blank + 4))))"

definition parseHttpRequest :: "string \<Rightarrow> failure + http_request" where
  "parseHttpRequest raw = (case parse_request raw HttpRequest_new of
     (Inl e, _) \<Rightarrow> Inl e | (Inr _, r) \<Rightarrow> Inr r)"

end
