(* ===== verification/HttpProofs.thy ===== *)
theory HttpProofs
  imports HttpRequest
begin

text \<open>
  What the parser of requests computes: searching in a concatenation, the request line, the
  header lines, and the round trip from a printed request.
\<close>

section \<open>Searching in a concatenation\<close>

lemma find_at_shift: "find_at pat xs (d + i) = map_option (\<lambda>j. d + j) (find_at pat xs i)"
proof (induction pat xs i rule: find_at.induct)
  case (1 pat i)
  show ?case by simp
next
  case (2 pat c cs i)
  then show ?case by (cases "take (length pat) (c # cs) = pat") simp_all
qed

lemma sv_find_prefix:
  "sv_find (p @ s) pat (length p + i) = map_option (\<lambda>j. length p + j) (sv_find s pat i)"
  by (simp add: sv_find_def find_at_shift)

lemma sv_find_prefix0: "sv_find (p @ s) pat (length p) = map_option (\<lambda>j. length p + j) (sv_find s pat 0)"
  using sv_find_prefix [of p s pat 0] by simp

lemma find_at_ge: "find_at pat xs i = Some j \<Longrightarrow> i \<le> j"
  using find_at_Some by blast

text \<open>The first occurrence is the one before which there is none.\<close>

lemma find_at_first:
  assumes "take (length pat) (drop n xs) = pat" and "n \<le> length xs"
    and "\<And>k. k < n \<Longrightarrow> take (length pat) (drop k xs) \<noteq> pat"
  shows "find_at pat xs i = Some (i + n)"
proof (cases "find_at pat xs i")
  case None
  from find_at_None [OF None assms(1,2)] show ?thesis by simp
next
  case (Some j)
  note f = find_at_Some [OF Some]
  then have le: "i \<le> j" and at: "take (length pat) (drop (j - i) xs) = pat" by auto
  have "\<not> j - i < n" using assms(3) [of "j - i"] at by blast
  moreover have "\<not> n < j - i"
  proof
    assume "n < j - i"
    then have "i \<le> i + n \<and> i + n < j" by simp
    with f have "take (length pat) (drop (i + n - i) xs) \<noteq> pat" by blast
    with assms(1) show False by simp
  qed
  ultimately show ?thesis using Some le by simp
qed

lemma sv_find_first:
  assumes "take (length pat) (drop n s) = pat" and "n \<le> length s"
    and "\<And>k. k < n \<Longrightarrow> take (length pat) (drop k s) \<noteq> pat"
  shows "sv_find s pat 0 = Some n"
  using find_at_first [OF assms, where i = 0] by (simp add: sv_find_def)

text \<open>A pattern whose first character is not in the text before it.\<close>

lemma sv_find_after:
  assumes "hd pat \<notin> set a" and "pat \<noteq> []"
  shows "sv_find (a @ pat @ b) pat 0 = Some (length a)"
proof (rule sv_find_first)
  fix k assume k: "k < length a"
  show "take (length pat) (drop k (a @ pat @ b)) \<noteq> pat"
  proof
    assume "take (length pat) (drop k (a @ pat @ b)) = pat"
    then have "hd pat = hd (drop k (a @ pat @ b))" using assms(2) by (metis hd_take length_greater_0_conv)
    also have "\<dots> = a ! k" using k by (simp add: hd_drop_conv_nth nth_append)
    finally show False using assms(1) k by (metis nth_mem)
  qed
qed simp_all

lemma sv_find_char: "c \<notin> set a \<Longrightarrow> sv_find (a @ c # b) [c] 0 = Some (length a)"
  using sv_find_after [of "[c]" a b] by simp

lemma sv_find_char_None: "c \<notin> set a \<Longrightarrow> sv_find a [c] 0 = None"
proof (rule ccontr)
  assume c: "c \<notin> set a" and "sv_find a [c] 0 \<noteq> None"
  then obtain j where j: "sv_find a [c] 0 = Some j" by auto
  note f = sv_find_Some [OF j]
  from f(2) have "j < length a" by simp
  moreover from f(2,3) have "a ! j = c" by (simp add: take_Suc_conv_app_nth hd_drop_conv_nth [symmetric] take_Suc)
  ultimately show False using c by (metis nth_mem)
qed

text \<open>A pattern behind a separator that is not part of it.\<close>

lemma sv_find_after_sep:
  assumes none: "sv_find a pat 0 = None" and sep: "c \<notin> set pat" and ne: "pat \<noteq> []"
  shows "sv_find (a @ c # pat @ b) pat 0 = Some (length a + 1)"
proof (rule sv_find_first)
  fix k assume k: "k < length a + 1"
  show "take (length pat) (drop k (a @ c # pat @ b)) \<noteq> pat"
  proof
    assume eq: "take (length pat) (drop k (a @ c # pat @ b)) = pat"
    show False
    proof (cases "k + length pat \<le> length a")
      case True
      then have "take (length pat) (drop k (a @ c # pat @ b)) = take (length pat) (drop k a)" by simp
      with eq have "take (length pat) (drop k a) = pat" by simp
      moreover have "take (length pat) (drop k a) \<noteq> pat"
        by (rule sv_find_None [OF none]) (use True in simp_all)
      ultimately show False by simp
    next
      case False
      then have i: "length a - k < length pat" using ne k by auto
      have "pat ! (length a - k) = take (length pat) (drop k (a @ c # pat @ b)) ! (length a - k)" using eq by simp
      also have "\<dots> = drop k (a @ c # pat @ b) ! (length a - k)" using i by (rule nth_take)
      also have "\<dots> = (a @ c # pat @ b) ! (k + (length a - k))" using k by (intro nth_drop) simp
      also have "\<dots> = (a @ c # pat @ b) ! length a" using k by simp
      also have "\<dots> = c" by simp
      finally have "c \<in> set pat" using i by (metis nth_mem)
      with sep show False by simp
    qed
  qed
qed simp_all

text \<open>A pattern that is there is found.\<close>

lemma sv_find_mem: "sv_find (a @ pat @ b) pat 0 \<noteq> None"
proof
  assume "sv_find (a @ pat @ b) pat 0 = None"
  from sv_find_None [OF this, of "length a"] show False by simp
qed

text \<open>Finding is stable under more text behind.\<close>

lemma sv_find_extend: "sv_find s pat 0 = Some j \<Longrightarrow> sv_find (s @ t) pat 0 = Some j"
proof -
  assume s: "sv_find s pat 0 = Some j"
  note f = sv_find_Some [OF s]
  show ?thesis
  proof (rule sv_find_first)
    show "take (length pat) (drop j (s @ t)) = pat" using f(2,3) by simp
    show "j \<le> length (s @ t)" using f(2) by simp
    fix k assume k: "k < j"
    with f(2) have "length pat \<le> length s - k" by simp
    then have "take (length pat) (drop k (s @ t)) = take (length pat) (drop k s)" by simp
    moreover have "take (length pat) (drop k s) \<noteq> pat" using k by (intro f(4)) simp_all
    ultimately show "take (length pat) (drop k (s @ t)) \<noteq> pat" by metis
  qed
qed

section \<open>The request line\<close>

text \<open>A request line as a client prints it; the query, if any, starts with a question mark.\<close>

definition print_line :: "RequestType \<Rightarrow> string \<Rightarrow> string \<Rightarrow> Version \<Rightarrow> string" where
  "print_line m url query v = request_type_cstr m @ '' /'' @ url @ query @ '' '' @ version_cstr v"

definition line_ok :: "RequestType \<Rightarrow> string \<Rightarrow> string \<Rightarrow> Version \<Rightarrow> bool" where
  "line_ok m url query v \<longleftrightarrow> m \<in> {GET, POST} \<and> v \<in> {HTTP1_0, HTTP1_1}
     \<and> (query = [] \<or> hd query = CHR ''?'') \<and> CHR ''?'' \<notin> set url \<and> trim url = url
     \<and> sv_find (request_type_cstr m @ '' /'' @ url @ query) ''HTTP'' 0 = None
     \<and> (m = POST \<longrightarrow> sv_find (print_line m url query v) ''GET'' 0 = None)"

lemma http_found:
  assumes "sv_find a ''HTTP'' 0 = None"
  shows "sv_find (a @ '' HTTP'' @ b) ''HTTP'' 0 = Some (length a + 1)"
  using sv_find_after_sep [OF assms, of "CHR '' ''" b] by simp

lemma version_found:
  assumes a: "sv_find a ''HTTP'' 0 = None" and v: "v \<in> {HTTP1_0, HTTP1_1}"
  shows "parse_version (a @ '' '' @ version_cstr v) = Some v"
proof (cases "v = HTTP1_1")
  case True
  have "sv_find ((a @ '' '') @ ''HTTP/1.1'' @ []) ''HTTP/1.1'' 0 \<noteq> None" by (rule sv_find_mem)
  with True show ?thesis by (simp add: parse_version_def)
next
  case False
  with v have v0: "v = HTTP1_0" by simp
  let ?line = "a @ '' HTTP'' @ ''/1.0''"
  have "sv_find ?line ''HTTP/1.1'' 0 = None"
  proof (rule ccontr)
    assume "sv_find ?line ''HTTP/1.1'' 0 \<noteq> None"
    then obtain j where "sv_find ?line ''HTTP/1.1'' 0 = Some j" by auto
    note j = sv_find_Some [OF this]
    have l8: "length ''HTTP/1.1'' = 8" by simp
    have eq: "take 8 (drop j ?line) = ''HTTP/1.1''" using j(3) unfolding l8 .
    have "take 4 (drop j ?line) = take 4 (take 8 (drop j ?line))" by (simp only: take_take) simp
    also have "\<dots> = ''HTTP''" unfolding eq by simp
    finally have h4: "take 4 (drop j ?line) = ''HTTP''" .
    have l4: "length ''HTTP'' = 4" by simp
    have "take (length ''HTTP'') (drop j ?line) = ''HTTP''" unfolding l4 by (rule h4)
    with sv_find_Some(4) [OF http_found [OF a, of "''/1.0''"], of j] have "length a + 1 \<le> j" by (meson le0 not_less)
    moreover have "j \<le> length a + 1" using j(2) by simp
    ultimately have "j = length a + 1" by simp
    with eq show False by simp
  qed
  moreover have "sv_find ((a @ '' '') @ ''HTTP/1.0'' @ []) ''HTTP/1.0'' 0 \<noteq> None" by (rule sv_find_mem)
  ultimately show ?thesis using v0 by (simp add: parse_version_def)
qed

lemma slash_found:
  "m \<in> {GET, POST} \<Longrightarrow> sv_find (request_type_cstr m @ '' /'' @ rest) ''/'' 0 = Some (length (request_type_cstr m) + 1)"
  using sv_find_char [of "CHR ''/''" "request_type_cstr m @ '' ''" rest] by auto

text \<open>
  The parser of a printed line. The query keeps its question mark and gains the space
  before the version.
\<close>

lemma start_line_printed:
  assumes ok: "line_ok m url query v"
  shows "start_line_parser (print_line m url query v) r =
    (Inr True, r\<lparr>mVersion := v, mQueryParameters := (if query = [] then mQueryParameters r else query @ '' ''), mUrl := url\<rparr>)"
proof -
  let ?m = "request_type_cstr m"
  let ?a = "?m @ '' /'' @ url @ query"
  let ?line = "print_line m url query v"
  have m: "m \<in> {GET, POST}" and v: "v \<in> {HTTP1_0, HTTP1_1}" and t: "trim url = url"
    and q: "CHR ''?'' \<notin> set url" and none: "sv_find ?a ''HTTP'' 0 = None"
    using ok by (auto simp: line_ok_def)
  have ln: "?line = ?a @ '' '' @ version_cstr v" by (simp add: print_line_def)
  have ver: "parse_version ?line = Some v" unfolding ln by (rule version_found [OF none v])
  have sl: "sv_find ?line ''/'' 0 = Some (length ?m + 1)"
    using slash_found [OF m, of "url @ query @ '' '' @ version_cstr v"] by (simp add: print_line_def)
  obtain tl where vt: "version_cstr v = ''HTTP'' @ tl" using v by auto
  have http: "sv_find ?line ''HTTP'' 0 = Some (length ?a + 1)"
    using http_found [OF none, of tl] unfolding ln vt by simp
  define line where "line = ?line"
  define h where "h = length ?a + 1"
  define u where "u = length ?m + 2"
  note facts = ver [folded line_def] sl [folded line_def] http [folded line_def h_def]
  show ?thesis
  proof (cases query)
    case Nil
    have "CHR ''?'' \<notin> set ?line" using m v q by (auto simp: print_line_def Nil)
    then have nq: "sv_find line ''?'' 0 = None" unfolding line_def by (rule sv_find_char_None)
    have le: "\<not> h < Suc (Suc (length ?m))" by (simp add: h_def)
    have "take (h - Suc (Suc (length ?m))) (drop (Suc (Suc (length ?m))) line) = url @ '' ''"
      by (simp add: print_line_def Nil line_def h_def)
    then have s: "strip (take (h - Suc (Suc (length ?m))) (drop (Suc (Suc (length ?m))) line)) = url"
      using t by (simp add: strip_trim trim_space_back)
    have "start_line_parser line r = (Inr True, r\<lparr>mVersion := v, mUrl := url\<rparr>)"
      by (simp add: start_line_parser_def facts nq parse_url_def exec_simps le s)
    with Nil show ?thesis by (simp add: line_def)
  next
    case (Cons c query')
    then have c: "query = CHR ''?'' # query'" using ok by (simp add: line_ok_def)
    define e where "e = u + length url"
    have "CHR ''?'' \<notin> set (?m @ '' /'' @ url)" using m q by auto
    from sv_find_char [OF this, of "query' @ '' '' @ version_cstr v"]
    have nq: "sv_find line ''?'' 0 = Some e" by (simp add: print_line_def c line_def e_def u_def)
    have q2: "take (h - e) (drop e line) = query @ '' ''"
      by (simp add: print_line_def c line_def e_def u_def h_def)
    have le: "\<not> e < Suc (Suc (length ?m))" "\<not> h < e" by (simp_all add: e_def u_def h_def)
    have "take (e - Suc (Suc (length ?m))) (drop (Suc (Suc (length ?m))) line) = url"
      by (simp add: print_line_def line_def e_def u_def)
    then have s: "strip (take (e - Suc (Suc (length ?m))) (drop (Suc (Suc (length ?m))) line)) = url"
      using t by (simp add: strip_trim)
    have "start_line_parser line r = (Inr True, r\<lparr>mVersion := v, mQueryParameters := query @ '' '', mUrl := url\<rparr>)"
      by (simp add: start_line_parser_def facts nq parse_url_def parse_query_def exec_simps le s q2)
    with c show ?thesis by (simp add: line_def)
  qed
qed

lemma parseStartLine_printed:
  assumes ok: "line_ok m url query v"
  shows "parseStartLine (print_line m url query v) r =
    (Inr True, r\<lparr>mType := m, mVersion := v, mQueryParameters := (if query = [] then mQueryParameters r else query @ '' ''), mUrl := url\<rparr>)"
proof -
  have ne: "print_line m url query v \<noteq> []" by (simp add: print_line_def)
  have mem: "sv_find (print_line m url query v) (request_type_cstr m) 0 \<noteq> None"
    using sv_find_mem [of "[]" "request_type_cstr m" "'' /'' @ url @ query @ '' '' @ version_cstr v"] by (simp add: print_line_def)
  consider "m = GET" | "m = POST" using ok by (auto simp: line_ok_def)
  then show ?thesis
  proof cases
    case 1
    with ne mem start_line_printed [OF ok, of "r\<lparr>mType := m\<rparr>"] show ?thesis
      by (simp add: parseStartLine_def exec_simps)
  next
    case 2
    with ok have "sv_find (print_line m url query v) ''GET'' 0 = None" by (simp add: line_ok_def)
    with 2 ne mem start_line_printed [OF ok, of "r\<lparr>mType := m\<rparr>"] show ?thesis
      by (simp add: parseStartLine_def exec_simps)
  qed
qed

section \<open>The header lines\<close>

abbreviation CR :: char where "CR \<equiv> CHR 0x0D"

definition print_headers :: "(string \<times> string) list \<Rightarrow> string" where
  "print_headers hs = concat (map (\<lambda>(k, v). k @ '':'' @ v @ CRLF) hs)"

definition header_ok :: "string \<times> string \<Rightarrow> bool" where
  "header_ok h \<longleftrightarrow> fst h \<noteq> [] \<and> CHR '':'' \<notin> set (fst h) \<and> CR \<notin> set (fst h @ snd h)"

lemma print_headers_simps [simp]:
  "print_headers [] = []"
  "print_headers ((k, v) # hs) = (k @ '':'' @ v) @ CRLF @ print_headers hs"
  by (simp_all add: print_headers_def)

lemma add_header_printed:
  "CHR '':'' \<notin> set k \<Longrightarrow> add_header (k @ '':'' @ v) m = Map.empty(k := Some (trim v)) ++ m"
  using sv_find_char [of "CHR '':''" k v]
  by (auto simp: add_header_def map_add_def fun_eq_iff strip_trim split: option.splits)

lemma crlf_found:
  assumes "CR \<notin> set l"
  shows "sv_find (l @ CRLF @ rest) CRLF 0 = Some (length l)"
  by (rule sv_find_after) (use assms in \<open>simp_all add: CRLF_def\<close>)

lemma header_lines_printed:
  "list_all header_ok hs \<Longrightarrow>
   header_lines (p @ print_headers hs) (length p) m = map_of (map (apsnd trim) hs) ++ m"
proof (induction hs arbitrary: p m)
  case Nil
  have "sv_find ([] :: string) CRLF 0 = None" by (simp add: sv_find_def CRLF_def)
  then have "sv_find (p @ print_headers []) CRLF (length p) = None" by (simp only: sv_find_prefix0) simp
  then show ?case by (simp add: header_lines.simps [of p] map_add_def)
next
  case (Cons h hs)
  obtain k v where h: "h = (k, v)" by fastforce
  from Cons.prems have "header_ok h" and oks: "list_all header_ok hs" by simp_all
  with h have ok: "CHR '':'' \<notin> set k" "CR \<notin> set (k @ '':'' @ v)" by (auto simp: header_ok_def)
  let ?l = "k @ '':'' @ v"
  let ?s = "p @ print_headers (h # hs)"
  have s: "?s = p @ ?l @ CRLF @ print_headers hs" by (simp add: h)
  have "sv_find ?s CRLF (length p) = Some (length p + length ?l)"
    unfolding s sv_find_prefix0 crlf_found [OF ok(2)] by simp
  moreover have "take (length p + length ?l - length p) (drop (length p) ?s) = ?l" by (simp add: s)
  ultimately have step: "header_lines ?s (length p) m = header_lines ?s (length p + length ?l + 2) (add_header ?l m)"
    by (simp only: header_lines.simps [of ?s "length p" m] option.case)
  let ?p = "p @ ?l @ CRLF"
  have "?s = ?p @ print_headers hs" and "length p + length ?l + 2 = length ?p" by (simp_all add: s)
  with Cons.IH [OF oks, of ?p "add_header ?l m"]
  have "header_lines ?s (length p + length ?l + 2) (add_header ?l m) = map_of (map (apsnd trim) hs) ++ add_header ?l m"
    by (simp only:)
  also have "\<dots> = map_of (map (apsnd trim) (h # hs)) ++ m"
    unfolding add_header_printed [OF ok(1)] h by (auto simp: map_add_def fun_eq_iff split: option.splits)
  finally show ?case using step by (simp only:)
qed

text \<open>The blank line is found behind the last header.\<close>

lemma blank_line_later:
  assumes l: "CR \<notin> set l" and j: "sv_find rest BLANK_LINE 0 = Some j" and hd: "hd rest \<noteq> CR"
  shows "sv_find (l @ CRLF @ rest) BLANK_LINE 0 = Some (length l + 2 + j)"
proof (rule sv_find_first)
  note f = sv_find_Some [OF j]
  show "take (length BLANK_LINE) (drop (length l + 2 + j) (l @ CRLF @ rest)) = BLANK_LINE"
    using f(3) by (simp add: CRLF_def)
  show "length l + 2 + j \<le> length (l @ CRLF @ rest)" using f(2) by simp
  fix k assume k: "k < length l + 2 + j"
  show "take (length BLANK_LINE) (drop k (l @ CRLF @ rest)) \<noteq> BLANK_LINE"
  proof (cases "k < length l")
    case True
    then have "drop k (l @ CRLF @ rest) = l ! k # drop (Suc k) l @ CRLF @ rest"
      by (simp add: Cons_nth_drop_Suc [symmetric])
    moreover have "l ! k \<noteq> CR" using l True by (metis nth_mem)
    ultimately show ?thesis by (simp add: BLANK_LINE_def)
  next
    case False
    then obtain i where i: "k = length l + i" using le_Suc_ex not_less by blast
    then consider "i = 0" | "i = 1" | d where "i = 2 + d" "d < j"
      using k by (cases i; cases "i - 1") auto
    then show ?thesis
    proof cases
      case 1
      with i hd show ?thesis by (cases rest) (simp_all add: BLANK_LINE_def CRLF_def)
    next
      case 2
      with i show ?thesis by (simp add: BLANK_LINE_def CRLF_def)
    next
      case 3
      with i f(4) [of d] show ?thesis by (simp add: CRLF_def)
    qed
  qed
qed

lemma blank_line_found:
  "list_all header_ok hs \<Longrightarrow> hs \<noteq> [] \<Longrightarrow>
   sv_find (print_headers hs @ CRLF @ body) BLANK_LINE 0 = Some (length (print_headers hs) - 2)"
proof (induction hs)
  case Nil
  then show ?case by simp
next
  case (Cons h hs)
  obtain k v where h: "h = (k, v)" by fastforce
  from Cons.prems(1) have "header_ok h" and oks: "list_all header_ok hs" by simp_all
  with h have ok: "CR \<notin> set (k @ '':'' @ v)" by (auto simp: header_ok_def)
  let ?l = "k @ '':'' @ v"
  show ?case
  proof (cases "hs = []")
    case True
    have "sv_find (?l @ BLANK_LINE @ body) BLANK_LINE 0 = Some (length ?l)"
      by (rule sv_find_after) (use ok in \<open>simp_all add: BLANK_LINE_def\<close>)
    with True h show ?thesis by (simp add: BLANK_LINE_CRLF)
  next
    case False
    then obtain k2 v2 hs2 where hs: "hs = (k2, v2) # hs2" by (cases hs) auto
    with oks have k2: "k2 \<noteq> []" "CR \<notin> set k2" by (auto simp: header_ok_def)
    have "hd (print_headers hs @ CRLF @ body) \<noteq> CR" using k2 by (cases k2) (auto simp: hs)
    from blank_line_later [OF ok Cons.IH [OF oks False] this]
    have "sv_find (?l @ CRLF @ print_headers hs @ CRLF @ body) BLANK_LINE 0
        = Some (length ?l + 2 + (length (print_headers hs) - 2))" .
    moreover have "2 \<le> length (print_headers hs)" by (simp add: hs)
    ultimately show ?thesis by (simp add: h)
  qed
qed

section \<open>The whole request\<close>

definition print_request :: "RequestType \<Rightarrow> string \<Rightarrow> string \<Rightarrow> Version \<Rightarrow> (string \<times> string) list \<Rightarrow> string \<Rightarrow> string" where
  "print_request m url query v hs body = print_line m url query v @ CRLF @ print_headers hs @ CRLF @ body"

definition request_ok :: "RequestType \<Rightarrow> string \<Rightarrow> string \<Rightarrow> Version \<Rightarrow> (string \<times> string) list \<Rightarrow> bool" where
  "request_ok m url query v hs \<longleftrightarrow> line_ok m url query v \<and> CR \<notin> set (print_line m url query v)
     \<and> hs \<noteq> [] \<and> list_all header_ok hs"

definition header_map :: "(string \<times> string) list \<Rightarrow> string \<Rightarrow> string option" where
  "header_map hs = map_of (map (apsnd trim) hs)"

definition line_view :: "RequestType \<Rightarrow> string \<Rightarrow> string \<Rightarrow> Version \<Rightarrow> http_request" where
  "line_view m url query v = HttpRequest_new\<lparr>mType := m, mVersion := v,
     mQueryParameters := (if query = [] then [] else query @ '' ''), mUrl := url\<rparr>"

text \<open>The encodings read from the value of \<open>Accept-Encoding\<close>.\<close>

definition accepted :: "string option \<Rightarrow> EncodingType list" where
  "accepted v = (case v of None \<Rightarrow> [] | Some s \<Rightarrow>
     (let fs = filter (\<lambda>p. p \<noteq> []) (butlast (pieces (CHR '','') s))
      in map (\<lambda>f. to_encoding_type (trim f)) (if fs = [] then [c_str s] else fs)))"

lemma print_headers_nonempty: "hs \<noteq> [] \<Longrightarrow> print_headers hs \<noteq> []"
  by (cases hs) auto

lemma print_headers_length: "hs \<noteq> [] \<Longrightarrow> 2 \<le> length (print_headers hs)"
  by (cases hs) auto

lemma parse_printed:
  assumes "request_ok m url query v hs"
  shows "parse_request (print_request m url query v hs body) HttpRequest_new =
    bindE (parseHeaders (print_headers hs)) (\<lambda>ok.
      if \<not> ok then bad_request ''[parseHttpRequest] parse header failed.''
      else parse_body (print_request m url query v hs body)
        (length (print_line m url query v) + length (print_headers hs) + 4)) (line_view m url query v)"
proof -
  let ?l = "print_line m url query v" and ?h = "print_headers hs"
  let ?raw = "print_request m url query v hs body"
  have ok: "line_ok m url query v" and cr: "CR \<notin> set ?l" and hs: "list_all header_ok hs" "hs \<noteq> []"
    using assms by (auto simp: request_ok_def)
  note h2 = print_headers_length [OF hs(2)]
  have raw: "?raw = ?l @ CRLF @ ?h @ CRLF @ body" by (simp add: print_request_def)
  have f1: "sv_find ?raw CRLF 0 = Some (length ?l)" unfolding raw by (rule crlf_found [OF cr])
  have t1: "take (length ?l) ?raw = ?l" by (simp add: raw)
  have "sv_find ((?l @ CRLF) @ ?h @ CRLF @ body) BLANK_LINE (length (?l @ CRLF))
      = Some (length (?l @ CRLF) + (length ?h - 2))"
    by (simp only: sv_find_prefix0 blank_line_found [OF hs] option.map)
  then have f2: "sv_find ?raw BLANK_LINE (length ?l + 2) = Some (length ?l + length ?h)" using h2 by (simp add: raw)
  have t2: "take (length ?l + length ?h + 2 - (length ?l + 2)) (drop (length ?l + 2) ?raw) = ?h" by (simp add: raw)
  have lv: "HttpRequest_new\<lparr>mType := m, mVersion := v,
      mQueryParameters := (if query = [] then mQueryParameters HttpRequest_new else query @ '' ''), mUrl := url\<rparr> = line_view m url query v"
    by (simp add: line_view_def HttpRequest_new_def)
  show ?thesis
    unfolding parse_request_def f1 t1 option.case f2 t2
    by (simp add: bindE_def [of "parseStartLine ?l"] parseStartLine_printed [OF ok] lv)
qed

lemma header_map_printed: "list_all header_ok hs \<Longrightarrow> header_lines (print_headers hs) 0 Map.empty = header_map hs"
  using header_lines_printed [of hs "[]" Map.empty] by (simp add: header_map_def)

lemma set_encodings_eq: "set_encodings r = (Inr (), r\<lparr>mAcceptEncodings := mAcceptEncodings r @ accepted (mHeaders r ''Accept-Encoding'')\<rparr>)"
  by (simp add: set_encodings_def accepted_def split_single term_fields_pieces Let_def strip_trim split: option.split)

text \<open>The part of \<open>parseHeaders\<close> that cannot fail.\<close>

definition general_headers :: "(string \<Rightarrow> string option) \<Rightarrow> http_request \<Rightarrow> http_request" where
  "general_headers H r = r\<lparr>mHeaders := H, mHost := (case H ''Host'' of None \<Rightarrow> mHost r | Some h \<Rightarrow> h),
     mIsKeepAlive := (mIsKeepAlive r \<or> H ''Connections'' = Some ''keep-alive''),
     mAcceptEncodings := mAcceptEncodings r @ accepted (H ''Accept-Encoding'')\<rparr>"

lemma parseHeaders_printed:
  assumes "list_all header_ok hs" and "hs \<noteq> []" and "mHeaders r = Map.empty"
  shows "parseHeaders (print_headers hs) r =
    bindE set_content_info (\<lambda>ok. if \<not> ok then retE False else thenE set_ranges (retE True))
      (general_headers (header_map hs) r)"
  using print_headers_nonempty [OF assms(2)] assms(3)
  by (simp add: parseHeaders_def header_map_printed [OF assms(1)] set_host_def set_keep_alive_def set_encodings_eq
      general_headers_def thenE_ok [of "modifyE f" for f] exec_simps split: option.split)

section \<open>Failures\<close>

lemma parseStartLine_fails:
  assumes "parseStartLine line r = (Inl e, r')"
  shows "(\<exists>q h. sv_find line ''?'' 0 = Some q \<and> sv_find line ''HTTP'' 0 = Some h \<and>
            (e = LengthError \<and> h < q
             \<or> e = Undefined ''strip reads outside the request line'' \<and> (\<exists>u. sv_find line ''/'' 0 = Some u \<and> q \<le> u)))
       \<or> (\<exists>u h. sv_find line ''?'' 0 = None \<and> sv_find line ''HTTP'' 0 = Some h \<and> sv_find line ''/'' 0 = Some u
            \<and> h \<le> u \<and> e = Undefined ''strip reads outside the request line'')"
  using assms
  by (auto simp: parseStartLine_def start_line_parser_def parse_query_def parse_url_def exec_simps
      split: if_splits option.splits)

lemma set_content_info_returns: "\<exists>ok r'. set_content_info r = (Inr ok, r') \<and> mHeaders r' = mHeaders r"
  by (auto simp: set_content_info_def exec_simps split: option.split from_chars_result.split)

lemma add_range_cases:
  "(\<exists>r'. add_range s r = (Inr (), r')) \<or> add_range s r = (Inl OutOfRange, r)"
  by (auto simp: add_range_def stoll_digits_def exec_simps split: option.split)

lemma add_ranges_fails: "forE add_range rs r = (Inl e, r') \<Longrightarrow> e = OutOfRange"
proof (induction rs arbitrary: r)
  case Nil
  then show ?case by simp
next
  case (Cons a rs)
  from add_range_cases [of a r] Cons show ?case by (auto simp: thenE_def bindE_def)
qed

lemma set_ranges_fails:
  "set_ranges r = (Inl e, r') \<Longrightarrow> e = OutOfRange \<and> mHeaders r ''Range'' \<noteq> None"
  by (auto simp: set_ranges_def split_single dest: add_ranges_fails split: option.splits)

lemma parseHeaders_fails:
  assumes "parseHeaders h r = (Inl e, r')"
  shows "e = OutOfRange \<and> header_lines h 0 (mHeaders r) ''Range'' \<noteq> None"
proof -
  let ?r = "general_headers (header_lines h 0 (mHeaders r)) r"
  from assms have h: "h \<noteq> []" by (auto simp: parseHeaders_def)
  then have *: "parseHeaders h r = bindE set_content_info (\<lambda>ok. if \<not> ok then retE False else thenE set_ranges (retE True)) ?r"
    by (simp add: parseHeaders_def set_host_def set_keep_alive_def set_encodings_eq
      general_headers_def thenE_ok [of "modifyE f" for f] exec_simps split: option.split)
  obtain ok r1 where c: "set_content_info ?r = (Inr ok, r1)" and m: "mHeaders r1 = mHeaders ?r"
    using set_content_info_returns by blast
  from assms * c have "ok \<and> set_ranges r1 = (Inl e, r')"
    by (cases ok) (auto simp: bindE_def thenE_def split: prod.splits sum.splits)
  with set_ranges_fails [of r1 e r'] m show ?thesis by (simp add: general_headers_def)
qed

section \<open>Properties\<close>

lemma get_parsed:
  assumes ok: "request_ok GET url query v hs" and nr: "header_map hs ''Range'' = None"
  shows "parseHttpRequest (print_request GET url query v hs body) =
    Inr ((general_headers (header_map hs) (line_view GET url query v))
      \<lparr>mBody := body, mRequestSize := int (length (print_request GET url query v hs body))\<rparr>)"
proof -
  let ?raw = "print_request GET url query v hs body"
  let ?r = "general_headers (header_map hs) (line_view GET url query v)"
  have hs: "list_all header_ok hs" "hs \<noteq> []" using ok by (auto simp: request_ok_def)
  have m0: "mHeaders (line_view GET url query v) = Map.empty" by (simp add: line_view_def HttpRequest_new_def)
  have g: "mType ?r = GET" "mHeaders ?r ''Range'' = None"
    using nr by (simp_all add: general_headers_def line_view_def)
  have p: "parseHeaders (print_headers hs) (line_view GET url query v) = (Inr True, ?r)"
    by (simp add: parseHeaders_printed [OF hs m0] set_content_info_def set_ranges_def exec_simps g)
  have d: "drop (length (print_line GET url query v) + length (print_headers hs) + 4) ?raw = body"
    by (simp add: print_request_def)
  have "parse_request ?raw HttpRequest_new = parse_body ?raw (length (print_line GET url query v) + length (print_headers hs) + 4) ?r"
    unfolding parse_printed [OF ok] by (simp add: bindE_def p)
  also have "\<dots> = (Inr (), ?r\<lparr>mBody := body, mRequestSize := int (length ?raw)\<rparr>)"
    unfolding parse_body_def withE_simp d using g(1) by simp
  finally show ?thesis by (simp add: parseHttpRequest_def)
qed

text \<open>C22: A printed GET request is read back: method, version, target, every header (the
  first of several with one name), and as its body all bytes behind the blank line. The
  query keeps its question mark and the space behind it. The size the parser reports is the
  whole packet, so a second request in the same packet is taken for a body.\<close>

theorem get_roundtrip:
  assumes ok: "request_ok GET url query v hs" and nr: "header_map hs ''Range'' = None"
  shows "parseHttpRequest (print_request GET url query v hs body) =
    Inr ((general_headers (header_map hs) (line_view GET url query v))
      \<lparr>mBody := body, mRequestSize := int (length (print_request GET url query v hs body))\<rparr>)"
  using assms by (rule get_parsed)

definition demo_headers :: "(string \<times> string) list" where
  "demo_headers = [(''Host'', '' a.org''), (''Accept-Encoding'', '' gzip, br,''), (''Host'', ''b'')]"

lemma demo_headers_eval: "header_map demo_headers ''Range'' = None"
  "request_ok GET ''x/y'' ''?a=1'' HTTP1_1 demo_headers"
  by code_simp+

theorem get_roundtrip_witness:
  "parseHttpRequest (print_request GET ''x/y'' ''?a=1'' HTTP1_1 demo_headers ''tail'') =
    Inr ((general_headers (header_map demo_headers) (line_view GET ''x/y'' ''?a=1'' HTTP1_1))
      \<lparr>mBody := ''tail'', mRequestSize := int (length (print_request GET ''x/y'' ''?a=1'' HTTP1_1 demo_headers ''tail''))\<rparr>)"
  by (rule get_roundtrip [OF demo_headers_eval(2,1)])

lemma from_chars_to_dec: "int n \<le> INT64_MAX \<Longrightarrow> from_chars (to_dec n) = Parsed (int n)"
proof -
  assume n: "int n \<le> INT64_MAX"
  have "is_digit (hd (to_dec n))" by (rule to_dec_digits [of _ n]) simp
  then have "hd (to_dec n) \<noteq> CHR ''-''" by (auto simp: is_digit_def)
  moreover have "takeWhile is_digit (to_dec n) = to_dec n" using takeWhile_to_dec [of "[]" n] by simp
  ultimately show ?thesis using n by (simp add: from_chars_def Let_def INT64_MAX_def del: takeWhile_eq_all_conv)
qed

lemma post_content:
  assumes "mType r \<noteq> GET" and "mHeaders r ''Content-Type'' = Some ct" and "to_content_type ct \<noteq> ContentType.UNKNOWN"
    and "mHeaders r ''Content-Length'' = Some (to_dec n)" and "int n \<le> INT64_MAX"
  shows "set_content_info r = (Inr True, r\<lparr>mContentType := to_content_type ct, mContentLength := int n\<rparr>)"
  using assms by (simp add: set_content_info_def exec_simps from_chars_to_dec)

lemma post_parsed:
  assumes ok: "request_ok POST url query v hs" and nr: "header_map hs ''Range'' = None"
    and ct: "header_map hs ''Content-Type'' = Some ct" "to_content_type ct \<noteq> ContentType.UNKNOWN"
    and len: "header_map hs ''Content-Length'' = Some (to_dec n)" "int n \<le> INT64_MAX"
  shows "parseHttpRequest (print_request POST url query v hs body) =
    (if length body = n then
       Inr ((general_headers (header_map hs) (line_view POST url query v))
         \<lparr>mContentType := to_content_type ct, mContentLength := int n, mBody := body,
          mRequestSize := int (length (print_request POST url query v hs body))\<rparr>)
     else Inl (RequestError ''[parseHttpRequest] parse body failed.'' PartialPacket))"
proof -
  let ?raw = "print_request POST url query v hs body"
  let ?r = "general_headers (header_map hs) (line_view POST url query v)"
  let ?r1 = "?r\<lparr>mContentType := to_content_type ct, mContentLength := int n\<rparr>"
  let ?n = "length (print_line POST url query v) + length (print_headers hs) + 4"
  have hs: "list_all header_ok hs" "hs \<noteq> []" using ok by (auto simp: request_ok_def)
  have m0: "mHeaders (line_view POST url query v) = Map.empty" by (simp add: line_view_def HttpRequest_new_def)
  have g: "mType ?r \<noteq> GET" "mHeaders ?r = header_map hs" by (simp_all add: general_headers_def line_view_def)
  have info: "set_content_info ?r = (Inr True, ?r1)"
    by (rule post_content) (use g ct len in simp_all)
  have "set_ranges ?r1 = (Inr (), ?r1)" using g nr by (simp add: set_ranges_def)
  then have p: "parseHeaders (print_headers hs) (line_view POST url query v) = (Inr True, ?r1)"
    by (simp add: parseHeaders_printed [OF hs m0] bindE_def thenE_def info)
  have d: "drop ?n ?raw = body" by (simp add: print_request_def)
  have l: "length ?raw - ?n = length body" by (simp add: print_request_def)
  have "int n mod 2 ^ 64 = int n" using len(2) by (simp add: INT64_MAX_def)
  then have b: "parse_body ?raw ?n ?r1 = (if length body = n then (Inr (), ?r1\<lparr>mBody := body, mRequestSize := int (length ?raw)\<rparr>)
      else (Inl (RequestError ''[parseHttpRequest] parse body failed.'' PartialPacket), ?r1))"
    unfolding parse_body_def withE_simp d l using g(1) by simp
  have "parse_request ?raw HttpRequest_new = parse_body ?raw ?n ?r1"
    unfolding parse_printed [OF ok] by (simp add: bindE_def p)
  with b show ?thesis by (simp add: parseHttpRequest_def)
qed

text \<open>C23: A printed POST request with a known content type and a \<open>Content-Length\<close> is read
  back when the length is that of the body; otherwise the answer is that the packet is
  partial, whether bytes are missing or too many.\<close>

theorem post_roundtrip:
  assumes ok: "request_ok POST url query v hs" and nr: "header_map hs ''Range'' = None"
    and ct: "header_map hs ''Content-Type'' = Some ct" "to_content_type ct \<noteq> ContentType.UNKNOWN"
    and len: "header_map hs ''Content-Length'' = Some (to_dec n)" "int n \<le> INT64_MAX"
  shows "parseHttpRequest (print_request POST url query v hs body) =
    (if length body = n then
       Inr ((general_headers (header_map hs) (line_view POST url query v))
         \<lparr>mContentType := to_content_type ct, mContentLength := int n, mBody := body,
          mRequestSize := int (length (print_request POST url query v hs body))\<rparr>)
     else Inl (RequestError ''[parseHttpRequest] parse body failed.'' PartialPacket))"
  using assms by (rule post_parsed)

definition demo_post :: "(string \<times> string) list" where
  "demo_post = [(''Content-Type'', '' text/html''), (''Content-Length'', '' 4'')]"

lemma demo_post_eval: "request_ok POST ''f'' [] HTTP1_0 demo_post" "header_map demo_post ''Range'' = None"
  "header_map demo_post ''Content-Type'' = Some ''text/html''" "to_content_type ''text/html'' \<noteq> ContentType.UNKNOWN"
  "header_map demo_post ''Content-Length'' = Some (to_dec 4)" "int 4 \<le> INT64_MAX"
  by code_simp+

theorem post_roundtrip_witness:
  "parseHttpRequest (print_request POST ''f'' [] HTTP1_0 demo_post ''abc'') =
     Inl (RequestError ''[parseHttpRequest] parse body failed.'' PartialPacket)"
  using post_roundtrip [OF demo_post_eval, of "''abc''"] by simp


definition demo_no_length :: "(string \<times> string) list" where
  "demo_no_length = [(''Content-Type'', '' text/html'')]"

lemma demo_no_length_eval: "request_ok POST ''f'' [] HTTP1_0 demo_no_length" "header_map demo_no_length ''Range'' = None"
  "header_map demo_no_length ''Content-Type'' = Some ''text/html''" "to_content_type ''text/html'' \<noteq> ContentType.UNKNOWN"
  "header_map demo_no_length ''Content-Length'' = None"
  by code_simp+


text \<open>A request without any header is refused, although its blank line is there: the
  search for the blank line starts behind the end of the request line.\<close>

theorem no_headers_refused:
  assumes ok: "line_ok m url query v" and cr: "CR \<notin> set (print_line m url query v)"
  shows "parseHttpRequest (print_line m url query v @ BLANK_LINE) =
    Inl (RequestError ''[parseHttpRequest] parse header failed. BLANK_LINE not found'' BadRequest)"
proof -
  let ?l = "print_line m url query v"
  have raw: "?l @ BLANK_LINE = ?l @ CRLF @ CRLF" by (simp add: BLANK_LINE_CRLF)
  have f1: "sv_find (?l @ BLANK_LINE) CRLF 0 = Some (length ?l)" unfolding raw by (rule crlf_found [OF cr])
  have "sv_find CRLF BLANK_LINE 0 = None" by code_simp
  then have "sv_find ((?l @ CRLF) @ CRLF) BLANK_LINE (length (?l @ CRLF)) = None" by (simp only: sv_find_prefix0 option.map)
  then have f2: "sv_find (?l @ BLANK_LINE) BLANK_LINE (length ?l + 2) = None" by (simp add: raw)
  have "take (length ?l) (?l @ BLANK_LINE) = ?l" by simp
  then show ?thesis
    unfolding parseHttpRequest_def parse_request_def f1 option.case f2
    by (simp only: bindE_def parseStartLine_printed [OF ok]) (simp add: bad_request_def)
qed

theorem no_headers_refused_witness:
  "parseHttpRequest (print_line GET ''x'' [] HTTP1_0 @ BLANK_LINE) =
    Inl (RequestError ''[parseHttpRequest] parse header failed. BLANK_LINE not found'' BadRequest)"
proof (rule no_headers_refused)
  show "line_ok GET ''x'' [] HTTP1_0" by code_simp
  show "CR \<notin> set (print_line GET ''x'' [] HTTP1_0)" by code_simp
qed

text \<open>C25: Besides \<open>RequestError\<close>, which the server handles, parsing can end in three
  other ways, and only in these: \<open>length_error\<close> when a question mark stands behind
  \<open>HTTP\<close> in the request line, \<open>out_of_range\<close> from a \<open>Range\<close> header, and a read far outside
  the line when its target part ends before it starts.\<close>

definition query_behind_version :: "string \<Rightarrow> bool" where
  "query_behind_version line \<longleftrightarrow> (\<exists>q h. sv_find line ''?'' 0 = Some q \<and> sv_find line ''HTTP'' 0 = Some h \<and> h < q)"

definition target_ends_early :: "string \<Rightarrow> bool" where
  "target_ends_early line \<longleftrightarrow> (\<exists>u h. sv_find line ''/'' 0 = Some u \<and> sv_find line ''HTTP'' 0 = Some h
     \<and> (case sv_find line ''?'' 0 of None \<Rightarrow> h \<le> u | Some q \<Rightarrow> q \<le> u))"

theorem parse_failures:
  assumes "parseHttpRequest raw = Inl e" and "\<And>msg t. e \<noteq> RequestError msg t"
  shows "\<exists>l. sv_find raw CRLF 0 = Some l \<and>
     (e = LengthError \<and> query_behind_version (take l raw)
      \<or> e = Undefined ''strip reads outside the request line'' \<and> target_ends_early (take l raw)
      \<or> e = OutOfRange \<and> (\<exists>b. sv_find raw BLANK_LINE (l + 2) = Some b
          \<and> header_lines (take (b - l) (drop (l + 2) raw)) 0 Map.empty ''Range'' \<noteq> None))"
proof -
  from assms(1) obtain r' where fail: "parse_request raw HttpRequest_new = (Inl e, r')"
    by (auto simp: parseHttpRequest_def split: prod.splits sum.splits)
  with assms(2) obtain l where l: "sv_find raw CRLF 0 = Some l"
    by (auto simp: parse_request_def bad_request_def split: option.splits)
  obtain res r1 where line: "parseStartLine (take l raw) HttpRequest_new = (res, r1)" by fastforce
  show ?thesis
  proof (cases res)
    case (Inl e1)
    with fail l line have "e = e1" by (simp add: parse_request_def bindE_def)
    with parseStartLine_fails [of "take l raw" HttpRequest_new e1 r1] line Inl
    have "e = LengthError \<and> query_behind_version (take l raw)
      \<or> e = Undefined ''strip reads outside the request line'' \<and> target_ends_early (take l raw)"
      by (auto simp: query_behind_version_def target_ends_early_def)
    with l show ?thesis by blast
  next
    case (Inr ok)
    have m: "mHeaders r1 = Map.empty"
      using line by (auto simp: parseStartLine_def start_line_parser_def parse_query_def parse_url_def exec_simps HttpRequest_new_def
        split: if_splits option.splits)
    from fail l line Inr assms(2) obtain b where b: "sv_find raw BLANK_LINE (l + 2) = Some b"
      by (auto simp: parse_request_def bindE_def bad_request_def split: option.splits if_splits)
    let ?h = "take (b + 2 - (l + 2)) (drop (l + 2) raw)"
    obtain hres r2 where h: "parseHeaders ?h r1 = (hres, r2)" by fastforce
    have "hres = Inl e"
    proof (cases hres)
      case (Inl e2)
      with fail l line Inr b h assms(2) show ?thesis
        by (cases ok) (auto simp: parse_request_def bindE_def bad_request_def)
    next
      case (Inr ok2)
      with fail l line \<open>res = Inr ok\<close> b h assms(2) show ?thesis
        by (cases ok; cases ok2) (auto simp: parse_request_def bindE_def bad_request_def parse_body_def split: if_splits)
    qed
    with parseHeaders_fails [of ?h r1 e r2] h m have "e = OutOfRange"
      and "header_lines ?h 0 Map.empty ''Range'' \<noteq> None" by auto
    moreover have "b + 2 - (l + 2) = b - l" by simp
    ultimately show ?thesis using l b by metis
  qed
qed

text \<open>A line without a target, and a misplaced question mark.\<close>

lemma parse_fails: "fst (parse_request raw HttpRequest_new) = Inl e \<Longrightarrow> parseHttpRequest raw = Inl e"
  by (auto simp: parseHttpRequest_def split: prod.split)

lemma parse_failures_examples:
  "parseHttpRequest (''GET HTTP/1.1'' @ CRLF) = Inl (Undefined ''strip reads outside the request line'')"
  "parseHttpRequest (''GET / HTTP/1.1?'' @ CRLF) = Inl LengthError"
  by (rule parse_fails, code_simp)+

theorem parse_failures_witness:
  "\<exists>l. sv_find (''GET / HTTP/1.1?'' @ CRLF) CRLF 0 = Some l \<and>
     (LengthError = LengthError \<and> query_behind_version (take l (''GET / HTTP/1.1?'' @ CRLF))
      \<or> LengthError = Undefined ''strip reads outside the request line'' \<and> target_ends_early (take l (''GET / HTTP/1.1?'' @ CRLF))
      \<or> LengthError = OutOfRange \<and> (\<exists>b. sv_find (''GET / HTTP/1.1?'' @ CRLF) BLANK_LINE (l + 2) = Some b
          \<and> header_lines (take (b - l) (drop (l + 2) (''GET / HTTP/1.1?'' @ CRLF))) 0 Map.empty ''Range'' \<noteq> None))"
  by (rule parse_failures [OF parse_failures_examples(2)]) simp

text \<open>C26: A bad request line stays bad: however much data arrives behind it, the parser
  answers the same, so a connection that keeps its bytes never recovers.\<close>

theorem bad_line_sticks:
  assumes "sv_find raw CRLF 0 = Some l" and "fst (parseStartLine (take l raw) HttpRequest_new) = Inr False"
  shows "parseHttpRequest (raw @ extra) =
    Inl (RequestError ''[parseHttpRequest] parse request failed.'' BadRequest)"
proof -
  obtain r where p: "parseStartLine (take l raw) HttpRequest_new = (Inr False, r)"
    using assms(2) by (metis prod.collapse)
  have t: "take l (raw @ extra) = take l raw" using sv_find_Some(2) [OF assms(1)] by simp
  show ?thesis unfolding parseHttpRequest_def parse_request_def sv_find_extend [OF assms(1)] option.case t
    by (simp add: bindE_def p bad_request_def)
qed

lemma bad_line_eval: "sv_find (''PUT /x HTTP/1.1'' @ CRLF) CRLF 0 = Some 15"
  "fst (parseStartLine (take 15 (''PUT /x HTTP/1.1'' @ CRLF)) HttpRequest_new) = Inr False"
  by code_simp+

theorem bad_line_sticks_witness:
  "parseHttpRequest ((''PUT /x HTTP/1.1'' @ CRLF) @ print_request GET ''x'' [] HTTP1_1 demo_headers []) =
    Inl (RequestError ''[parseHttpRequest] parse request failed.'' BadRequest)"
  by (rule bad_line_sticks [OF bad_line_eval])

section \<open>Ranges\<close>

lemma dropWhile_to_dec: "\<not> is_digit c \<Longrightarrow> dropWhile is_digit (to_dec n @ c # rest) = c # rest"
  using to_dec_digits [of _ n] by (simp add: dropWhile_append2)

lemma digit_not_space: "is_digit c \<Longrightarrow> \<not> is_space c"
  by (auto simp: is_digit_def is_space_def)

lemma minus_no_digit: "\<not> is_digit (CHR ''-'')"
  by (simp add: is_digit_def)

lemma match_range_printed:
  "match_range (to_dec a @ ''-'' @ (case b of None \<Rightarrow> [] | Some n \<Rightarrow> to_dec n)) =
     Some (to_dec a, (case b of None \<Rightarrow> [] | Some n \<Rightarrow> to_dec n))"
proof -
  let ?b = "case b of None \<Rightarrow> [] | Some n \<Rightarrow> to_dec n"
  have "is_digit (hd (to_dec a))" by (rule to_dec_digits [of _ a]) simp
  then have d1: "dropWhile is_space (to_dec a @ CHR ''-'' # ?b) = to_dec a @ CHR ''-'' # ?b"
    using digit_not_space by (cases "to_dec a") auto
  have t1: "takeWhile is_digit (to_dec a @ CHR ''-'' # ?b) = to_dec a"
    by (rule takeWhile_to_dec) (simp add: minus_no_digit)
  have "list_all is_digit ?b" using to_dec_digits by (auto simp: list_all_iff split: option.split)
  then show ?thesis
    by (simp only: match_range_def Let_def append_Cons append_Nil d1 t1 dropWhile_to_dec [OF minus_no_digit]) simp
qed

lemma dec_no_zero: "c_str (to_dec a @ ''-'' @ (case b of None \<Rightarrow> [] | Some n \<Rightarrow> to_dec n)) =
   to_dec a @ ''-'' @ (case b of None \<Rightarrow> [] | Some n \<Rightarrow> to_dec n)"
proof -
  have "is_digit c \<Longrightarrow> c \<noteq> CHR 0x00" for c by (auto simp: is_digit_def)
  then have "c \<in> set (to_dec n) \<Longrightarrow> c \<noteq> CHR 0x00" for c n using to_dec_digits by blast
  then show ?thesis unfolding c_str_def by (intro takeWhile_eq_all_conv [THEN iffD2]) (auto split: option.splits)
qed

text \<open>A range of a \<open>Range\<close> header with decimal bounds is appended as it was written, an
  open end as -1; a bound beyond \<open>int64_t\<close> throws \<open>out_of_range\<close> instead.\<close>

theorem range_outcomes:
  "add_range (to_dec a @ ''-'' @ (case b of None \<Rightarrow> [] | Some n \<Rightarrow> to_dec n)) r =
     (if int a \<le> INT64_MAX \<and> (case b of None \<Rightarrow> True | Some n \<Rightarrow> int n \<le> INT64_MAX)
      then (Inr (), r\<lparr>mRanges := mRanges r @ [(int a, case b of None \<Rightarrow> -1 | Some n \<Rightarrow> int n)]\<rparr>)
      else (Inl OutOfRange, r))"
  unfolding add_range_def dec_no_zero match_range_printed option.case prod.case
  by (cases b; cases "int a \<le> INT64_MAX") (auto simp: stoll_digits_def exec_simps)

end
