(* ===== verification/Compress.thy ===== *)
theory Compress
  imports CppStd
begin

text \<open>
  The wrappers of zlib (\<open>src/base/Compress.cpp\<close>). zlib is not part of the program: what
  its calls answer is the record \<open>zlib\<close>, an argument. A call that fills a buffer gets the
  capacity of the buffer and answers with its return code and the bytes it wrote.
\<close>

definition Z_OK :: int where "Z_OK = 0"
definition Z_STREAM_END :: int where "Z_STREAM_END = 1"
definition Z_BUF_ERROR :: int where "Z_BUF_ERROR = -5"

record zlib =
  z_compress :: "string \<Rightarrow> nat \<Rightarrow> int \<times> string"
  z_uncompress :: "string \<Rightarrow> nat \<Rightarrow> int \<times> string"
  z_deflateInit2 :: int
  z_deflate_no_flush :: "string \<Rightarrow> nat \<Rightarrow> int"
  z_deflate_finish :: "string \<Rightarrow> nat \<Rightarrow> int \<times> string"
  z_deflateEnd :: int
  z_inflateInit2 :: int
  z_inflate_no_flush :: "string \<Rightarrow> nat \<Rightarrow> int"
  z_inflate_finish :: "string \<Rightarrow> nat \<Rightarrow> int \<times> string"
  z_inflateEnd :: int

text \<open>The destination has the size of the source, and the return code is not looked at.\<close>

definition compress_deflate :: "zlib \<Rightarrow> string \<Rightarrow> failure + string" where
  "compress_deflate z src = Inr (snd (z_compress z src (length src)))"

definition uncompress_deflate :: "zlib \<Rightarrow> string \<Rightarrow> nat \<Rightarrow> failure + string" where
  "uncompress_deflate z src dst_len = Inr (snd (z_uncompress z src dst_len))"

text \<open>\<open>avail_in\<close> and \<open>avail_out\<close> are 32-bit numbers.\<close>

definition compress_gzip :: "zlib \<Rightarrow> string \<Rightarrow> failure + string" where
  "compress_gzip z src =
     (let n = length src mod 2 ^ 32; inp = take n src in
      if z_deflateInit2 z \<noteq> Z_OK then Inl (RuntimeError ''[Compress] deflateInit failed'')
      else if z_deflate_no_flush z inp n \<noteq> Z_OK then Inl (RuntimeError ''[Compress] deflate Z_NO_FLUSH failed'')
      else if fst (z_deflate_finish z inp n) \<noteq> Z_STREAM_END then Inl (RuntimeError ''[Compress] deflate Z_FINISH failed'')
      else if z_deflateEnd z \<noteq> Z_OK then Inl (RuntimeError ''[Compress] deflateEnd failed'')
      else Inr (snd (z_deflate_finish z inp n)))"

definition uncompress_gzip :: "zlib \<Rightarrow> string \<Rightarrow> nat \<Rightarrow> failure + string" where
  "uncompress_gzip z src dst_len =
     (let n = length src mod 2 ^ 32; inp = take n src; m = dst_len mod 2 ^ 32 in
      if z_inflateInit2 z \<noteq> Z_OK then Inl (RuntimeError ''[Compress] inflateInit failed'')
      else if z_inflate_no_flush z inp m \<noteq> Z_STREAM_END then Inl (RuntimeError ''[Compress] inflate Z_NO_FLUSH failed'')
      else if fst (z_inflate_finish z inp m) \<noteq> Z_STREAM_END then Inl (RuntimeError ''[Compress] inflate Z_FINISH failed'')
      else if z_inflateEnd z \<noteq> Z_OK then Inl (RuntimeError ''[Compress] inflateEnd failed'')
      else Inr (snd (z_inflate_finish z inp m)))"

text \<open>
  What zlib promises: a call stays inside its buffer; what a successful compression wrote,
  decompression into a large enough buffer gives back; gzip the same.
\<close>

definition zlib_ok :: "zlib \<Rightarrow> bool" where
  "zlib_ok z \<longleftrightarrow>
     (\<forall>src cap. length (snd (z_compress z src cap)) \<le> cap)
   \<and> (\<forall>src cap dst. z_compress z src cap = (Z_OK, dst) \<longrightarrow> z_uncompress z dst (length src) = (Z_OK, src))
   \<and> (\<forall>src cap dst. z_deflate_finish z src cap = (Z_STREAM_END, dst) \<longrightarrow> length dst \<le> cap
        \<and> z_inflate_no_flush z dst (length src) = Z_STREAM_END
        \<and> z_inflate_finish z dst (length src) = (Z_STREAM_END, src))
   \<and> z_inflateInit2 z = Z_OK \<and> z_inflateEnd z = Z_OK"

text \<open>
  A codec with the promises, for concrete runs: a run of one character becomes its head and
  a digit that counts it; anything else is too long to fit.
\<close>

definition run_encode :: "string \<Rightarrow> string option" where
  "run_encode s = (if s \<noteq> [] \<and> length s < 10 \<and> s = replicate (length s) (hd s)
     then Some [hd s, char_of (48 + length s)] else None)"

definition run_zlib :: zlib where
  "run_zlib =
     \<lparr>z_compress = (\<lambda>s cap. case run_encode s of Some t \<Rightarrow> if 2 \<le> cap then (Z_OK, t) else (Z_BUF_ERROR, []) | None \<Rightarrow> (Z_BUF_ERROR, [])),
      z_uncompress = (\<lambda>s cap. (Z_OK, replicate cap (if s = [] then CHR ''?'' else hd s))),
      z_deflateInit2 = Z_OK,
      z_deflate_no_flush = (\<lambda>s cap. Z_OK),
      z_deflate_finish = (\<lambda>s cap. case run_encode s of Some t \<Rightarrow> if 2 \<le> cap then (Z_STREAM_END, t) else (Z_BUF_ERROR, []) | None \<Rightarrow> (Z_BUF_ERROR, [])),
      z_deflateEnd = Z_OK,
      z_inflateInit2 = Z_OK,
      z_inflate_no_flush = (\<lambda>s cap. Z_STREAM_END),
      z_inflate_finish = (\<lambda>s cap. (Z_STREAM_END, replicate cap (if s = [] then CHR ''?'' else hd s))),
      z_inflateEnd = Z_OK\<rparr>"

lemma run_encode_Some: "run_encode s = Some t \<Longrightarrow> t \<noteq> [] \<and> length t = 2 \<and> replicate (length s) (hd t) = s"
  by (auto simp: run_encode_def split: if_splits)

lemma run_zlib_ok: "zlib_ok run_zlib"
  by (auto simp: zlib_ok_def run_zlib_def Z_OK_def Z_BUF_ERROR_def Z_STREAM_END_def dest: run_encode_Some
      split: option.splits if_splits)

section \<open>Properties\<close>

text \<open>What \<open>compress_gzip\<close> returns, \<open>uncompress_gzip\<close> reads back, and it is never
  longer than the input; when the compressed data does not fit, it throws.\<close>

theorem gzip_roundtrip:
  assumes "zlib_ok z" and "length src < 2 ^ 32" and "compress_gzip z src = Inr dst"
  shows "uncompress_gzip z dst (length src) = Inr src \<and> length dst \<le> length src"
proof -
  from assms(2) have n: "length src mod 2 ^ 32 = length src" by simp
  from assms(3) have "z_deflate_finish z src (length src) = (Z_STREAM_END, dst)"
    unfolding compress_gzip_def n by (auto simp: Let_def prod_eq_iff split: if_splits)
  with assms(1) have d: "length dst \<le> length src" "z_inflate_no_flush z dst (length src) = Z_STREAM_END"
      "z_inflate_finish z dst (length src) = (Z_STREAM_END, src)" "z_inflateInit2 z = Z_OK" "z_inflateEnd z = Z_OK"
    unfolding zlib_ok_def by blast+
  from d(1) assms(2) have m: "length dst mod 2 ^ 32 = length dst" by simp
  show ?thesis unfolding uncompress_gzip_def n m using d by (simp add: Let_def)
qed

theorem gzip_roundtrip_witness:
  "uncompress_gzip run_zlib ''a5'' (length ''aaaaa'') = Inr ''aaaaa'' \<and> length ''a5'' \<le> length ''aaaaa''"
proof (rule gzip_roundtrip [OF run_zlib_ok])
  show "length ''aaaaa'' < 2 ^ 32" by simp
  have "run_encode ''aaaaa'' = Some ''a5''" by code_simp
  then show "compress_gzip run_zlib ''aaaaa'' = Inr ''a5''"
    by (simp add: compress_gzip_def run_zlib_def Let_def Z_OK_def Z_STREAM_END_def)
qed

text \<open>\<open>compress_deflate\<close> is read back when the compressed data fits into a buffer of the
  input's size; it never fails, and returns what was written in every case.\<close>

theorem deflate_outcomes:
  assumes "zlib_ok z" and "z_compress z src (length src) = (code, dst)"
  shows "compress_deflate z src = Inr dst \<and> length dst \<le> length src
    \<and> (if code = Z_OK then uncompress_deflate z dst (length src) = Inr src
       else compress_deflate z src = Inr (snd (z_compress z src (length src))))"
proof -
  have "length (snd (z_compress z src (length src))) \<le> length src" using assms(1) unfolding zlib_ok_def by blast
  moreover have "code = Z_OK \<longrightarrow> z_uncompress z dst (length src) = (Z_OK, src)"
    using assms unfolding zlib_ok_def by blast
  ultimately show ?thesis using assms(2) by (simp add: compress_deflate_def uncompress_deflate_def)
qed

theorem deflate_outcomes_witness:
  "compress_deflate run_zlib ''ab'' = Inr [] \<and> length ([] :: string) \<le> length ''ab''
    \<and> (if Z_BUF_ERROR = Z_OK then uncompress_deflate run_zlib [] (length ''ab'') = Inr ''ab''
       else compress_deflate run_zlib ''ab'' = Inr (snd (z_compress run_zlib ''ab'' (length ''ab''))))"
  by (rule deflate_outcomes [OF run_zlib_ok]) code_simp

end
