(* ===== verification/HttpResponse.thy ===== *)
theory HttpResponse
  imports HttpCommon Compress
begin

text \<open>
  Responses (\<open>include/http/HttpResponse.h\<close>, \<open>src/http/HttpResponse.cpp\<close>). The fields
  have the prefix \<open>rs\<close>, to keep them apart from the request's. The member functions are
  statements on the response. The unordered map of the headers is an association list with
  distinct keys; \<open>order\<close> is the order in which it is walked. Arguments stand for the file
  system (\<open>fs\<close>) and for zlib.
\<close>

record RangeType =
  rgStart :: int
  rgEnd :: int
  rgTotal :: int

record http_response =
  rsStatus :: StatusCode
  rsVersion :: Version
  rsContentType :: ContentType
  rsContentLength :: int
  rsContentRange :: RangeType
  rsIsKeepAlive :: bool
  rsCharSet :: CharSet
  rsAvailEncodings :: "EncodingType list"
  rsHeaders :: "(string \<times> string) list"
  rsBody :: string

definition HttpResponse_new :: http_response where
  "HttpResponse_new = \<lparr>rsStatus = StatusCode.UNKNOWN, rsVersion = Version.UNKNOWN,
     rsContentType = ContentType.UNKNOWN, rsContentLength = -1,
     rsContentRange = \<lparr>rgStart = 0, rgEnd = 0, rgTotal = 0\<rparr>, rsIsKeepAlive = False,
     rsCharSet = CharSet.UNKNOWN, rsAvailEncodings = [], rsHeaders = [], rsBody = []\<rparr>"

type_synonym 'a res_exec = "(failure, http_response, 'a) exec"

section \<open>Setters\<close>

definition setStatus :: "StatusCode \<Rightarrow> unit res_exec" where
  "setStatus x = modifyE (\<lambda>r. r\<lparr>rsStatus := x\<rparr>)"

definition setVersion :: "Version \<Rightarrow> unit res_exec" where
  "setVersion x = modifyE (\<lambda>r. r\<lparr>rsVersion := x\<rparr>)"

definition setKeepAlive :: "bool \<Rightarrow> unit res_exec" where
  "setKeepAlive x = modifyE (\<lambda>r. r\<lparr>rsIsKeepAlive := x\<rparr>)"

definition setCharSet :: "CharSet \<Rightarrow> unit res_exec" where
  "setCharSet x = modifyE (\<lambda>r. r\<lparr>rsCharSet := x\<rparr>)"

definition setBody :: "string \<Rightarrow> unit res_exec" where
  "setBody x = modifyE (\<lambda>r. r\<lparr>rsBody := x\<rparr>)"

definition setContentType :: "ContentType \<Rightarrow> unit res_exec" where
  "setContentType x = modifyE (\<lambda>r. r\<lparr>rsContentType := x\<rparr>)"

definition setContentLength :: "int \<Rightarrow> unit res_exec" where
  "setContentLength x = modifyE (\<lambda>r. r\<lparr>rsContentLength := x\<rparr>)"

definition setContentRange :: "RangeType \<Rightarrow> unit res_exec" where
  "setContentRange x = modifyE (\<lambda>r. r\<lparr>rsContentRange := x\<rparr>)"

definition setAcceptEncodings :: "EncodingType list \<Rightarrow> unit res_exec" where
  "setAcceptEncodings x = modifyE (\<lambda>r. r\<lparr>rsAvailEncodings := x\<rparr>)"

text \<open>Keys and values are taken as C strings.\<close>

fun assoc_set :: "'k \<Rightarrow> 'v \<Rightarrow> ('k \<times> 'v) list \<Rightarrow> ('k \<times> 'v) list" where
  "assoc_set k v [] = [(k, v)]"
| "assoc_set k v ((k', v') # xs) = (if k' = k then (k, v) # xs else (k', v') # assoc_set k v xs)"

definition setProperty :: "string \<Rightarrow> string \<Rightarrow> unit res_exec" where
  "setProperty key value = modifyE (\<lambda>r. r\<lparr>rsHeaders := assoc_set (c_str key) (c_str value) (rsHeaders r)\<rparr>)"

definition getProperty :: "string \<Rightarrow> http_response \<Rightarrow> string option" where
  "getProperty key r = map_of (rsHeaders r) (c_str key)"

text \<open>\<open>date\<close> is the formatted time, \<open>None\<close> when \<open>localtime_r\<close> or \<open>strftime\<close> fails.\<close>

definition setDate :: "string option \<Rightarrow> unit res_exec" where
  "setDate date = (case date of None \<Rightarrow> retE () | Some d \<Rightarrow> setProperty ''Date'' d)"

section \<open>Content from a file\<close>

text \<open>\<open>std::filesystem::path\<close>: the part behind the last slash, and its extension.\<close>

definition path_filename :: "string \<Rightarrow> string" where
  "path_filename p = rev (takeWhile (\<lambda>c. c \<noteq> CHR ''/'') (rev p))"

definition path_extension :: "string \<Rightarrow> string" where
  "path_extension p =
     (let f = path_filename p; ext = rev (takeWhile (\<lambda>c. c \<noteq> CHR ''.'') (rev f)) in
      if f = ''.'' \<or> f = ''..'' \<or> length ext + 1 \<ge> length f then [] else ''.'' @ ext)"

definition readFile :: "(string \<Rightarrow> string option) \<Rightarrow> string \<Rightarrow> failure + string" where
  "readFile fs p = (case fs p of None \<Rightarrow> Inl (RuntimeError ''file_size'') | Some s \<Rightarrow> Inr s)"

definition selectEncodeType :: "string \<Rightarrow> http_response \<Rightarrow> EncodingType" where
  "selectEncodeType p r =
     (if path_extension p = [] \<or> rsAvailEncodings r = [] then NO_ENCODING
      else if path_extension p \<in> {''.html'', ''.xml'', ''.js'', ''.json''} then hd (rsAvailEncodings r)
      else NO_ENCODING)"

text \<open>
  Any \<open>std::runtime_error\<close>, the function's own \<open>BadContentType\<close> too, becomes a
  \<open>ResponseError\<close> of kind \<open>FileNotFound\<close>.
\<close>

definition catch_runtime :: "unit res_exec \<Rightarrow> unit res_exec" where
  "catch_runtime m = catchE m (\<lambda>e. case e of
     RuntimeError _ \<Rightarrow> throwE (ResponseError ''[HttpResponse] Error happen'' FileNotFound)
   | ResponseError _ _ \<Rightarrow> throwE (ResponseError ''[HttpResponse] Error happen'' FileNotFound)
   | RequestError _ _ \<Rightarrow> throwE (ResponseError ''[HttpResponse] Error happen'' FileNotFound)
   | NetworkException _ _ \<Rightarrow> throwE (ResponseError ''[HttpResponse] Error happen'' FileNotFound)
   | SystemException _ \<Rightarrow> throwE (ResponseError ''[HttpResponse] Error happen'' FileNotFound)
   | _ \<Rightarrow> throwE e)"

definition content_type_of :: "string \<Rightarrow> failure + ContentType" where
  "content_type_of p =
     (if path_extension p = [] then Inr BINARY
      else case Str2ContentType (path_extension p) of
        None \<Rightarrow> Inl (ResponseError ''[setContentByFilePath] unsupport file type!'' BadContentType)
      | Some t \<Rightarrow> Inr t)"

definition set_file_body :: "(string \<Rightarrow> string option) \<Rightarrow> zlib \<Rightarrow> string \<Rightarrow> unit res_exec" where
  "set_file_body fs z p = withE (\<lambda>r. case selectEncodeType p r of
     NO_ENCODING \<Rightarrow> bindE (liftE (readFile fs p)) setBody
   | GZIP \<Rightarrow> bindE (liftE (readFile fs p)) (\<lambda>s. bindE (liftE (compress_gzip z s)) (\<lambda>d.
       thenE (setBody d) (setProperty ''Content-Encoding'' (encoding_cstr GZIP))))
   | _ \<Rightarrow> bindE (liftE (readFile fs p)) (\<lambda>s. bindE (liftE (compress_deflate z s)) (\<lambda>d.
       thenE (setBody d) (setProperty ''Content-Encoding'' (encoding_cstr DEFLATE)))))"

definition setContentByFilePath :: "(string \<Rightarrow> string option) \<Rightarrow> zlib \<Rightarrow> string \<Rightarrow> unit res_exec" where
  "setContentByFilePath fs z p = catch_runtime
     (bindE (liftE (content_type_of p)) (\<lambda>type. block
        [set_file_body fs z p,
         setContentType type,
         withE (\<lambda>r. setContentLength (int (length (rsBody r))))]))"

section \<open>Printing\<close>

definition validateResponse :: "unit res_exec" where
  "validateResponse = withE (\<lambda>r.
     if rsVersion r = Version.UNKNOWN then throwE (ResponseError ''[HttpResponse] please set http version correctly!'' BadVersion)
     else if rsStatus r = StatusCode.UNKNOWN then throwE (ResponseError ''[HttpResponse] please set status code correctly!'' BadStatus)
     else if to_unsigned (rsStatus r) < 300 \<and> rsContentLength r < 0
       then throwE (ResponseError ''[HttpResponse] please set the length of response!'' BadContent)
     else retE ())"

definition content_type_value :: "http_response \<Rightarrow> string" where
  "content_type_value r =
     (if rsCharSet r \<noteq> CharSet.UNKNOWN then content_type_cstr (rsContentType r) @ ''; '' @ charset_cstr (rsCharSet r)
      else content_type_cstr (rsContentType r))"

definition set_content_range :: "unit res_exec" where
  "set_content_range = withE (\<lambda>r. let g = rsContentRange r in
     if rgTotal g \<noteq> 0 then
       if rgEnd g - rgStart g \<noteq> rsContentLength r
       then throwE (ResponseError ''[HttpResponse] range not equals to conetent length'' BadContent)
       else setProperty ''Content-Range'' (''bytes '' @ int_to_dec (rgStart g) @ ''-'' @ int_to_dec (rgEnd g) @ ''/'' @ int_to_dec (rgTotal g))
     else retE ())"

definition print_header :: "string \<times> string \<Rightarrow> string" where
  "print_header h = fst h @ '': '' @ snd h @ CRLF"

definition generateResponse :: "((string \<times> string) list \<Rightarrow> (string \<times> string) list) \<Rightarrow> string res_exec" where
  "generateResponse order = thenE (block
     [validateResponse,
      withE (\<lambda>r. whenE (rsContentType r \<noteq> ContentType.UNKNOWN) (setProperty ''Content-Type'' (content_type_value r))),
      withE (\<lambda>r. setProperty ''Content-Length'' (int_to_dec (rsContentLength r))),
      set_content_range,
      withE (\<lambda>r. setProperty ''Connection'' (if rsIsKeepAlive r then ''keep-alive'' else ''close''))])
     (withE (\<lambda>r. retE
       (version_cstr (rsVersion r) @ '' '' @ status_cstr (rsStatus r) @ CRLF
        @ concat (map print_header (order (rsHeaders r))) @ CRLF @ rsBody r)))"

text \<open>The fixed responses.\<close>

definition HTTP_NOT_FOUND_RESPONSE :: string where
  "HTTP_NOT_FOUND_RESPONSE = ''HTTP/1.1 404 Not Found'' @ CRLF @ ''Content-Type: text/html'' @ CRLF
     @ ''<HTML><TITLE>Not Found</TITLE>'' @ CRLF @ ''<BODY><P>The server could not fulfill'' @ CRLF
     @ ''your request because the resource specified'' @ CRLF @ ''is unavailable or nonexistent.'' @ CRLF
     @ ''</BODY></HTML>'' @ CRLF"

definition HTTP_BAD_REQUEST_RESPONSE :: string where
  "HTTP_BAD_REQUEST_RESPONSE = ''HTTP/1.1 400 Bad Request'' @ CRLF @ ''Content-Type: text/html'' @ CRLF
     @ ''<P>Your browser sent a bad request, such as a POST without a Content-Length.'' @ CRLF"

definition HTTP_UNSUPPORT_METHOD_RESPONSE :: string where
  "HTTP_UNSUPPORT_METHOD_RESPONSE = ''HTTP/1.1 501 Method Not Implemented'' @ CRLF @ ''Content-Type: text/html'' @ CRLF
     @ ''<P>Your browser sent a request with unsupport method.'' @ CRLF"

end
