(* ===== verification/HttpServer.thy ===== *)
theory HttpServer
  imports HttpProofs HttpResponse Reactor
begin

text \<open>
  The HTTP server (\<open>include/http/HttpServer.h\<close>, \<open>src/http/HttpServer.cpp\<close>): an event
  loop with a TCP server whose message callback reads a request, runs the application's
  handler and sends the response. A handler is a statement on the response; an empty
  \<open>std::function\<close> is \<open>None\<close>. \<open>order\<close> is the walk over a header map.
\<close>

type_synonym request_handle = "http_request \<Rightarrow> unit res_exec"

type_synonym header_order = "(string \<times> string) list \<Rightarrow> (string \<times> string) list"

text \<open>The part of \<open>onMessage\<close> that makes the response: its text and whether to stay connected.\<close>

definition respond :: "header_order \<Rightarrow> request_handle option \<Rightarrow> http_request \<Rightarrow> failure + (string \<times> bool)" where
  "respond order handle request =
     (case thenE (case handle of
          Some h \<Rightarrow> thenE (setAcceptEncodings (mAcceptEncodings request)) (h request)
        | None \<Rightarrow> thenE (setStatus BAD_REQUEST) (setKeepAlive False))
        (generateResponse order) HttpResponse_new of
        (Inl e, _) \<Rightarrow> Inl e
      | (Inr text, r) \<Rightarrow> Inr (text, rsIsKeepAlive r))"

text \<open>
  The server sets no high-water callback, so \<open>sendString\<close> runs none. A
  \<open>ResponseError\<close> is thrown on after it was logged.
\<close>

definition HttpServer_onMessage :: "kernel \<Rightarrow> header_order \<Rightarrow> request_handle option \<Rightarrow> nat \<Rightarrow> ('u, 'z, unit) client_exec" where
  "HttpServer_onMessage k order handle c =
     bindE (conn_readStringAll c) (\<lambda>raw.
       catchE
         (bindE (liftE (parseHttpRequest raw)) (\<lambda>request.
          bindE (conn_extractString c (nat (mRequestSize request))) (\<lambda>rawRequest.
          bindE (liftE (respond order handle (request\<lparr>mRawRequest := rawRequest\<rparr>))) (\<lambda>(text, keep). block
            [sendString k (\<lambda>_ _. retE ()) c text,
             whenE (\<not> keep) (shutdownConnection k c)]))))
         (\<lambda>e. case e of
            RequestError _ PartialPacket \<Rightarrow> retE ()
          | RequestError _ _ \<Rightarrow> sendString k (\<lambda>_ _. retE ()) c HTTP_BAD_REQUEST_RESPONSE
          | _ \<Rightarrow> throwE e))"

text \<open>
  The closures of the server: its message callback, and the application's connection
  callback \<open>'v\<close>, run by \<open>conn_cb\<close>.
\<close>

datatype 'v http_closure = OnMessage | OnConnection 'v

fun http_usr :: "header_order \<Rightarrow> request_handle option \<Rightarrow> (kernel \<Rightarrow> 'v \<Rightarrow> nat \<Rightarrow> ('v http_closure, 'z, unit) client_exec)
    \<Rightarrow> kernel \<Rightarrow> ('v http_closure, 'z) usr" where
  "http_usr order handle conn_cb k OnMessage c = HttpServer_onMessage k order handle c"
| "http_usr order handle conn_cb k (OnConnection v) c = conn_cb k v c"

definition HttpServer_new :: "kernel \<Rightarrow> SocketAddr \<Rightarrow> int \<Rightarrow> string \<Rightarrow> ('u, 'z, unit) client_exec" where
  "HttpServer_new k serverAddr maxListenQueue ident =
     block [EventLoop_new k, TcpServer_new k serverAddr maxListenQueue ident]"

definition HttpServer_start :: "kernel \<Rightarrow> kernel list \<Rightarrow> prio_sort \<Rightarrow> header_order \<Rightarrow> request_handle option
    \<Rightarrow> (kernel \<Rightarrow> 'v \<Rightarrow> nat \<Rightarrow> ('v http_closure, 'z, unit) client_exec) \<Rightarrow> 'v option \<Rightarrow> ('v http_closure, 'z, unit) client_exec" where
  "HttpServer_start k ks srt order handle conn_cb connCb = block
     [server_setConnectionCallback (map_option OnConnection connCb),
      server_setMessageCallback (Some OnMessage),
      TcpServer_start k,
      reactor ks srt (http_usr order handle conn_cb)]"

section \<open>Reading the buffer\<close>

lemma readStringAll_content:
  "conns w c = Some tc \<Longrightarrow> tb_inv (mRecvBuffer tc) \<Longrightarrow>
   conn_readStringAll c w = (Inr (to_chars (content (mRecvBuffer tc))), w)"
  by (simp add: conn_readStringAll_def with_conn_def readString_content TcpBuffer_size_def readablebytes_content
      noexcept_def exec_simps)

lemma extractString_content:
  assumes "conns w c = Some tc" and "tb_inv (mRecvBuffer tc)"
  shows "\<exists>b. conn_extractString c n w =
      (Inr (to_chars (take n (content (mRecvBuffer tc)))), w\<lparr>conns := (conns w)(c \<mapsto> tc\<lparr>mRecvBuffer := b\<rparr>)\<rparr>)
    \<and> tb_inv b \<and> content b = drop n (content (mRecvBuffer tc))"
proof -
  from extract_content [OF assms(2), of n] obtain b where
    "TcpBuffer_extract n (mRecvBuffer tc) = (Inr (take n (content (mRecvBuffer tc))), b)"
    "tb_inv b" "content b = drop n (content (mRecvBuffer tc))" by blast
  with assms show ?thesis
    by (intro exI [of _ b]) (simp add: conn_extractString_def on_recv_def with_conn_def upd_conn_def
        extractString_extract noexcept_def exec_simps)
qed

lemma parsed_size: "parseHttpRequest raw = Inr r \<Longrightarrow> mRequestSize r = int (length raw)"
proof -
  assume "parseHttpRequest raw = Inr r"
  then have "parse_request raw HttpRequest_new = (Inr (), r)"
    by (auto simp: parseHttpRequest_def split: prod.splits sum.splits)
  then show ?thesis
    by (auto simp: parse_request_def bad_request_def bindE_def parse_body_def
        split: option.splits prod.splits sum.splits if_splits)
qed

section \<open>Properties\<close>

text \<open>A packet the parser calls partial leaves the whole state as it is: the bytes stay in
  the buffer until more arrive.\<close>

theorem partial_packet_waits:
  assumes "conns w c = Some tc" and "tb_inv (mRecvBuffer tc)"
    and "parseHttpRequest (to_chars (content (mRecvBuffer tc))) = Inl (RequestError msg PartialPacket)"
  shows "HttpServer_onMessage k order handle c w = (Inr (), w)"
  using assms by (simp add: HttpServer_onMessage_def exec_simps readStringAll_content)


text \<open>Without a request handler every request that parses throws \<open>BadVersion\<close> out of the
  message callback: the default answer has no version.\<close>

theorem no_handler_throws:
  assumes "conns w c = Some tc" and "tb_inv (mRecvBuffer tc)"
    and "parseHttpRequest (to_chars (content (mRecvBuffer tc))) = Inr request"
  shows "\<exists>msg. fst (HttpServer_onMessage k order None c w) = Inl (ResponseError msg BadVersion)"
proof -
  let ?n = "length (content (mRecvBuffer tc))"
  have n: "nat (mRequestSize request) = ?n" using parsed_size [OF assms(3)] by simp
  from extractString_content [OF assms(1,2), of ?n] obtain b where
    b: "conn_extractString c ?n w = (Inr (to_chars (content (mRecvBuffer tc))), w\<lparr>conns := (conns w)(c \<mapsto> tc\<lparr>mRecvBuffer := b\<rparr>)\<rparr>)"
    by auto
  have "\<exists>msg. respond order None r = Inl (ResponseError msg BadVersion)" for r
    by (simp add: respond_def exec_simps setStatus_def setKeepAlive_def generateResponse_def validateResponse_def HttpResponse_new_def)
  then obtain msg where "respond order None (request\<lparr>mRawRequest := to_chars (content (mRecvBuffer tc))\<rparr>) = Inl (ResponseError msg BadVersion)"
    by blast
  with b show ?thesis
    by (simp add: HttpServer_onMessage_def bindE_def catchE_def readStringAll_content [OF assms(1,2)] assms(3) n)
qed

text \<open>Concrete packets for the three cases.\<close>

definition demo_world :: "string \<Rightarrow> unit http_closure client_loop" where
  "demo_world raw = blank_world\<lparr>conns := [0 \<mapsto> received (to_bytes raw)]\<rparr>"

lemma demo_world:
  "conns (demo_world raw) 0 = Some (received (to_bytes raw))"
  "length raw \<le> 1000 \<Longrightarrow> tb_inv (mRecvBuffer (received (to_bytes raw)))"
  "to_chars (content (mRecvBuffer (received (to_bytes raw)))) = raw"
  by (simp_all add: demo_world_def buffer_with)

definition demo_get :: string where
  "demo_get = print_request GET ''x/y'' ''?a=1'' HTTP1_1 demo_headers ''tail''"

definition demo_partial :: string where
  "demo_partial = print_request POST ''f'' [] HTTP1_0 demo_post ''abc''"

lemma demo_lengths: "length demo_get \<le> 1000" "length demo_partial \<le> 1000"
  by code_simp+

theorem partial_packet_waits_witness:
  "HttpServer_onMessage quiet_kernel (\<lambda>xs. xs) None 0 (demo_world demo_partial) = (Inr (), demo_world demo_partial)"
proof (rule partial_packet_waits [OF demo_world(1) demo_world(2)])
  show "length demo_partial \<le> 1000" by (rule demo_lengths)
  show "parseHttpRequest (to_chars (content (mRecvBuffer (received (to_bytes demo_partial)))))
      = Inl (RequestError ''[parseHttpRequest] parse body failed.'' PartialPacket)"
    unfolding demo_world(3) demo_partial_def using post_parsed [OF demo_post_eval, of "''abc''"] by simp
qed

theorem no_handler_throws_witness:
  "\<exists>msg. fst (HttpServer_onMessage quiet_kernel (\<lambda>xs. xs) None 0 (demo_world demo_get)) = Inl (ResponseError msg BadVersion)"
  by (rule no_handler_throws [OF demo_world(1) demo_world(2)], rule demo_lengths,
      unfold demo_world(3) demo_get_def, rule get_parsed [OF demo_headers_eval(2,1)])

definition demo_handle :: request_handle where
  "demo_handle request = block [setVersion HTTP1_1, setStatus NOT_FOUND, setKeepAlive True]"

lemma demo_respond: "respond (\<lambda>xs. xs) (Some demo_handle) r =
    Inr (''HTTP/1.1 404 Not Found'' @ CRLF @ ''Content-Length: -1'' @ CRLF @ ''Connection: keep-alive'' @ CRLF @ CRLF, True)"
proof -
  have c: "c_str ''Content-Length'' = ''Content-Length''" "c_str ''Connection'' = ''Connection''" "c_str ''keep-alive'' = ''keep-alive''"
    "c_str (int_to_dec (-1)) = ''-1''"
    by code_simp+
  show ?thesis
    by (simp add: respond_def demo_handle_def setVersion_def setStatus_def setKeepAlive_def setAcceptEncodings_def exec_simps
        generateResponse_def validateResponse_def HttpResponse_new_def setProperty_def set_content_range_def c print_header_def)
qed


end
