(* ===== verification/HttpResponseProofs.thy ===== *)
theory HttpResponseProofs
  imports HttpProofs HttpResponse "HOL-Library.Multiset"
begin

text \<open>
  What a printed response says: when printing fails, and that a reader that looks for the
  blank line and splits the header lines gets back the header map and the body.
\<close>

section \<open>Headers as a map\<close>

lemma map_of_assoc_set: "map_of (assoc_set k v xs) = (map_of xs)(k \<mapsto> v)"
  by (induction k v xs rule: assoc_set.induct) (auto simp: fun_eq_iff)

lemma assoc_set_nonempty [simp]: "assoc_set k v xs \<noteq> []"
  by (induction k v xs rule: assoc_set.induct) auto

lemma keys_assoc_set: "fst ` set (assoc_set k v xs) = insert k (fst ` set xs)"
  by (induction k v xs rule: assoc_set.induct) auto

lemma distinct_assoc_set: "distinct (map fst xs) \<Longrightarrow> distinct (map fst (assoc_set k v xs))"
proof (induction k v xs rule: assoc_set.induct)
  case (1 k v)
  show ?case by simp
next
  case (2 k v k' v' xs)
  have "k' \<notin> fst ` set (assoc_set k v xs)" if "k' \<noteq> k" using 2(2) that by (simp add: keys_assoc_set)
  with 2 show ?case by auto
qed

lemma set_assoc_set: "set (assoc_set k v xs) \<subseteq> insert (k, v) (set xs)"
  by (induction k v xs rule: assoc_set.induct) auto

lemma c_str_id: "CHR 0x00 \<notin> set s \<Longrightarrow> c_str s = s"
  unfolding c_str_def by (rule takeWhile_eq_all_conv [THEN iffD2]) auto

text \<open>The walk over the map: any order of its entries.\<close>

definition order_ok :: "((string \<times> string) list \<Rightarrow> (string \<times> string) list) \<Rightarrow> bool" where
  "order_ok order \<longleftrightarrow> (\<forall>xs. mset (order xs) = mset xs)"

lemma order_ok_id: "order_ok (\<lambda>xs. xs)" "order_ok rev"
  by (simp_all add: order_ok_def)

lemma map_of_order:
  assumes "order_ok order" and "distinct (map fst xs)"
  shows "map_of (order xs) = map_of xs"
proof (rule map_of_eqI)
  have m: "mset (order xs) = mset xs" using assms(1) by (simp add: order_ok_def)
  then have s: "set (order xs) = set xs" by (rule mset_eq_setD)
  then show "set (map fst (order xs)) = set (map fst xs)" by simp
  have "mset (map fst (order xs)) = mset (map fst xs)" using m by simp
  then have d: "distinct (map fst (order xs))" using assms(2) mset_eq_imp_distinct_iff by blast
  show "\<forall>k \<in> set (map fst (order xs)). map_of (order xs) k = map_of xs k"
  proof
    fix k assume "k \<in> set (map fst (order xs))"
    then obtain v where v: "(k, v) \<in> set (order xs)" by auto
    with d have "map_of (order xs) k = Some v" by simp
    moreover from v s assms(2) have "map_of xs k = Some v" by simp
    ultimately show "map_of (order xs) k = map_of xs k" by simp
  qed
qed

section \<open>The final headers\<close>

definition range_value :: "RangeType \<Rightarrow> string" where
  "range_value g = ''bytes '' @ int_to_dec (rgStart g) @ ''-'' @ int_to_dec (rgEnd g) @ ''/'' @ int_to_dec (rgTotal g)"

definition response_headers :: "http_response \<Rightarrow> string \<Rightarrow> string option" where
  "response_headers r =
     (let h1 = (if rsContentType r \<noteq> ContentType.UNKNOWN then (map_of (rsHeaders r))(''Content-Type'' \<mapsto> content_type_value r) else map_of (rsHeaders r));
          h2 = h1(''Content-Length'' \<mapsto> int_to_dec (rsContentLength r));
          h3 = (if rgTotal (rsContentRange r) \<noteq> 0 then h2(''Content-Range'' \<mapsto> range_value (rsContentRange r)) else h2)
      in h3(''Connection'' \<mapsto> if rsIsKeepAlive r then ''keep-alive'' else ''close''))"

text \<open>The first error that printing meets.\<close>

definition response_error :: "http_response \<Rightarrow> ResponseErrorType option" where
  "response_error r =
     (if rsVersion r = Version.UNKNOWN then Some BadVersion
      else if rsStatus r = StatusCode.UNKNOWN then Some BadStatus
      else if to_unsigned (rsStatus r) < 300 \<and> rsContentLength r < 0 then Some BadContent
      else if rgTotal (rsContentRange r) \<noteq> 0 \<and> rgEnd (rsContentRange r) - rgStart (rsContentRange r) \<noteq> rsContentLength r
      then Some BadContent else None)"

definition final_headers :: "http_response \<Rightarrow> (string \<times> string) list" where
  "final_headers r =
     (let h1 = (if rsContentType r \<noteq> ContentType.UNKNOWN then assoc_set ''Content-Type'' (content_type_value r) (rsHeaders r) else rsHeaders r);
          h2 = assoc_set ''Content-Length'' (int_to_dec (rsContentLength r)) h1;
          h3 = (if rgTotal (rsContentRange r) \<noteq> 0 then assoc_set ''Content-Range'' (range_value (rsContentRange r)) h2 else h2)
      in assoc_set ''Connection'' (if rsIsKeepAlive r then ''keep-alive'' else ''close'') h3)"

definition status_line :: "http_response \<Rightarrow> string" where
  "status_line r = version_cstr (rsVersion r) @ '' '' @ status_cstr (rsStatus r)"

lemma digits_clean: "is_digit c \<Longrightarrow> c \<noteq> CHR 0x00 \<and> c \<noteq> CR \<and> c \<noteq> CHR '' ''"
  by (auto simp: is_digit_def)

lemma int_to_dec_clean: "c \<in> set (int_to_dec i) \<Longrightarrow> c \<noteq> CHR 0x00 \<and> c \<noteq> CR \<and> c \<noteq> CHR '' ''"
  using to_dec_digits [of c "nat \<bar>i\<bar>"] digits_clean by (auto simp: int_to_dec_def split: if_splits)

lemma content_type_value_clean: "c \<in> set (content_type_value r) \<Longrightarrow> c \<noteq> CHR 0x00 \<and> c \<noteq> CR"
  by (cases "rsContentType r"; cases "rsCharSet r") (auto simp: content_type_value_def)

lemma range_value_clean: "c \<in> set (range_value g) \<Longrightarrow> c \<noteq> CHR 0x00 \<and> c \<noteq> CR"
  using int_to_dec_clean by (auto simp: range_value_def)

lemma literal_keys:
  "c_str ''Content-Type'' = ''Content-Type''" "c_str ''Content-Length'' = ''Content-Length''"
  "c_str ''Content-Range'' = ''Content-Range''" "c_str ''Connection'' = ''Connection''"
  "c_str ''keep-alive'' = ''keep-alive''" "c_str ''close'' = ''close''"
  by code_simp+

lemma c_str_values:
  "c_str (int_to_dec i) = int_to_dec i" "c_str (content_type_value r) = content_type_value r"
  "c_str (range_value g) = range_value g"
  using int_to_dec_clean content_type_value_clean range_value_clean by (blast intro: c_str_id)+

lemma content_range_value: "set_content_range = withE (\<lambda>r. let g = rsContentRange r in
   if rgTotal g \<noteq> 0 then
     if rgEnd g - rgStart g \<noteq> rsContentLength r
     then throwE (ResponseError ''[HttpResponse] range not equals to conetent length'' BadContent)
     else setProperty ''Content-Range'' (range_value g)
   else retE ())"
  unfolding set_content_range_def range_value_def by (rule refl)

lemma generate_ok:
  assumes "response_error r = None"
  shows "\<exists>r'. generateResponse order r =
    (Inr (status_line r @ CRLF @ concat (map print_header (order (final_headers r))) @ CRLF @ rsBody r), r')"
  using assms
  by (auto simp: generateResponse_def validateResponse_def setProperty_def content_range_value exec_simps Let_def
      response_error_def final_headers_def status_line_def literal_keys c_str_values whenE_def split: if_splits)

lemma generate_fails:
  assumes "response_error r = Some t"
  shows "\<exists>msg. fst (generateResponse order r) = Inl (ResponseError msg t)"
  using assms
  by (auto simp: generateResponse_def validateResponse_def setProperty_def content_range_value exec_simps Let_def
      response_error_def whenE_def split: if_splits)

lemma map_of_final: "map_of (final_headers r) = response_headers r"
  by (simp add: final_headers_def response_headers_def map_of_assoc_set Let_def)

lemma distinct_final: "distinct (map fst (rsHeaders r)) \<Longrightarrow> distinct (map fst (final_headers r))"
  by (simp add: final_headers_def Let_def distinct_assoc_set)

text \<open>A header that a line can carry: no line end, no colon in its name, no spaces around its value.\<close>

definition clean_header :: "string \<times> string \<Rightarrow> bool" where
  "clean_header h \<longleftrightarrow> header_ok h \<and> trim (snd h) = snd h"

lemma clean_headerI: "header_ok (k, v) \<Longrightarrow> v \<noteq> [] \<Longrightarrow> hd v \<noteq> CHR '' '' \<Longrightarrow> last v \<noteq> CHR '' '' \<Longrightarrow> clean_header (k, v)"
  by (simp add: clean_header_def trim_tight)

lemma int_to_dec_nonempty [simp]: "int_to_dec i \<noteq> []"
  by (simp add: int_to_dec_def)

lemma clean_assoc_set: "list_all clean_header xs \<Longrightarrow> clean_header (k, v) \<Longrightarrow> list_all clean_header (assoc_set k v xs)"
  using set_assoc_set [of k v xs] by (auto simp: list_all_iff)

lemma clean_final:
  assumes "list_all clean_header (rsHeaders r)"
  shows "list_all clean_header (final_headers r)"
proof -
  have t: "clean_header (''Content-Type'', content_type_value r)"
    by (cases "rsContentType r"; cases "rsCharSet r")
      (simp_all add: content_type_value_def clean_header_def header_ok_def trim_def)
  have l: "clean_header (''Content-Length'', int_to_dec i)" for i
  proof (rule clean_headerI)
    show "header_ok (''Content-Length'', int_to_dec i)" using int_to_dec_clean by (auto simp: header_ok_def)
    show "hd (int_to_dec i) \<noteq> CHR '' ''" using int_to_dec_clean [OF hd_in_set [OF int_to_dec_nonempty]] by blast
    show "last (int_to_dec i) \<noteq> CHR '' ''" using int_to_dec_clean [OF last_in_set [OF int_to_dec_nonempty]] by blast
  qed simp
  have g: "clean_header (''Content-Range'', range_value g)" for g
  proof (rule clean_headerI)
    show "header_ok (''Content-Range'', range_value g)" using range_value_clean by (auto simp: header_ok_def)
    show "hd (range_value g) \<noteq> CHR '' ''" by (simp add: range_value_def)
    have "last (int_to_dec (rgTotal g)) \<noteq> CHR '' ''" using int_to_dec_clean [OF last_in_set [OF int_to_dec_nonempty]] by blast
    then show "last (range_value g) \<noteq> CHR '' ''" by (simp add: range_value_def)
  qed (simp add: range_value_def)
  have c: "clean_header (''Connection'', if b then ''keep-alive'' else ''close'')" for b
    by (simp add: clean_header_def header_ok_def trim_def)
  show ?thesis unfolding final_headers_def Let_def
    by (intro clean_assoc_set c g l t) (simp_all add: assms clean_assoc_set g l t)
qed

lemma print_header_lines: "concat (map print_header xs) = print_headers (map (apsnd (\<lambda>v. CHR '' '' # v)) xs)"
  by (induction xs) (auto simp: print_headers_def print_header_def)

lemma clean_printed: "list_all clean_header xs \<Longrightarrow> list_all header_ok (map (apsnd (\<lambda>v. CHR '' '' # v)) xs)"
  by (auto simp: list_all_iff clean_header_def header_ok_def)

lemma trim_printed: "list_all clean_header xs \<Longrightarrow> map (apsnd trim) (map (apsnd (\<lambda>v. CHR '' '' # v)) xs) = xs"
  by (induction xs) (auto simp: clean_header_def trim_space_front)

lemma status_line_clean: "CR \<notin> set (status_line r)"
  by (cases "rsVersion r"; cases "rsStatus r") (simp_all add: status_line_def)

section \<open>Properties\<close>


text \<open>C28: A reader of a printed response that looks for the first line end and the first
  blank line and splits the header lines gets the status line, the header map with the
  computed headers in it, whatever order the map was walked in, and the body.\<close>

theorem response_roundtrip:
  assumes "response_error r = None" and order: "order_ok order" and d: "distinct (map fst (rsHeaders r))"
    and clean: "list_all clean_header (rsHeaders r)"
  shows "\<exists>text b. fst (generateResponse order r) = Inr text
    \<and> sv_find text CRLF 0 = Some (length (status_line r)) \<and> take (length (status_line r)) text = status_line r
    \<and> sv_find text BLANK_LINE (length (status_line r) + 2) = Some b
    \<and> header_lines (take (b - length (status_line r)) (drop (length (status_line r) + 2) text)) 0 Map.empty = response_headers r
    \<and> drop (b + 4) text = rsBody r"
proof -
  let ?l = "status_line r" and ?xs = "order (final_headers r)"
  let ?ps = "map (apsnd (\<lambda>v. CHR '' '' # v)) ?xs"
  let ?h = "print_headers ?ps"
  let ?text = "?l @ CRLF @ ?h @ CRLF @ rsBody r"
  have m: "mset ?xs = mset (final_headers r)" using order by (simp add: order_ok_def)
  have "list_all clean_header (final_headers r)" by (rule clean_final [OF clean])
  then have c: "list_all clean_header ?xs" using mset_eq_setD [OF m] by (simp add: list_all_iff)
  have "final_headers r \<noteq> []" by (simp add: final_headers_def Let_def)
  then have ne: "?ps \<noteq> []" using m by auto
  have h2: "2 \<le> length ?h" by (rule print_headers_length [OF ne])
  have g: "fst (generateResponse order r) = Inr ?text"
    using generate_ok [OF assms(1), of order] by (auto simp: print_header_lines)
  have f1: "sv_find ?text CRLF 0 = Some (length ?l)" by (rule crlf_found [OF status_line_clean])
  have "sv_find ((?l @ CRLF) @ ?h @ CRLF @ rsBody r) BLANK_LINE (length (?l @ CRLF)) = Some (length (?l @ CRLF) + (length ?h - 2))"
    by (simp only: sv_find_prefix0 blank_line_found [OF clean_printed [OF c] ne] option.map)
  then have f2: "sv_find ?text BLANK_LINE (length ?l + 2) = Some (length ?l + length ?h)" using h2 by simp
  have t: "take (length ?l + length ?h - length ?l) (drop (length ?l + 2) ?text) = ?h" by simp
  have hm: "header_lines ?h 0 Map.empty = response_headers r"
    unfolding header_map_printed [OF clean_printed [OF c]] header_map_def trim_printed [OF c]
      map_of_order [OF order distinct_final [OF d]] map_of_final ..
  have b: "drop (length ?l + length ?h + 4) ?text = rsBody r" by simp
  show ?thesis
    by (intro exI conjI, rule g, rule f1, simp, rule f2, unfold t, rule hm, rule b)
qed

definition demo_response :: http_response where
  "demo_response = HttpResponse_new\<lparr>rsStatus := OK, rsVersion := HTTP1_1, rsContentType := HTML,
     rsContentLength := 2, rsHeaders := [(''Date'', ''now'')], rsBody := ''hi''\<rparr>"

lemma demo_response_ok: "response_error demo_response = None" "distinct (map fst (rsHeaders demo_response))"
  "list_all clean_header (rsHeaders demo_response)"
  by code_simp+

theorem response_roundtrip_witness:
  "\<exists>text b. fst (generateResponse rev demo_response) = Inr text
    \<and> sv_find text CRLF 0 = Some (length (status_line demo_response))
    \<and> take (length (status_line demo_response)) text = status_line demo_response
    \<and> sv_find text BLANK_LINE (length (status_line demo_response) + 2) = Some b
    \<and> header_lines (take (b - length (status_line demo_response)) (drop (length (status_line demo_response) + 2) text)) 0 Map.empty
        = response_headers demo_response
    \<and> drop (b + 4) text = rsBody demo_response"
  by (rule response_roundtrip [OF demo_response_ok(1) order_ok_id(2) demo_response_ok(2,3)])

text \<open>A status of 300 or more without content is printed with a negative length.\<close>

lemma negative_length:
  "fst (generateResponse (\<lambda>xs. xs) (HttpResponse_new\<lparr>rsStatus := NOT_FOUND, rsVersion := HTTP1_1\<rparr>)) =
     Inr (''HTTP/1.1 404 Not Found'' @ CRLF @ ''Content-Length: -1'' @ CRLF @ ''Connection: close'' @ CRLF @ CRLF)"
  by code_simp

text \<open>The fixed texts have no blank line, so a reader finds no end of their headers.\<close>

lemma fixed_responses_no_blank:
  "sv_find HTTP_NOT_FOUND_RESPONSE BLANK_LINE 0 = None"
  "sv_find HTTP_BAD_REQUEST_RESPONSE BLANK_LINE 0 = None"
  "sv_find HTTP_UNSUPPORT_METHOD_RESPONSE BLANK_LINE 0 = None"
  by code_simp+


end
