(* ===== verification/HttpExamples.thy ===== *)
theory HttpExamples
  imports HttpServer HttpResponseProofs
begin

text \<open>
  The two example servers (\<open>example/http/HttpServ.cpp\<close>, \<open>example/http/HttpVideoServ.cpp\<close>):
  request handlers that serve files. \<open>fs\<close> is the file system, \<open>root\<close> the resource path,
  \<open>date\<close> the formatted time, \<open>file\<close> the content of the open video.
\<close>

text \<open>\<open>std::filesystem::path::append\<close>: an absolute path replaces the one it is appended to.\<close>

definition path_append :: "string \<Rightarrow> string \<Rightarrow> string" where
  "path_append base p =
     (if p \<noteq> [] \<and> hd p = CHR ''/'' then p
      else if base = [] \<or> last base = CHR ''/'' then base @ p
      else base @ ''/'' @ p)"

definition handleRequest :: "(string \<Rightarrow> string option) \<Rightarrow> zlib \<Rightarrow> string option \<Rightarrow> string \<Rightarrow> request_handle" where
  "handleRequest fs z date root request = block
     [setVersion HTTP1_1,
      setStatus OK,
      setDate date,
      setKeepAlive True,
      (if mUrl request = [] then setContentByFilePath fs z (path_append root ''index.html'')
       else catchE (setContentByFilePath fs z (path_append root (mUrl request)))
         (\<lambda>e. case e of ResponseError _ _ \<Rightarrow> setStatus NOT_FOUND | _ \<Rightarrow> throwE e))]"

definition mChunkSize :: int where "mChunkSize = 2 ^ 20"

text \<open>
  A range of the video. The string constructor gets the difference of end and start as a
  \<open>size_t\<close>; below zero it throws inside \<open>setBody\<close>, which is \<open>noexcept\<close>.
\<close>

definition range_end :: "int \<Rightarrow> int \<Rightarrow> int \<Rightarrow> int" where
  "range_end fileSize first second =
     (let e0 = (if second > 0 then second else mChunkSize + first);
          e1 = (if e0 > fileSize then fileSize else e0)
      in if e1 - first > mChunkSize then first + mChunkSize else e1)"

definition send_range :: "string \<Rightarrow> int \<Rightarrow> int \<Rightarrow> unit res_exec" where
  "send_range file first second =
     (let fileSize = int (length file); e = range_end fileSize first second in
      if first \<ge> fileSize then setStatus BAD_REQUEST
      else if e < first then throwE (Terminate ''length_error in setBody'')
      else block
       [setStatus (if e < fileSize then PARTIAL_CONTENT else OK),
        setBody (take (nat (e - first)) (drop (nat first) file)),
        setContentLength (e - first),
        setContentType MP4,
        setContentRange \<lparr>rgStart = first, rgEnd = e, rgTotal = fileSize\<rparr>])"

definition video_handleRequest :: "(string \<Rightarrow> string option) \<Rightarrow> zlib \<Rightarrow> string option \<Rightarrow> string \<Rightarrow> string \<Rightarrow> request_handle" where
  "video_handleRequest fs z date root file request = block
     [setVersion HTTP1_1,
      setStatus OK,
      setDate date,
      setKeepAlive True,
      (if mUrl request = [] then setContentByFilePath fs z (path_append root ''video.html'')
       else if mUrl request = ''video.mp4'' then
         (case mRanges request of
            [] \<Rightarrow> throwE (ResponseError ''[HttpVideoServ] bad range arguments.'' BadResponse)
          | r # _ \<Rightarrow> send_range file (fst r) (snd r))
       else if mUrl request = ''favicon.ico'' then setContentByFilePath fs z (path_append root (mUrl request))
       else setStatus NOT_FOUND)]"

text \<open>The connection callback of the examples only writes to the terminal.\<close>

definition log_connection :: "kernel \<Rightarrow> unit \<Rightarrow> nat \<Rightarrow> ('u, 'z, unit) client_exec" where
  "log_connection k u c = retE ()"

definition httpServerAddr :: SocketAddr where
  "httpServerAddr = \<lparr>mIpAddr = ''127.0.0.1'', mIpProtocol = IPv4, mPort = 8000\<rparr>"

definition HttpServ_main :: "kernel \<Rightarrow> kernel list \<Rightarrow> prio_sort \<Rightarrow> header_order \<Rightarrow> (string \<Rightarrow> string option) \<Rightarrow> zlib
    \<Rightarrow> string option \<Rightarrow> string \<Rightarrow> string \<Rightarrow> (unit http_closure, 'z, unit) client_exec" where
  "HttpServ_main k ks srt order fs z date root ident = block
     [HttpServer_new k httpServerAddr 1000 ident,
      HttpServer_start k ks srt order (Some (handleRequest fs z date root)) log_connection (Some ())]"

text \<open>
  The video server needs its file at the start: without it the constructor throws, and the
  members of the \<open>HttpServer\<close> go in reverse order.
\<close>

definition HttpVideoServ_main :: "kernel \<Rightarrow> kernel list \<Rightarrow> prio_sort \<Rightarrow> header_order \<Rightarrow> (string \<Rightarrow> string option) \<Rightarrow> zlib
    \<Rightarrow> string option \<Rightarrow> string \<Rightarrow> string \<Rightarrow> (unit http_closure, 'z, unit) client_exec" where
  "HttpVideoServ_main k ks srt order fs z date root ident = block
     [HttpServer_new k httpServerAddr 1000 ident,
      (case fs (path_append root ''video.mp4'') of
         None \<Rightarrow> block [TcpServer_delete k [], EventLoop_delete k, throwE (RuntimeError ''file_size'')]
       | Some video \<Rightarrow> HttpServer_start k ks srt order (Some (video_handleRequest fs z date root video))
           log_connection (Some ()))]"

section \<open>Properties\<close>

lemma plain_file:
  "path_extension p = [] \<Longrightarrow> fs p = Some s \<Longrightarrow> setContentByFilePath fs z p r =
     (Inr (), r\<lparr>rsBody := s, rsContentType := BINARY, rsContentLength := int (length s)\<rparr>)"
  by (simp add: setContentByFilePath_def catch_runtime_def content_type_of_def set_file_body_def selectEncodeType_def
      readFile_def setBody_def setContentType_def setContentLength_def exec_simps)

text \<open>A target that starts with a slash, as in \<open>GET //etc/passwd\<close>, is an absolute path
  and replaces the resource path: any readable file without an extension is served.\<close>

theorem absolute_target_served:
  assumes "hd (mUrl request) = CHR ''/''" and "mUrl request \<noteq> []" and "path_extension (mUrl request) = []"
    and "fs (mUrl request) = Some s"
  shows "\<exists>r. handleRequest fs z date root request HttpResponse_new = (Inr (), r)
    \<and> rsStatus r = OK \<and> rsBody r = s \<and> rsContentLength r = int (length s)"
proof -
  have p: "path_append root (mUrl request) = mUrl request" using assms(1,2) by (simp add: path_append_def)
  show ?thesis
    by (cases date)
      (simp_all add: handleRequest_def exec_simps setVersion_def setStatus_def setKeepAlive_def setDate_def setProperty_def
        p plain_file [of "mUrl request" fs s, OF assms(3,4)] assms(2))
qed

theorem absolute_target_served_witness:
  "\<exists>r. handleRequest [''/etc/passwd'' \<mapsto> ''root:x''] run_zlib None ''/srv''
      (HttpRequest_new\<lparr>mUrl := ''/etc/passwd''\<rparr>) HttpResponse_new = (Inr (), r)
    \<and> rsStatus r = OK \<and> rsBody r = ''root:x'' \<and> rsContentLength r = int (length ''root:x'')"
proof (rule absolute_target_served, goal_cases)
  case 3
  have "path_extension ''/etc/passwd'' = []" by code_simp
  then show ?case by simp
qed simp_all

text \<open>The requests that reach it: the parser keeps the second slash.\<close>

lemma absolute_target_parsed:
  "request_ok GET ''/etc/passwd'' [] HTTP1_1 demo_headers"
  by code_simp

text \<open>C31: A range that is served carries exactly the bytes between its ends, at most a chunk of
  them, lies inside the file, and makes a response that can be printed; it is partial unless
  it reaches the end of the file. A range that starts behind the file is a bad request.\<close>

theorem video_range_outcomes:
  assumes "0 \<le> first" and "rsVersion r = HTTP1_1"
  shows "case send_range file first second r of
     (Inl e, _) \<Rightarrow> e = Terminate ''length_error in setBody'' \<and> 0 < second \<and> second < first \<and> first < int (length file)
   | (Inr _, r') \<Rightarrow>
       if int (length file) \<le> first then r' = r\<lparr>rsStatus := BAD_REQUEST\<rparr>
       else (\<exists>e. first \<le> e \<and> e \<le> int (length file) \<and> e - first \<le> mChunkSize
          \<and> rsBody r' = take (nat (e - first)) (drop (nat first) file)
          \<and> int (length (rsBody r')) = rsContentLength r' \<and> response_error r' = None
          \<and> rsContentRange r' = \<lparr>rgStart = first, rgEnd = e, rgTotal = int (length file)\<rparr>
          \<and> (rsStatus r' = PARTIAL_CONTENT \<longleftrightarrow> e < int (length file)))"
proof -
  let ?n = "int (length file)" and ?e = "range_end (int (length file)) first second"
  have b: "?e \<le> ?n \<or> ?n \<le> first" and c: "?e - first \<le> mChunkSize"
    by (auto simp: range_end_def Let_def mChunkSize_def)
  have rev: "?e < first \<Longrightarrow> first < ?n \<Longrightarrow> 0 < second \<and> second < first"
    by (auto simp: range_end_def Let_def mChunkSize_def split: if_splits)
  consider "?n \<le> first" | "first < ?n" "?e < first" | "first < ?n" "first \<le> ?e" by linarith
  then show ?thesis
  proof cases
    case 1
    then show ?thesis by (simp add: send_range_def Let_def setStatus_def)
  next
    case 2
    with rev show ?thesis by (simp add: send_range_def Let_def)
  next
    case 3
    have len: "length (take (nat (?e - first)) (drop (nat first) file)) = nat (?e - first)"
      using 3 b assms(1) by simp
    let ?r = "r\<lparr>rsStatus := (if ?e < ?n then PARTIAL_CONTENT else OK), rsBody := take (nat (?e - first)) (drop (nat first) file),
        rsContentLength := ?e - first, rsContentType := MP4, rsContentRange := \<lparr>rgStart = first, rgEnd = ?e, rgTotal = ?n\<rparr>\<rparr>"
    have s: "send_range file first second r = (Inr (), ?r)"
      using 3 by (simp add: send_range_def Let_def setStatus_def setBody_def setContentLength_def setContentType_def
          setContentRange_def exec_simps)
    have "response_error ?r = None" using 3 assms(2) by (simp add: response_error_def)
    with 3 b c len show ?thesis unfolding s by (intro case_prodI2) (auto intro!: exI [of _ ?e])
  qed
qed

theorem video_range_outcomes_witness:
  "case send_range ''abcdef'' 1 3 (HttpResponse_new\<lparr>rsVersion := HTTP1_1\<rparr>) of
     (Inl e, _) \<Rightarrow> e = Terminate ''length_error in setBody'' \<and> 0 < (3 :: int) \<and> 3 < (1 :: int) \<and> 1 < int (length ''abcdef'')
   | (Inr _, r') \<Rightarrow>
       if int (length ''abcdef'') \<le> 1 then r' = (HttpResponse_new\<lparr>rsVersion := HTTP1_1\<rparr>)\<lparr>rsStatus := BAD_REQUEST\<rparr>
       else (\<exists>e. 1 \<le> e \<and> e \<le> int (length ''abcdef'') \<and> e - 1 \<le> mChunkSize
          \<and> rsBody r' = take (nat (e - 1)) (drop (nat 1) ''abcdef'')
          \<and> int (length (rsBody r')) = rsContentLength r' \<and> response_error r' = None
          \<and> rsContentRange r' = \<lparr>rgStart = 1, rgEnd = e, rgTotal = int (length ''abcdef'')\<rparr>
          \<and> (rsStatus r' = PARTIAL_CONTENT \<longleftrightarrow> e < int (length ''abcdef'')))"
  by (rule video_range_outcomes) simp_all

text \<open>A range with its ends exchanged ends the process.\<close>

lemma reversed_range_terminates:
  "fst (send_range ''abcdef'' 5 2 HttpResponse_new) = Inl (Terminate ''length_error in setBody'')"
  by code_simp

end
