(* ===== verification/HttpSafety.thy ===== *)
theory HttpSafety
  imports ServerStart HttpExamples
begin

text \<open>
  The HTTP server meets the contract of \<open>ServerSafety\<close>: parsing, answering and sending
  touch only the connection of the request. So a process that runs one of the example servers
  never touches a deleted object.
\<close>

section \<open>Ends of the pure parts\<close>

text \<open>\<open>keeps (\<lambda>_. True) m\<close>: every end of \<open>m\<close> is allowed.\<close>

lemma keeps_allowed: "keeps (\<lambda>_. True) m \<Longrightarrow> m s = (Inl e, s') \<Longrightarrow> allowed e"
  using keeps_fail [of "\<lambda>_. True" m s e s'] by simp

lemma keeps_lift: "(\<And>e. r = Inl e \<Longrightarrow> allowed e) \<Longrightarrow> keeps P (liftE r)"
  by (auto simp: keeps_def triple_def split: sum.splits)

lemma parser_ends:
  "keeps (\<lambda>_. True) (parse_query line b e)" "keeps (\<lambda>_. True) (parse_url line b e)"
  "keeps (\<lambda>_. True) (add_range s)" "keeps (\<lambda>_. True) (bad_request msg :: 'a req_exec)"
  "keeps (\<lambda>_. True) set_host" "keeps (\<lambda>_. True) set_keep_alive" "keeps (\<lambda>_. True) (parse_body raw n)"
  by (auto simp: keeps_def triple_def parse_query_def parse_url_def line_overrun_def add_range_def bindE_def
      stoll_digits_def bad_request_def set_host_def set_keep_alive_def parse_body_def split: option.splits prod.splits)

lemma parse_line_ends: "keeps (\<lambda>_. True) (parseStartLine line)"
  unfolding parseStartLine_def start_line_parser_def
  by (auto intro!: keeps_intros parser_ends keeps_modify split: option.split simp del: retE_simp modifyE_simp)

lemma parse_headers_ends: "keeps (\<lambda>_. True) (parseHeaders headers)"
proof -
  have enc: "keeps (\<lambda>_. True) set_encodings"
    unfolding set_encodings_def
    by (auto intro!: keeps_with keeps_intros keeps_modify keeps_throw split: option.split simp del: retE_simp modifyE_simp throwE_simp)
  have info: "keeps (\<lambda>_. True) set_content_info"
    unfolding set_content_info_def
    by (auto intro!: keeps_with keeps_intros keeps_modify split: option.split from_chars_result.split
        simp del: retE_simp modifyE_simp)
  have ranges: "keeps (\<lambda>_. True) set_ranges"
    unfolding set_ranges_def
    by (auto intro!: keeps_with keeps_intros keeps_throw parser_ends split: option.split simp del: retE_simp throwE_simp)
  show ?thesis
    unfolding parseHeaders_def
    by (auto intro!: keeps_intros keeps_modify enc info ranges parser_ends simp del: retE_simp modifyE_simp)
qed

lemma parse_ends: "parseHttpRequest raw = Inl e \<Longrightarrow> allowed e"
proof -
  assume p: "parseHttpRequest raw = Inl e"
  have "keeps (\<lambda>_. True) (parse_request raw)"
    unfolding parse_request_def
    by (auto intro!: keeps_intros parse_line_ends parse_headers_ends parser_ends split: option.split simp del: retE_simp)
  with p show ?thesis
    by (auto simp: parseHttpRequest_def split: prod.splits sum.splits dest: keeps_allowed)
qed

lemma response_ends:
  "keeps (\<lambda>_. True) (setStatus st)" "keeps (\<lambda>_. True) (setKeepAlive b)" "keeps (\<lambda>_. True) (setVersion v)"
  "keeps (\<lambda>_. True) (setDate d)" "keeps (\<lambda>_. True) (setBody s)" "keeps (\<lambda>_. True) (setContentLength n)"
  "keeps (\<lambda>_. True) (setContentType t)" "keeps (\<lambda>_. True) (setContentRange g)" "keeps (\<lambda>_. True) (setProperty x y)"
  "keeps (\<lambda>_. True) (setAcceptEncodings es)"
  by (auto simp: keeps_def triple_def setStatus_def setKeepAlive_def setVersion_def setDate_def setBody_def setProperty_def
      setContentLength_def setContentType_def setContentRange_def setAcceptEncodings_def split: option.splits)

lemma generate_ends: "keeps (\<lambda>_. True) (generateResponse order)"
proof -
  have "keeps (\<lambda>_. True) validateResponse"
    unfolding validateResponse_def
    by (auto intro!: keeps_with keeps_intros keeps_throw_exn simp del: retE_simp throwE_simp)
  moreover have "keeps (\<lambda>_. True) set_content_range"
    unfolding set_content_range_def Let_def
    by (auto intro!: keeps_with keeps_intros keeps_throw_exn response_ends simp del: retE_simp throwE_simp)
  ultimately show ?thesis
    unfolding generateResponse_def
    by (auto intro!: keeps_intros keeps_with response_ends simp del: retE_simp)
qed

section \<open>The application's part\<close>

text \<open>A request handler: a statement on the response whose ends are allowed.\<close>

locale request_handler =
  fixes handle :: request_handle
  assumes handle_ends: "keeps (\<lambda>_. True) (handle request)"
begin

lemma respond_ends: "respond order (Some handle) request = Inl e \<Longrightarrow> allowed e"
proof -
  assume r: "respond order (Some handle) request = Inl e"
  have "keeps (\<lambda>_. True) (thenE (thenE (setAcceptEncodings (mAcceptEncodings request)) (handle request)) (generateResponse order))"
    by (intro keeps_then response_ends handle_ends generate_ends)
  with r show ?thesis by (auto simp: respond_def split: prod.splits sum.splits dest: keeps_allowed)
qed

end

section \<open>The message callback\<close>

lemma quiet_usr: "usr_ok (\<lambda>_ _. retE ())"
  by (simp add: usr_ok_def keeps_ret del: retE_simp)

lemma keeps_readStringAll: "c \<in> C \<Longrightarrow> keeps (conn_inv C K Oth) (conn_readStringAll c)"
proof (rule keepsI_good)
  fix w :: "('a, 'b) conn_loop_scheme" assume c: "c \<in> C" and inv: "conn_inv C K Oth w"
  from conn_invD(2) [OF inv c] obtain tc where tc: "conns w c = Some tc" by blast
  from readStringAll_content [OF tc conn_okD(1) [OF conn_wfD(3) [OF conn_invD(1) [OF inv] tc]]] inv
  show "good (conn_inv C K Oth) (conn_readStringAll c) w" by (simp add: good_def)
qed

lemma keeps_conn_extractString: "c \<in> C \<Longrightarrow> keeps (conn_inv C K Oth) (conn_extractString c n)"
  unfolding conn_extractString_def
  by (intro keeps_noexcept keepsI_good good_on_recv keeps_extractString)

lemma keeps_sendString: "c \<in> C \<Longrightarrow> keeps (conn_inv C K Oth) (sendString k (\<lambda>_ _. retE ()) c s)"
  unfolding sendString_def by (intro keeps_send quiet_usr)

lemma keeps_onMessage:
  assumes c: "c \<in> C" and h: "\<And>r e. respond order handle r = Inl e \<Longrightarrow> allowed e"
  shows "keeps (conn_inv C K Oth) (HttpServer_onMessage k order handle c)"
  unfolding HttpServer_onMessage_def
proof (intro keeps_bind keeps_readStringAll c keeps_catch)
  show "keeps (conn_inv C K Oth) (liftE (parseHttpRequest raw))" for raw
    by (rule keeps_lift) (rule parse_ends)
  show "keeps (conn_inv C K Oth) (conn_extractString c n)" for n by (rule keeps_conn_extractString [OF c])
  show "keeps (conn_inv C K Oth) (liftE (respond order handle r))" for r by (rule keeps_lift) (rule h)
  show "keeps (conn_inv C K Oth) (case p of (text, keep) \<Rightarrow> block
     [sendString k (\<lambda>_ _. retE ()) c text, whenE (\<not> keep) (shutdownConnection k c)])" for p
    by (cases p) (auto intro!: keeps_intros keeps_sendString keeps_shutdownConnection c simp del: retE_simp)
  show "keeps (conn_inv C K Oth) (case e of
            RequestError _ PartialPacket \<Rightarrow> retE ()
          | RequestError _ _ \<Rightarrow> sendString k (\<lambda>_ _. retE ()) c HTTP_BAD_REQUEST_RESPONSE
          | _ \<Rightarrow> throwE e)" if "\<not> fatal e" for e
    using that by (auto intro!: keeps_ret keeps_throw_exn keeps_sendString c simp del: retE_simp throwE_simp
        split: failure.split RequestErrorType.split)
qed (auto split: failure.split)

lemma frame_onMessage: "moves loop_frame (HttpServer_onMessage k order handle c)"
  unfolding HttpServer_onMessage_def sendString_def
proof (intro moves_bind moves_catch moves_lift loop.pre)
  show "moves loop_frame (conn_readStringAll c)"
    unfolding conn_readStringAll_def by (intro moves_noexcept loop.with_conn moves_lift loop.pre)
  show "moves loop_frame (conn_extractString c n)" for n
    unfolding conn_extractString_def by (intro moves_noexcept loop.buffers loop.pre)
  show "moves loop_frame (case p of (text, keep) \<Rightarrow> block
     [send k (\<lambda>_ _. retE ()) c (to_bytes text), whenE (\<not> keep) (shutdownConnection k c)])" for p
    by (cases p) (auto intro!: moves_then moves_when moves_ret loop.pre loop.send loop.shutdownConnection simp del: retE_simp)
  show "moves loop_frame (case e of
            RequestError _ PartialPacket \<Rightarrow> retE ()
          | RequestError _ _ \<Rightarrow> send k (\<lambda>_ _. retE ()) c (to_bytes HTTP_BAD_REQUEST_RESPONSE)
          | _ \<Rightarrow> throwE e)" for e
    by (auto intro!: moves_ret moves_throw loop.pre loop.send simp del: retE_simp throwE_simp
        split: failure.split RequestErrorType.split)
qed

lemma frame_http_usr: "moves loop_frame (http_usr order handle log_connection k u c)"
  by (cases u) (auto simp: log_connection_def intro: frame_onMessage moves_ret loop.pre simp del: retE_simp)

context request_handler
begin

lemma http_app: "server_app (http_usr order (Some handle) log_connection)"
proof (unfold_locales)
  show "usr_ok (http_usr order (Some handle) log_connection k)" for k
  proof (unfold usr_ok_def, intro allI impI)
    fix u c C K and Oth :: "addr \<Rightarrow> unit http_closure chan_cb channel option" assume "c \<in> (C :: nat set)"
    then show "keeps (conn_inv C K Oth) (http_usr order (Some handle) log_connection k u c)"
      by (cases u) (auto simp: log_connection_def intro: keeps_onMessage respond_ends keeps_ret simp del: retE_simp)
  qed
  show "moves loop_frame (http_usr order (Some handle) log_connection k u c)" for k u c
    by (rule frame_http_usr)
qed

end

sublocale request_handler \<subseteq> app: server_app "http_usr order (Some handle) log_connection" for order
  by (rule http_app)

section \<open>The handlers of the examples\<close>

lemma file_ends: "keeps (\<lambda>_. True) (setContentByFilePath fs z p)"
proof -
  have z: "compress_gzip z s = Inl e \<Longrightarrow> allowed e" "compress_deflate z s = Inl e \<Longrightarrow> allowed e"
    "readFile fs p = Inl e \<Longrightarrow> allowed e" "content_type_of p = Inl e \<Longrightarrow> allowed e" for s e
    by (auto simp: compress_gzip_def compress_deflate_def readFile_def content_type_of_def Let_def split: if_splits option.splits)
  have "keeps (\<lambda>_. True) (set_file_body fs z p)"
    unfolding set_file_body_def
    by (auto intro!: keeps_with keeps_intros keeps_lift response_ends dest: z split: EncodingType.split)
  then show ?thesis
    unfolding setContentByFilePath_def catch_runtime_def
    by (intro keeps_catch) (auto intro!: keeps_intros keeps_lift keeps_with keeps_throw_exn response_ends dest: z
        simp: throwE_def split: failure.split simp del: throwE_simp)
qed

lemma files_ends: "keeps (\<lambda>_. True) (handleRequest fs z date root request)"
proof -
  have "keeps (\<lambda>_. True) (catchE (setContentByFilePath fs z p)
      (\<lambda>e. case e of ResponseError _ _ \<Rightarrow> setStatus NOT_FOUND | _ \<Rightarrow> throwE e))" for p
    by (rule keeps_catch) (auto intro!: file_ends keeps_throw_exn response_ends simp: throwE_def split: failure.split simp del: throwE_simp)
  then show ?thesis unfolding handleRequest_def
    by (auto intro!: keeps_intros response_ends file_ends)
qed

lemma video_ends: "keeps (\<lambda>_. True) (video_handleRequest fs z date root file request)"
proof -
  have "keeps (\<lambda>_. True) (send_range file a b)" for a b
    unfolding send_range_def Let_def
    by (auto intro!: keeps_intros keeps_throw response_ends simp del: throwE_simp)
  then show ?thesis unfolding video_handleRequest_def
    by (auto intro!: keeps_intros keeps_throw_exn response_ends file_ends split: list.split simp del: throwE_simp)
qed

interpretation files: request_handler "handleRequest fs z date root" for fs z date root
  by unfold_locales (rule files_ends)

interpretation video: request_handler "video_handleRequest fs z date root film" for fs z date root film
  by unfold_locales (rule video_ends)

section \<open>The whole process\<close>

text \<open>What the server's owner sets before the start.\<close>

lemma ready_callbacks: "ready (w\<lparr>sConnectionCb := cb\<rparr>) = ready w" "ready (w\<lparr>sMessageCb := cb\<rparr>) = ready w"
  by (simp_all add: ready_def starting_def isInLoopThread_def)

lemma sound_HttpServer_new:
  assumes "fresh_process w" and "ctl_ok k"
  shows "sound ready (HttpServer_new k serverAddr n ident) w"
  unfolding HttpServer_new_def block.simps
  by (rule sound_then, rule sound_EventLoop_new [OF assms], rule sound_then, rule sound_TcpServer_new, assumption,
      rule assms(2), rule sound_ret)

context request_handler
begin

lemma sound_start:
  fixes w :: "(unit http_closure, 'z) client_loop_scheme"
  assumes "ready w" and "\<forall>k \<in> set ks. kernel_ok k"
  shows "sound (\<lambda>v. \<exists>Oth. server_inv Oth v)
     (HttpServer_start k ks srt order (Some handle) log_connection (Some ())) w"
proof -
  have run: "sound (\<lambda>v. \<exists>Oth. server_inv Oth v) (reactor ks srt (http_usr order (Some handle) log_connection)) v"
    if "ready v" for v :: "(unit http_closure, 'z) client_loop_scheme"
    by (rule sound_mono, rule app.sound_reactor [OF assms(2) ready_server_inv [OF that]]) blast
  show ?thesis
    unfolding HttpServer_start_def block.simps server_setConnectionCallback_def server_setMessageCallback_def
    by (rule sound_then [where P = ready], rule sound_modify, simp add: ready_callbacks assms(1),
        rule sound_then [where P = ready], rule sound_modify, simp add: ready_callbacks,
        rule sound_then [where P = ready], rule sound_TcpServer_start, assumption,
        rule sound_then, rule run, assumption, rule sound_ret, assumption)
qed

end

lemma sound_main:
  assumes "fresh_process w" and "kernel_ok k" and "\<forall>k \<in> set ks. kernel_ok k"
  shows "sound (\<lambda>v. \<exists>Oth. server_inv Oth v) (HttpServ_main k ks srt order fs z date root ident) w"
  unfolding HttpServ_main_def block.simps
  by (rule sound_then, rule sound_HttpServer_new [OF assms(1)], use assms(2) in \<open>simp add: kernel_ok_def\<close>,
      rule sound_then, rule files.sound_start [OF _ assms(3)], assumption, rule sound_ret, assumption)

text \<open>The video server, when its file is there.\<close>

lemma sound_video_main:
  assumes "fresh_process w" and "kernel_ok k" and "\<forall>k \<in> set ks. kernel_ok k"
    and "fs (path_append root ''video.mp4'') = Some film"
  shows "sound (\<lambda>v. \<exists>Oth. server_inv Oth v) (HttpVideoServ_main k ks srt order fs z date root ident) w"
  unfolding HttpVideoServ_main_def block.simps assms(4) option.case
  by (rule sound_then, rule sound_HttpServer_new [OF assms(1)], use assms(2) in \<open>simp add: kernel_ok_def\<close>,
      rule sound_then, rule video.sound_start [OF _ assms(3)], assumption, rule sound_ret, assumption)

section \<open>Properties\<close>

text \<open>C1: A process that runs the file server, from its first statement and for any number of
  rounds of the loop, whatever the peers send and the kernel answers, never touches a deleted
  or missing object: it returns with the invariant, throws, ends by an assertion, or reaches
  one of the two known overruns of a buffer.\<close>

theorem http_server_safe:
  assumes "fresh_process w" and "kernel_ok k" and "\<forall>k \<in> set ks. kernel_ok k"
  shows "case HttpServ_main k ks srt order fs z date root ident w of
     (Inr _, w') \<Rightarrow> \<exists>Oth. server_inv Oth w'
   | (Inl e, _) \<Rightarrow> \<forall>m. e = Undefined m \<longrightarrow> m = buffer_overrun \<or> m = line_overrun"
  using sound_main [OF assms, of srt order fs z date root ident]
  by (cases "HttpServ_main k ks srt order fs z date root ident w") (auto simp: sound_def split: sum.splits)

lemma blank_fresh: "fresh_process (blank_world\<lparr>tCurrentLoop := None\<rparr>)"
  by (simp add: fresh_process_def idle_def blank_world_def)

text \<open>One client connects, sends a request and is served; then the process is observed no more.\<close>

definition client_rounds :: "kernel list" where
  "client_rounds = [quiet_kernel\<lparr>k_epoll_wait := (1, [(5, 1)])\<rparr>,
     quiet_kernel\<lparr>k_epoll_wait := (1, [(6, 1)]), k_read := (\<lambda>_ n. if 15 \<le> n then (15, to_bytes (''GET /x HTTP/1.1'')) else (0, []))\<rparr>,
     quiet_kernel\<lparr>k_epoll_wait := (1, [(6, 4)])\<rparr>]"

lemma client_rounds_ok: "\<forall>k \<in> set client_rounds. kernel_ok k"
  using quiet_kernel_ok
  by (auto simp: client_rounds_def kernel_ok_def ctl_ok_def new_fd_ok_def quiet_kernel_def read_ok_def write_ok_def to_bytes_def)

theorem http_server_safe_witness:
  "case HttpServ_main quiet_kernel client_rounds stable_prio_sort (\<lambda>hs. hs) (\<lambda>_. None) run_zlib None ''/srv'' []
      (blank_world\<lparr>tCurrentLoop := None\<rparr>) of
     (Inr _, w') \<Rightarrow> \<exists>Oth. server_inv Oth w'
   | (Inl e, _) \<Rightarrow> e \<noteq> Undefined ''access to a deleted TcpConnection''"
  using http_server_safe [OF blank_fresh quiet_kernel_ok client_rounds_ok, of stable_prio_sort "\<lambda>hs. hs" "\<lambda>_. None" run_zlib None "''/srv''" "[]"]
  by (auto simp: buffer_overrun_def line_overrun_def split: prod.splits sum.splits)

text \<open>
  Every name in the heap resolves, at its type: a channel's callbacks name the live connection
  that has the channel, with an open socket for the channel's descriptor; a waiting functor
  names a live connection; the map of the poller names live channels.
\<close>

definition heap_typed :: "('u, 'z) client_loop_scheme \<Rightarrow> bool" where
  "heap_typed w \<longleftrightarrow>
     (\<forall>a ch cb c. channels w a = Some ch \<longrightarrow> cb \<in> chan_cbs ch \<longrightarrow> refers cb = Some c \<longrightarrow>
        (\<exists>tc s. conns w c = Some tc \<and> mpChannel tc = Some a \<and> mpSocket tc = Some s
           \<and> sFd s = mFd ch \<and> mFd ch \<in> set (openFds w)))
   \<and> (\<forall>c tc a. conns w c = Some tc \<longrightarrow> mpChannel tc = Some a \<longrightarrow>
        (\<exists>ch. channels w a = Some ch \<and> chan_cbs ch = {ConnRead c, ConnWrite c, ConnError c, ConnClose c}))
   \<and> (\<forall>t \<in> set (mPendingTasks w). \<forall>c. about t = Some c \<longrightarrow> conns w c \<noteq> None)
   \<and> (\<forall>fd a. mChannelMap (mpPoller w) fd = Some a \<longrightarrow> (\<exists>ch. channels w a = Some ch \<and> mFd ch = fd))"

lemma conn_wf_typed:
  assumes wf: "conn_wf w"
  shows "heap_typed w"
proof -
  note net = conn_wfD(1,2) [OF wf] and ok = conn_okD(5) [OF conn_wfD(3) [OF wf]]
  have "\<exists>tc s. conns w c = Some tc \<and> mpChannel tc = Some a \<and> mpSocket tc = Some s \<and> sFd s = mFd ch \<and> mFd ch \<in> set (openFds w)"
    if ch: "channels w a = Some ch" "cb \<in> chan_cbs ch" "refers cb = Some c" for a ch cb c
  proof -
    from conn_wfD(4) [OF wf ch] obtain tc where tc: "conns w c = Some tc" "mpChannel tc = Some a" by blast
    from ok [OF this] ch(1) fds_openD [OF net(2) ch(1)] tc show ?thesis by auto
  qed
  moreover have "\<exists>ch. channels w a = Some ch \<and> chan_cbs ch = {ConnRead c, ConnWrite c, ConnError c, ConnClose c}"
    if "conns w c = Some tc" "mpChannel tc = Some a" for c tc a
    using ok [OF that] by (auto simp: conn_chan_def chan_cbs_def)
  moreover have "\<forall>t \<in> set (mPendingTasks w). \<forall>c. about t = Some c \<longrightarrow> conns w c \<noteq> None"
    using conn_wfD(6) [OF wf] by blast
  ultimately show ?thesis unfolding heap_typed_def using net_wf_map [OF net(1)] by blast
qed

lemma server_heap_typed: "server_inv Oth w \<Longrightarrow> heap_typed w"
  by (simp add: serving_def conn_inv_def conn_wf_typed)

text \<open>C6: As long as the file server runs, every name in its heap resolves to a live object of the
  right kind: callbacks, waiting functors and the poller's map hold no dangling reference.\<close>

theorem http_heap_typed:
  assumes "fresh_process w" and "kernel_ok k" and "\<forall>k \<in> set ks. kernel_ok k"
  shows "case HttpServ_main k ks srt order fs z date root ident w of (Inr _, w') \<Rightarrow> heap_typed w' | (Inl _, _) \<Rightarrow> True"
  using sound_main [OF assms, of srt order fs z date root ident] server_heap_typed
  by (cases "HttpServ_main k ks srt order fs z date root ident w") (auto simp: sound_def split: sum.splits)

theorem http_heap_typed_witness:
  "case HttpServ_main quiet_kernel client_rounds stable_prio_sort (\<lambda>hs. hs) (\<lambda>_. None) run_zlib None ''/srv'' []
      (blank_world\<lparr>tCurrentLoop := None\<rparr>) of (Inr _, w') \<Rightarrow> heap_typed w' | (Inl _, _) \<Rightarrow> True"
  by (rule http_heap_typed [OF blank_fresh quiet_kernel_ok client_rounds_ok])

end
