(* ===== verification/EventLoopPool.thy ===== *)
theory EventLoopPool
  imports Errors "HOL-Library.Multiset"
begin

text \<open>
  The pool of event loops (\<open>include/net/EventLoopPool.h\<close>, \<open>src/net/EventLoopPool.cpp\<close>):
  a loop per sub thread, handed out in turn. Loops are numbers; sub thread \<open>i\<close> runs loop
  \<open>i\<close>. \<open>acquireLoop\<close> is a statement of the owner's thread. The sub threads and the
  destructor are a step relation: a sub thread is a program counter, and a section under
  the mutex is one step, possible while the mutex is free.
\<close>

datatype loop_state = Initialized | Running | Exit

text \<open>
  A sub thread before it has registered its loop; in the wait; woken, to look at the state
  again; in \<open>startLoop\<close>; behind it; at its end.
\<close>

datatype sub_thread = SNew | SWaiting | SWoken | SLoop | SAfter | SDone

record loop_pool =
  mpMainLoop :: nat
  mMaxThreadNum :: int
  mSubThreads :: "sub_thread list"
  mSubLoops :: "nat list"
  mSubLoopStates :: "nat \<Rightarrow> loop_state option"
  mIndex :: nat
  poolLocked :: bool
  quitLoops :: "nat set"
  joinedThreads :: nat

type_synonym 'a loops_exec = "(failure, loop_pool, 'a) exec"

definition EventLoopPool_new :: "int \<Rightarrow> nat option \<Rightarrow> int \<Rightarrow> failure + loop_pool" where
  "EventLoopPool_new hw mainLoop maxThreadNum =
     (if maxThreadNum < 0 then Inl (Terminate ''[EventLoopPool] bad maxThreadNum'')
      else case mainLoop of
        None \<Rightarrow> Inl (Terminate ''[EventLoopPool] loop must not be none!'')
      | Some l \<Rightarrow>
         let n = (if maxThreadNum > hw then hw else maxThreadNum) in
         Inr \<lparr>mpMainLoop = l, mMaxThreadNum = n, mSubThreads = replicate (nat n) SNew, mSubLoops = [],
              mSubLoopStates = Map.empty, mIndex = 0, poolLocked = False, quitLoops = {}, joinedThreads = 0\<rparr>)"

fun wake_sub :: "sub_thread \<Rightarrow> sub_thread" where
  "wake_sub SWaiting = SWoken"
| "wake_sub t = t"

definition notify_subs :: "loop_pool \<Rightarrow> loop_pool" where
  "notify_subs s = s\<lparr>mSubThreads := map wake_sub (mSubThreads s)\<rparr>"

text \<open>
  With sub threads but no registered loop yet the index is taken modulo zero. The index
  is a \<open>size_t\<close>.
\<close>

definition acquireLoop :: "nat loops_exec" where
  "acquireLoop = withE (\<lambda>s.
     if mMaxThreadNum s = 0 then retE (mpMainLoop s)
     else if mSubLoops s = [] then throwE (Undefined ''index modulo zero'')
     else let l = mSubLoops s ! (mIndex s mod length (mSubLoops s)) in
       thenE (modifyE (\<lambda>s. s\<lparr>mIndex := (mIndex s + 1) mod 2 ^ 64\<rparr>))
       (thenE (whenE (mSubLoopStates s l = Some Initialized)
          (modifyE (\<lambda>s. notify_subs (s\<lparr>mSubLoopStates := (mSubLoopStates s)(l \<mapsto> Running)\<rparr>))))
        (retE l)))"

text \<open>The destructor holds the mutex from its first statement to its end.\<close>

definition pool_delete_start :: "loop_pool \<Rightarrow> loop_pool" where
  "pool_delete_start s = notify_subs (s\<lparr>poolLocked := True,
     mSubLoopStates := (\<lambda>l. if l \<in> set (mSubLoops s) then Some Exit else mSubLoopStates s l),
     quitLoops := quitLoops s \<union> set (mSubLoops s)\<rparr>)"

definition put_sub :: "nat \<Rightarrow> sub_thread \<Rightarrow> loop_pool \<Rightarrow> loop_pool" where
  "put_sub i t s = s\<lparr>mSubThreads := (mSubThreads s)[i := t]\<rparr>"

text \<open>A sub thread registers its loop and waits; it looks at the state when it was woken.\<close>

definition register_loop :: "nat \<Rightarrow> loop_pool \<Rightarrow> loop_pool" where
  "register_loop i s = put_sub i SWaiting (s\<lparr>mSubLoops := mSubLoops s @ [i], mSubLoopStates := (mSubLoopStates s)(i \<mapsto> Initialized)\<rparr>)"

definition look_state :: "nat \<Rightarrow> loop_pool \<Rightarrow> loop_pool" where
  "look_state i s = put_sub i (if mSubLoopStates s i = Some Running then SLoop else SWaiting) s"

inductive loops_step :: "loop_pool \<Rightarrow> loop_pool \<Rightarrow> bool" where
  register: "i < length (mSubThreads s) \<Longrightarrow> mSubThreads s ! i = SNew \<Longrightarrow> \<not> poolLocked s \<Longrightarrow>
     loops_step s (register_loop i s)"
| look: "i < length (mSubThreads s) \<Longrightarrow> mSubThreads s ! i = SWoken \<Longrightarrow> \<not> poolLocked s \<Longrightarrow>
     loops_step s (look_state i s)"
| spurious: "i < length (mSubThreads s) \<Longrightarrow> mSubThreads s ! i = SWaiting \<Longrightarrow> loops_step s (put_sub i SWoken s)"
| loop_ends: "i < length (mSubThreads s) \<Longrightarrow> mSubThreads s ! i = SLoop \<Longrightarrow> i \<in> quitLoops s \<Longrightarrow> loops_step s (put_sub i SAfter s)"
| leave: "i < length (mSubThreads s) \<Longrightarrow> mSubThreads s ! i = SAfter \<Longrightarrow> \<not> poolLocked s \<Longrightarrow> loops_step s (put_sub i SDone s)"
| acquire: "\<not> poolLocked s \<Longrightarrow> acquireLoop s = (Inr l, s') \<Longrightarrow> loops_step s s'"
| destroy: "\<not> poolLocked s \<Longrightarrow> loops_step s (pool_delete_start s)"
| join: "poolLocked s \<Longrightarrow> joinedThreads s < length (mSubThreads s) \<Longrightarrow> mSubThreads s ! joinedThreads s = SDone \<Longrightarrow>
     loops_step s (s\<lparr>joinedThreads := joinedThreads s + 1\<rparr>)"

inductive_cases loops_stepE: "loops_step s s'"

definition loops_reach :: "loop_pool \<Rightarrow> loop_pool \<Rightarrow> bool" where
  "loops_reach = loops_step\<^sup>*\<^sup>*"

text \<open>The destructor has returned: every thread is joined.\<close>

definition pool_deleted :: "loop_pool \<Rightarrow> bool" where
  "pool_deleted s \<longleftrightarrow> poolLocked s \<and> joinedThreads s = length (mSubThreads s)"

section \<open>Invariants\<close>

definition loops_inv :: "loop_pool \<Rightarrow> bool" where
  "loops_inv s \<longleftrightarrow> joinedThreads s = 0 \<and> SDone \<notin> set (mSubThreads s)
     \<and> (poolLocked s \<or> (quitLoops s = {} \<and> SAfter \<notin> set (mSubThreads s)))"

lemma sub_set_update: "x \<in> set (xs[i := v]) \<Longrightarrow> x = v \<or> x \<in> set xs"
  using set_update_subset_insert [of xs i v] by blast

lemma wake_sub_eq [simp]: "SDone = wake_sub t \<longleftrightarrow> t = SDone" "SAfter = wake_sub t \<longleftrightarrow> t = SAfter"
  by (cases t; simp)+

lemma acquire_frame:
  "acquireLoop s = (Inr l, s') \<Longrightarrow> joinedThreads s' = joinedThreads s \<and> poolLocked s' = poolLocked s \<and> quitLoops s' = quitLoops s
    \<and> length (mSubThreads s') = length (mSubThreads s)
    \<and> (SDone \<in> set (mSubThreads s') \<longleftrightarrow> SDone \<in> set (mSubThreads s)) \<and> (SAfter \<in> set (mSubThreads s') \<longleftrightarrow> SAfter \<in> set (mSubThreads s))"
  by (auto simp: acquireLoop_def Let_def notify_subs_def whenE_def exec_simps split: if_splits)

lemma loops_inv_step: "loops_inv s \<Longrightarrow> loops_step s s' \<Longrightarrow> loops_inv s' \<and> length (mSubThreads s') = length (mSubThreads s)"
proof (erule loops_stepE, goal_cases)
  case (6 l)
  with acquire_frame [of s l s'] show ?case by (auto simp: loops_inv_def)
next
  case 8
  then have "SDone \<in> set (mSubThreads s)" by (metis nth_mem)
  with 8 show ?case by (simp add: loops_inv_def)
next
  case (5 i)
  then have "SAfter \<in> set (mSubThreads s)" by (metis nth_mem)
  with 5 show ?case by (simp add: loops_inv_def)
qed (auto simp: loops_inv_def put_sub_def register_loop_def look_state_def pool_delete_start_def notify_subs_def dest!: sub_set_update)

lemma loops_inv_reach: "loops_reach s0 s \<Longrightarrow> loops_inv s0 \<Longrightarrow> loops_inv s \<and> length (mSubThreads s) = length (mSubThreads s0)"
  unfolding loops_reach_def by (induction rule: rtranclp_induct) (auto dest: loops_inv_step)

lemma loops_inv_new:
  assumes "EventLoopPool_new hw l n = Inr s"
  shows "loops_inv s" and "length (mSubThreads s) = nat (mMaxThreadNum s)"
  using assms by (auto simp: EventLoopPool_new_def Let_def loops_inv_def split: if_splits option.splits)

section \<open>Acquiring loops\<close>

primrec acquire_many :: "nat \<Rightarrow> nat list loops_exec" where
  "acquire_many 0 = retE []"
| "acquire_many (Suc k) = bindE acquireLoop (\<lambda>l. bindE (acquire_many k) (\<lambda>ls. retE (l # ls)))"

lemma acquire_step:
  assumes "mMaxThreadNum s \<noteq> 0" and "mSubLoops s \<noteq> []"
  shows "\<exists>s'. acquireLoop s = (Inr (mSubLoops s ! (mIndex s mod length (mSubLoops s))), s')
    \<and> mMaxThreadNum s' = mMaxThreadNum s \<and> mSubLoops s' = mSubLoops s \<and> mIndex s' = (mIndex s + 1) mod 2 ^ 64"
  using assms by (simp add: acquireLoop_def Let_def notify_subs_def whenE_def exec_simps)

lemma acquire_many_eq:
  assumes "mMaxThreadNum s \<noteq> 0" and "mSubLoops s \<noteq> []" and "mIndex s + k < 2 ^ 64"
  shows "fst (acquire_many k s) = Inr (map (\<lambda>j. mSubLoops s ! ((mIndex s + j) mod length (mSubLoops s))) [0 ..< k])"
  using assms
proof (induction k arbitrary: s)
  case 0
  then show ?case by simp
next
  case (Suc k)
  from acquire_step [OF Suc.prems(1,2)] obtain s' where
    s': "acquireLoop s = (Inr (mSubLoops s ! (mIndex s mod length (mSubLoops s))), s')"
      "mMaxThreadNum s' = mMaxThreadNum s" "mSubLoops s' = mSubLoops s" "mIndex s' = (mIndex s + 1) mod 2 ^ 64" by blast
  have i: "mIndex s' = mIndex s + 1" using s'(4) Suc.prems(3) by simp
  then have "mIndex s' + k < 2 ^ 64" using Suc.prems(3) by simp
  with Suc.IH [of s'] s'(2,3) Suc.prems(1,2) i
  have r: "fst (acquire_many k s') = Inr (map (\<lambda>j. mSubLoops s ! ((mIndex s + Suc j) mod length (mSubLoops s))) [0 ..< k])" by simp
  have "fst (acquire_many (Suc k) s) = Inr (mSubLoops s ! (mIndex s mod length (mSubLoops s))
      # map (\<lambda>j. mSubLoops s ! ((mIndex s + Suc j) mod length (mSubLoops s))) [0 ..< k])"
    using r by (cases "acquire_many k s'") (auto simp: bindE_def s'(1))
  also have "\<dots> = Inr (map (\<lambda>j. mSubLoops s ! ((mIndex s + j) mod length (mSubLoops s))) [0 ..< Suc k])"
    by (simp add: upt_conv_Cons map_Suc_upt [symmetric] o_def del: upt_Suc)
  finally show ?case .
qed

text \<open>A full turn of the index visits every place once.\<close>

lemma rotate_turn: "map (\<lambda>j. xs ! ((m + j) mod length xs)) [0 ..< length xs] = rotate m xs"
  by (rule nth_equalityI) (simp_all add: nth_rotate)

lemma mset_rotate': "mset (rotate m xs) = mset xs"
proof (cases "xs = []")
  case False
  then have "rotate m xs = drop (m mod length xs) xs @ take (m mod length xs) xs" by (simp add: rotate_drop_take)
  then show ?thesis by (metis add.commute append_take_drop_id mset_append)
qed simp

section \<open>Properties\<close>

text \<open>C36: Loops are handed out in turn: as many requests as there are registered loops, with none
  registered in between, give every loop exactly once, starting from the index.\<close>

theorem acquire_fair:
  assumes "mMaxThreadNum s \<noteq> 0" and "mSubLoops s \<noteq> []" and "mIndex s + length (mSubLoops s) < 2 ^ 64"
  shows "\<exists>ls. fst (acquire_many (length (mSubLoops s)) s) = Inr ls \<and> ls = rotate (mIndex s) (mSubLoops s)
    \<and> mset ls = mset (mSubLoops s)"
  using acquire_many_eq [OF assms] by (simp add: rotate_turn mset_rotate')

definition demo_pool :: loop_pool where
  "demo_pool = \<lparr>mpMainLoop = 9, mMaxThreadNum = 3, mSubThreads = [SWaiting, SWaiting, SNew], mSubLoops = [1, 0],
     mSubLoopStates = [0 \<mapsto> Initialized, 1 \<mapsto> Initialized], mIndex = 5, poolLocked = False, quitLoops = {}, joinedThreads = 0\<rparr>"

theorem acquire_fair_witness:
  "\<exists>ls. fst (acquire_many (length (mSubLoops demo_pool)) demo_pool) = Inr ls \<and> ls = rotate (mIndex demo_pool) (mSubLoops demo_pool)
    \<and> mset ls = mset (mSubLoops demo_pool)"
  by (rule acquire_fair) (simp_all add: demo_pool_def)

text \<open>A new pool with sub threads has no loop yet; a request that comes before the first of
  them has registered divides by zero.\<close>

theorem acquire_too_early:
  assumes "EventLoopPool_new hw (Some l) n = Inr s"
  shows "acquireLoop s = (if mMaxThreadNum s = 0 then (Inr l, s) else (Inl (Undefined ''index modulo zero''), s))"
  using assms by (auto simp: EventLoopPool_new_def Let_def acquireLoop_def split: if_splits)

theorem acquire_too_early_witness:
  "case EventLoopPool_new 8 (Some 9) 2 of Inl _ \<Rightarrow> False
   | Inr s \<Rightarrow> acquireLoop s = (if mMaxThreadNum s = 0 then (Inr 9, s) else (Inl (Undefined ''index modulo zero''), s))"
  using acquire_too_early [of 8 9 2] by (simp add: EventLoopPool_new_def Let_def)

text \<open>C37: The destructor of a pool with sub threads does not return. It joins them while it holds
  the mutex that they need to end, so in no state that can be reached is a single thread
  joined.\<close>

theorem destructor_blocks:
  assumes "EventLoopPool_new hw l n = Inr s0" and "loops_reach s0 s" and "mMaxThreadNum s0 > 0"
  shows "joinedThreads s = 0 \<and> SDone \<notin> set (mSubThreads s) \<and> \<not> pool_deleted s"
proof -
  from loops_inv_reach [OF assms(2) loops_inv_new(1) [OF assms(1)]] have
    i: "loops_inv s" "length (mSubThreads s) = nat (mMaxThreadNum s0)" using loops_inv_new(2) [OF assms(1)] by simp_all
  with assms(3) show ?thesis by (auto simp: loops_inv_def pool_deleted_def)
qed

definition demo_new :: loop_pool where
  "demo_new = \<lparr>mpMainLoop = 9, mMaxThreadNum = 1, mSubThreads = [SNew], mSubLoops = [], mSubLoopStates = Map.empty,
     mIndex = 0, poolLocked = False, quitLoops = {}, joinedThreads = 0\<rparr>"

theorem destructor_blocks_witness:
  "joinedThreads (pool_delete_start demo_new) = 0 \<and> SDone \<notin> set (mSubThreads (pool_delete_start demo_new))
   \<and> \<not> pool_deleted (pool_delete_start demo_new)"
proof (rule destructor_blocks)
  show "EventLoopPool_new 8 (Some 9) 1 = Inr demo_new" by (simp add: EventLoopPool_new_def demo_new_def)
  have "loops_step demo_new (pool_delete_start demo_new)" by (rule destroy) (simp add: demo_new_def)
  then show "loops_reach demo_new (pool_delete_start demo_new)" by (auto simp: loops_reach_def)
  show "0 < mMaxThreadNum demo_new" by (simp add: demo_new_def)
qed

end
