(* ===== verification/PooledServer.thy ===== *)
theory PooledServer
  imports ServerStart EventLoopPool
begin

text \<open>
  The server with \<open>maxThreadNum\<close> above zero (\<open>src/tcp/TcpServer.cpp\<close>,
  \<open>src/net/EventLoopPool.cpp\<close>): its own loop accepts, and each connection lives in one of
  the loops of the pool. Every loop is the state of \<open>ServerSafety\<close>, run by the thread of the
  same number; an operation of a loop becomes one of the process by \<open>in_loop\<close>. The loop's
  \<open>mConnectionSet\<close>, \<open>conns\<close> and \<open>openFds\<close> are its share of the process's; numbers of
  connections and descriptors are told apart loop by loop.

  The threads interleave. A step is what a thread does between two system calls or
  callbacks: entering \<open>epoll_wait\<close>, its return, the callbacks of one channel, a batch of
  functors. The code does not lock the poller of a loop, which the accepting thread changes
  too; the steps are atomic here.
\<close>

datatype loop_pc = Between | Blocked | Serving "addr list"

record 'u pool_server =
  worlds :: "nat \<Rightarrow> 'u client_loop"
  thePool :: loop_pool
  progress :: "nat \<Rightarrow> loop_pc"

type_synonym ('u, 'a) pool_exec = "(failure, 'u pool_server, 'a) exec"

section \<open>Running code in a loop\<close>

text \<open>
  A loop as the code sees it that the thread \<open>t\<close> runs: the members of the server are those
  of the main loop's state, and \<open>tCurrentLoop\<close> is the thread's own.
\<close>

definition with_server :: "'u client_loop \<Rightarrow> nat option \<Rightarrow> 'u client_loop \<Rightarrow> 'u client_loop" where
  "with_server m t w = w\<lparr>tCurrentLoop := t, mpListenSocket := mpListenSocket m, sConnectionCb := sConnectionCb m,
     sMessageCb := sMessageCb m, sWriteCompleteCb := sWriteCompleteCb m, sHighWaterMarkCb := sHighWaterMarkCb m\<rparr>"

abbreviation mainLoop :: "'u pool_server \<Rightarrow> nat" where
  "mainLoop s \<equiv> mpMainLoop (thePool s)"

definition view :: "nat \<Rightarrow> nat \<Rightarrow> 'u pool_server \<Rightarrow> 'u client_loop" where
  "view t l s = with_server (worlds s (mainLoop s)) (tCurrentLoop (worlds s t)) (worlds s l)"

lemma view_main: "view (mainLoop s) (mainLoop s) s = worlds s (mainLoop s)"
  by (simp add: view_def with_server_def)

definition put_world :: "nat \<Rightarrow> nat \<Rightarrow> 'u client_loop \<Rightarrow> 'u pool_server \<Rightarrow> 'u pool_server" where
  "put_world t l w s = s\<lparr>worlds := (worlds s)
     (l := if t = l then w else w\<lparr>tCurrentLoop := tCurrentLoop (worlds s l)\<rparr>)\<rparr>"

lemma put_world_same [simp]: "put_world t t (worlds s t) s = s"
  by (simp add: put_world_def)

definition in_loop :: "nat \<Rightarrow> nat \<Rightarrow> (failure, 'u client_loop, 'a) exec \<Rightarrow> ('u, 'a) pool_exec" where
  "in_loop t l m s = (case m (view t l s) of (r, w) \<Rightarrow> (r, put_world t l w s))"

definition on_pool :: "'a loops_exec \<Rightarrow> ('u, 'a) pool_exec" where
  "on_pool m s = (case m (thePool s) of (r, p) \<Rightarrow> (r, s\<lparr>thePool := p\<rparr>))"

text \<open>The loops that exist, and how many connections the loops but one have.\<close>

definition pool_loops :: "'u pool_server \<Rightarrow> nat set" where
  "pool_loops s = insert (mainLoop s) (set (mSubLoops (thePool s)))"

definition elsewhere :: "nat \<Rightarrow> 'u pool_server \<Rightarrow> nat" where
  "elsewhere l s = (\<Sum>i \<in> pool_loops s - {l}. card (mConnectionSet (worlds s i)))"

section \<open>Construction and accepting\<close>

text \<open>
  \<open>mEventLoopPool\<close> is initialised first. When the body throws it is destroyed, which does
  not return once there are sub threads (lemma \<open>destructor_blocks\<close>).
\<close>

definition pool_TcpServer_new :: "int \<Rightarrow> int \<Rightarrow> nat \<Rightarrow> kernel \<Rightarrow> SocketAddr \<Rightarrow> int \<Rightarrow> string \<Rightarrow> ('u, unit) pool_exec" where
  "pool_TcpServer_new hw maxThreadNum l k serverAddr maxListenQueue ident =
     (case EventLoopPool_new hw (Some l) maxThreadNum of
        Inl e \<Rightarrow> throwE e
      | Inr p \<Rightarrow> thenE (modifyE (\<lambda>s. s\<lparr>thePool := p\<rparr>))
          (catchE (in_loop l l (TcpServer_new k serverAddr maxListenQueue ident))
            (\<lambda>e. if fatal e then throwE e
                 else thenE (on_pool (modifyE pool_delete_start)) (throwE (if mMaxThreadNum p = 0 then e else Hang)))))"

text \<open>
  \<open>createNewConnection\<close> in the thread \<open>t\<close>. It takes a loop of the pool and runs the rest
  by that loop's \<open>runInLoop\<close>; \<open>job\<close> is the name the functor would be queued by.
\<close>

definition pool_createNewConnection :: "'u task \<Rightarrow> nat \<Rightarrow> kernel \<Rightarrow> ('u, unit) usr \<Rightarrow> ('u, unit) pool_exec" where
  "pool_createNewConnection job t k usr = thenE (in_loop t t assertInLoopThread)
     (withE (\<lambda>s.
        if mMaxThreadNum (thePool s) = 0
        then in_loop t (mainLoop s) (createNewConnectionInSubLoop k (elsewhere (mainLoop s) s) usr)
        else bindE (on_pool acquireLoop) (\<lambda>l. withE (\<lambda>s.
          in_loop t l (runInLoop k (\<lambda>_. createNewConnectionInSubLoop k (elsewhere l s) usr) job)))))"

text \<open>A channel callback that the thread \<open>t\<close> runs in its own loop.\<close>

definition pool_cb :: "'u task \<Rightarrow> nat \<Rightarrow> kernel \<Rightarrow> ('u, unit) usr \<Rightarrow> 'u chan_cb \<Rightarrow> ('u, unit) pool_exec" where
  "pool_cb job t k usr cb = (if cb = ServerRead then pool_createNewConnection job t k usr
     else in_loop t t (run_cb k usr cb))"

definition pool_handleEvent :: "'u task \<Rightarrow> nat \<Rightarrow> kernel \<Rightarrow> ('u, unit) usr \<Rightarrow> addr \<Rightarrow> ('u, unit) pool_exec" where
  "pool_handleEvent job t k usr a = withE (\<lambda>s. case channels (worlds s t) a of
     None \<Rightarrow> throwE (Undefined ''access to a deleted Channel'')
   | Some c \<Rightarrow> forE (pool_cb job t k usr) (handleEvent_calls c))"

section \<open>The threads\<close>

text \<open>
  \<open>Start\<close>: a sub thread makes its loop and registers it. \<open>Look\<close>: it wakes up, and enters
  \<open>startLoop\<close> when its loop is in use. \<open>Wait\<close>, \<open>Poll\<close>, \<open>Handle\<close>, \<open>Tasks\<close>: the parts
  of a round of \<open>startLoop\<close>. A step that is not the thread's next one changes nothing. An
  exception that leaves a sub thread's function ends the process.
\<close>

datatype server_event = Start nat kernel | Look nat | Wait nat | Poll nat kernel | Handle nat kernel | Tasks nat kernel

fun event_kernel :: "server_event \<Rightarrow> kernel option" where
  "event_kernel (Start l k) = Some k"
| "event_kernel (Look l) = None"
| "event_kernel (Wait l) = None"
| "event_kernel (Poll l k) = Some k"
| "event_kernel (Handle l k) = Some k"
| "event_kernel (Tasks l k) = Some k"

definition sub_at :: "nat \<Rightarrow> sub_thread set \<Rightarrow> 'u pool_server \<Rightarrow> bool" where
  "sub_at l pcs s \<longleftrightarrow> l < length (mSubThreads (thePool s)) \<and> mSubThreads (thePool s) ! l \<in> pcs \<and> \<not> poolLocked (thePool s)"

definition looping :: "nat \<Rightarrow> 'u pool_server \<Rightarrow> bool" where
  "looping l s \<longleftrightarrow> l = mainLoop s \<or> sub_at l {SLoop} s"

definition thread_body :: "nat \<Rightarrow> ('u, 'a) pool_exec \<Rightarrow> ('u, 'a) pool_exec" where
  "thread_body l m = withE (\<lambda>s. if l = mainLoop s then m else noexcept m)"

definition set_progress :: "nat \<Rightarrow> loop_pc \<Rightarrow> ('u, unit) pool_exec" where
  "set_progress l pc = modifyE (\<lambda>s. s\<lparr>progress := (progress s)(l := pc)\<rparr>)"

definition enter_loop :: "('u, 'z, unit) client_exec" where
  "enter_loop = block [assertInLoopThread, modifyE (\<lambda>w. w\<lparr>mIsExit := False\<rparr>)]"

definition start_sub :: "nat \<Rightarrow> kernel \<Rightarrow> ('u, unit) pool_exec" where
  "start_sub l k = block
     [noexcept (in_loop l l (thenE (EventLoop_new k) (modifyE (\<lambda>w. w\<lparr>mConnectionSet := {}\<rparr>)))),
      on_pool (modifyE (register_loop l))]"

definition look_sub :: "nat \<Rightarrow> ('u, unit) pool_exec" where
  "look_sub l = thenE (on_pool (modifyE (look_state l)))
     (withE (\<lambda>s. whenE (sub_at l {SLoop} s) (noexcept (in_loop l l enter_loop))))"

definition poll_loop :: "prio_sort \<Rightarrow> nat \<Rightarrow> kernel \<Rightarrow> ('u, unit) pool_exec" where
  "poll_loop srt l k = bindE (in_loop l l (Epoller_poll k srt)) (\<lambda>active. block
     [in_loop l l (whenE (length active = 0) (modifyE (\<lambda>w. w\<lparr>mIsLoopingNow := False\<rparr>))),
      set_progress l (Serving active)])"

fun server_step :: "prio_sort \<Rightarrow> 'u task \<Rightarrow> (kernel \<Rightarrow> ('u, unit) usr) \<Rightarrow> server_event \<Rightarrow> ('u, unit) pool_exec" where
  "server_step srt job usr (Start l k) = withE (\<lambda>s. whenE (sub_at l {SNew} s) (start_sub l k))"
| "server_step srt job usr (Look l) = withE (\<lambda>s. whenE (sub_at l {SWaiting, SWoken} s) (look_sub l))"
| "server_step srt job usr (Wait l) = withE (\<lambda>s. whenE (looping l s \<and> progress s l = Between \<and> \<not> mIsExit (worlds s l))
     (thenE (in_loop l l (modifyE (\<lambda>w. w\<lparr>mIsLoopingNow := True\<rparr>))) (set_progress l Blocked)))"
| "server_step srt job usr (Poll l k) = withE (\<lambda>s. whenE (looping l s \<and> progress s l = Blocked)
     (thread_body l (poll_loop srt l k)))"
| "server_step srt job usr (Handle l k) = withE (\<lambda>s. case progress s l of
     Serving (a # as) \<Rightarrow> whenE (looping l s) (thenE (set_progress l (Serving as))
       (whenE (hasChannel (mpPoller (worlds s l)) a) (thread_body l (pool_handleEvent job l k (usr k) a))))
   | _ \<Rightarrow> retE ())"
| "server_step srt job usr (Tasks l k) = withE (\<lambda>s. whenE (looping l s \<and> progress s l = Serving [])
     (block [in_loop l l (modifyE (\<lambda>w. w\<lparr>mIsLoopingNow := False\<rparr>)),
             thread_body l (in_loop l l (doPendingTasks (run_task k (usr k)) (discard_task k))),
             set_progress l Between]))"

section \<open>The invariant\<close>

text \<open>What \<open>serving\<close> says of a loop apart from the members of the server and the thread.\<close>

definition hosting :: "(addr \<Rightarrow> 'u chan_cb channel option) \<Rightarrow> 'u client_loop \<Rightarrow> bool" where
  "hosting Oth w \<longleftrightarrow> conn_inv (mConnectionSet w) {} Oth w \<and> finite (mConnectionSet w) \<and> clientState w = Disconnect
     \<and> (\<forall>a ch. Oth a = Some ch \<longrightarrow> chan_cbs ch \<subseteq> server_cbs)
     \<and> (\<forall>c. conns w c \<noteq> None \<longrightarrow> c \<in> mConnectionSet w) \<and> queue_ok (mPendingTasks w)"

definition listening :: "'u client_loop \<Rightarrow> bool" where
  "listening w \<longleftrightarrow> (\<exists>s. mpListenSocket w = Some s \<and> mIsListenSocket s \<and> mIsTCPSocket s)"

lemma serving_iff: "serving lim Oth w \<longleftrightarrow> hosting Oth w \<and> card (mConnectionSet w) \<le> lim \<and> isInLoopThread w \<and> listening w"
  by (auto simp: serving_def server_rest_def hosting_def listening_def)

lemma hosting_with_server [simp]: "hosting Oth (with_server m t w) = hosting Oth w"
  by (simp add: hosting_def with_server_def conn_inv_def conn_wf_def conn_ok_def net_wf_def fds_open_def others_def fun_eq_iff)

lemma hosting_thread [simp]: "hosting Oth (w\<lparr>tCurrentLoop := t\<rparr>) = hosting Oth w"
  by (simp add: hosting_def conn_inv_def conn_wf_def conn_ok_def net_wf_def fds_open_def others_def fun_eq_iff)

lemma with_server_fields [simp]:
  "mConnectionSet (with_server m t w) = mConnectionSet w" "conns (with_server m t w) = conns w"
  "channels (with_server m t w) = channels w" "mpPoller (with_server m t w) = mpPoller w"
  "mPendingTasks (with_server m t w) = mPendingTasks w" "isInLoopThread (with_server m t w) \<longleftrightarrow> t \<noteq> None"
  "listening (with_server m t w) = listening m"
  by (simp_all add: with_server_def isInLoopThread_def listening_def)

definition pool_wf :: "loop_pool \<Rightarrow> bool" where
  "pool_wf p \<longleftrightarrow> set (mSubLoops p) = {i. i < length (mSubThreads p) \<and> mSubThreads p ! i \<noteq> SNew}
     \<and> length (mSubThreads p) \<le> mpMainLoop p \<and> \<not> poolLocked p"

definition connections :: "'u pool_server \<Rightarrow> nat" where
  "connections s = (\<Sum>i \<in> pool_loops s. card (mConnectionSet (worlds s i)))"

text \<open>
  Every loop hosts live connections only, all of them together no more than the server
  admits; a sub thread that has not started has nothing.
\<close>

definition pooled_inv :: "'u pool_server \<Rightarrow> bool" where
  "pooled_inv s \<longleftrightarrow> pool_wf (thePool s) \<and> listening (worlds s (mainLoop s)) \<and> connections s \<le> MAX_CONNECTION_NUMS
     \<and> (\<forall>l \<in> pool_loops s. tCurrentLoop (worlds s l) \<noteq> None \<and> (\<exists>Oth. hosting Oth (worlds s l)))
     \<and> (\<forall>l. sub_at l {SNew} s \<longrightarrow> fresh_process (worlds s l))"

lemma finite_loops [simp]: "finite (pool_loops s)"
  by (simp add: pool_loops_def)

lemma connections_split: "l \<in> pool_loops s \<Longrightarrow> connections s = card (mConnectionSet (worlds s l)) + elsewhere l s"
  unfolding connections_def elsewhere_def by (simp add: sum.remove)

lemma view_serving:
  assumes "pooled_inv s" and "t \<in> pool_loops s" and "l \<in> pool_loops s"
  shows "\<exists>Oth. serving (MAX_CONNECTION_NUMS - elsewhere l s) Oth (view t l s)"
  using assms connections_split [OF assms(3)] by (auto simp: pooled_inv_def serving_iff view_def)

text \<open>The other loops do not see what one of them does.\<close>

lemma put_world_fields [simp]:
  "thePool (put_world t l w s) = thePool s" "progress (put_world t l w s) = progress s"
  "pool_loops (put_world t l w s) = pool_loops s" "elsewhere l (put_world t l w s) = elsewhere l s"
  "sub_at i pcs (put_world t l w s) = sub_at i pcs s"
  "worlds (put_world t l w s) l = (if t = l then w else w\<lparr>tCurrentLoop := tCurrentLoop (worlds s l)\<rparr>)"
  "i \<noteq> l \<Longrightarrow> worlds (put_world t l w s) i = worlds s i"
  by (simp_all add: put_world_def pool_loops_def elsewhere_def sub_at_def)

lemma listening_thread [simp]: "listening (w\<lparr>tCurrentLoop := t\<rparr>) = listening w"
  by (simp add: listening_def)

lemma new_not_loop: "pool_wf (thePool s) \<Longrightarrow> sub_at l {SNew} s \<Longrightarrow> l \<notin> pool_loops s"
  by (auto simp: pool_wf_def sub_at_def pool_loops_def)

lemma put_world_inv:
  assumes inv: "pooled_inv s" and l: "l \<in> pool_loops s"
    and w: "serving (MAX_CONNECTION_NUMS - elsewhere l s) Oth w"
  shows "pooled_inv (put_world t l w s)"
proof -
  let ?s = "put_world t l w s"
  have w': "hosting Oth w" "isInLoopThread w" "listening w" "card (mConnectionSet w) \<le> MAX_CONNECTION_NUMS - elsewhere l s"
    using w by (simp_all add: serving_iff)
  have "elsewhere l s \<le> MAX_CONNECTION_NUMS" using inv connections_split [OF l] by (simp add: pooled_inv_def)
  with w'(4) connections_split [of l ?s] l have "connections ?s \<le> MAX_CONNECTION_NUMS" by simp
  moreover have "listening (worlds ?s (mainLoop s))"
    using inv w'(3) by (cases "mainLoop s = l") (auto simp: pooled_inv_def)
  moreover have "tCurrentLoop (worlds ?s i) \<noteq> None \<and> (\<exists>Oth. hosting Oth (worlds ?s i))" if "i \<in> pool_loops s" for i
    using inv that w'(1,2) by (cases "i = l") (auto simp: pooled_inv_def isInLoopThread_def)
  moreover have "fresh_process (worlds ?s i)" if "sub_at i {SNew} s" for i
    using inv that l new_not_loop [OF _ that] by (cases "i = l") (auto simp: pooled_inv_def)
  ultimately show ?thesis using inv by (simp add: pooled_inv_def)
qed

lemma sound_in_loop:
  assumes inv: "pooled_inv s" and t: "t \<in> pool_loops s" and l: "l \<in> pool_loops s"
    and m: "\<And>Oth. serving (MAX_CONNECTION_NUMS - elsewhere l s) Oth (view t l s) \<Longrightarrow>
      sound (\<lambda>w. (\<exists>Oth. serving (MAX_CONNECTION_NUMS - elsewhere l s) Oth w) \<and> P w) m (view t l s)"
    and P: "\<And>w x. P (w\<lparr>tCurrentLoop := x\<rparr>) = P w"
  shows "sound (\<lambda>s'. pooled_inv s' \<and> P (worlds s' l) \<and> thePool s' = thePool s) (in_loop t l m) s"
proof (cases "m (view t l s)")
  case (Pair r w)
  from view_serving [OF inv t l] m have
    "sound (\<lambda>w. (\<exists>Oth. serving (MAX_CONNECTION_NUMS - elsewhere l s) Oth w) \<and> P w) m (view t l s)" by blast
  with Pair put_world_inv [OF inv l] show ?thesis
    by (auto simp: sound_def in_loop_def P split: sum.splits)
qed

section \<open>Steps of the threads\<close>

text \<open>A loop has registered, so that \<open>acquireLoop\<close> finds one; \<open>at_loop t\<close>: the loop \<open>t\<close> is one of them.\<close>

definition pool_up :: "'u pool_server \<Rightarrow> bool" where
  "pool_up s \<longleftrightarrow> pooled_inv s \<and> (mMaxThreadNum (thePool s) \<noteq> 0 \<longrightarrow> mSubLoops (thePool s) \<noteq> [])"

definition at_loop :: "nat \<Rightarrow> 'u pool_server \<Rightarrow> bool" where
  "at_loop t s \<longleftrightarrow> pool_up s \<and> t \<in> pool_loops s"

lemma at_loop_main: "pool_up s \<Longrightarrow> at_loop (mainLoop s) s"
  by (simp add: at_loop_def pool_loops_def)

lemma at_loop_sub: "pool_up s \<Longrightarrow> sub_at l pcs s \<Longrightarrow> SNew \<notin> pcs \<Longrightarrow> at_loop l s"
  by (auto simp: at_loop_def pool_loops_def pool_up_def pooled_inv_def pool_wf_def sub_at_def)

lemma at_loop_in:
  assumes "at_loop t s" and "l \<in> pool_loops s"
    and "\<And>Oth. serving (MAX_CONNECTION_NUMS - elsewhere l s) Oth (view t l s) \<Longrightarrow>
      sound (\<lambda>w. (\<exists>Oth. serving (MAX_CONNECTION_NUMS - elsewhere l s) Oth w) \<and> P w) m (view t l s)"
    and "\<And>w x. P (w\<lparr>tCurrentLoop := x\<rparr>) = P w"
  shows "sound (\<lambda>s'. at_loop t s' \<and> P (worlds s' l) \<and> pool_loops s' = pool_loops s) (in_loop t l m) s"
proof -
  have "sound (\<lambda>s'. pooled_inv s' \<and> P (worlds s' l) \<and> thePool s' = thePool s) (in_loop t l m) s"
    by (rule sound_in_loop) (use assms in \<open>simp_all add: at_loop_def pool_up_def\<close>)
  then show ?thesis
    by (rule sound_mono) (use assms(1) in \<open>simp add: at_loop_def pool_up_def pool_loops_def\<close>)
qed

lemma at_loop_own:
  assumes "at_loop t s"
    and "\<And>lim Oth w. serving lim Oth w \<Longrightarrow> sound (serving lim Oth) m w"
  shows "sound (at_loop t) (in_loop t t m) s"
proof -
  have "sound (\<lambda>s'. at_loop t s' \<and> True \<and> pool_loops s' = pool_loops s) (in_loop t t m) s"
    by (rule at_loop_in [OF assms(1)]) (use assms in \<open>auto simp: at_loop_def intro: sound_mono\<close>)
  then show ?thesis by (rule sound_mono) simp
qed

lemma sound_noexcept: "sound P m s \<Longrightarrow> sound P (noexcept m) s"
  by (auto simp: sound_def noexcept_def catchE_def split: prod.splits sum.splits)

lemma sound_thread_body: "sound P m s \<Longrightarrow> sound P (thread_body l m) s"
  using sound_noexcept [of P m s] by (simp add: thread_body_def sound_def)

lemma at_loop_progress [simp]: "at_loop t (s\<lparr>progress := f\<rparr>) = at_loop t s"
  by (simp add: at_loop_def pool_up_def pooled_inv_def pool_loops_def connections_def sub_at_def)

lemma sound_progress: "at_loop t s \<Longrightarrow> sound (at_loop t) (set_progress l pc) s"
  by (simp add: set_progress_def sound_def)

text \<open>The pool as the code changes it: no loop goes.\<close>

lemma wake_new [simp]: "wake_sub x = SNew \<longleftrightarrow> x = SNew" "SNew = wake_sub x \<longleftrightarrow> x = SNew"
  by (cases x; simp)+

definition same_loops :: "loop_pool \<Rightarrow> loop_pool \<Rightarrow> bool" where
  "same_loops p q \<longleftrightarrow> mSubLoops q = mSubLoops p \<and> mpMainLoop q = mpMainLoop p \<and> mMaxThreadNum q = mMaxThreadNum p
     \<and> length (mSubThreads q) = length (mSubThreads p) \<and> poolLocked q = poolLocked p
     \<and> (\<forall>i < length (mSubThreads p). mSubThreads q ! i = SNew \<longleftrightarrow> mSubThreads p ! i = SNew)"

lemma at_loop_pool:
  assumes "at_loop t s" and "same_loops (thePool s) p"
  shows "at_loop t (s\<lparr>thePool := p\<rparr>)"
proof -
  have "pool_wf p" using assms by (auto simp: at_loop_def pool_up_def pooled_inv_def pool_wf_def same_loops_def)
  moreover have "sub_at i {SNew} s" if "sub_at i {SNew} (s\<lparr>thePool := p\<rparr>)" for i
    using that assms(2) by (auto simp: sub_at_def same_loops_def)
  ultimately show ?thesis using assms
    by (auto simp: at_loop_def pool_up_def pooled_inv_def pool_loops_def connections_def same_loops_def)
qed

lemma acquire_same:
  assumes "mMaxThreadNum p \<noteq> 0" and "mSubLoops p \<noteq> []"
  shows "\<exists>l p'. acquireLoop p = (Inr l, p') \<and> l \<in> set (mSubLoops p) \<and> same_loops p p'"
  using assms by (simp add: acquireLoop_def Let_def notify_subs_def whenE_def exec_simps same_loops_def)

lemma look_same: "i < length (mSubThreads p) \<Longrightarrow> mSubThreads p ! i \<noteq> SNew \<Longrightarrow> same_loops p (look_state i p)"
  by (auto simp: same_loops_def look_state_def put_sub_def nth_list_update)

lemma starting_hosting: "starting w \<Longrightarrow> mConnectionSet w = {} \<Longrightarrow> hosting (others w) w"
  using starting_conn_inv [of w]
  by (auto simp: hosting_def starting_def shell_def idle_def queue_ok_def others_def chan_cbs_def split: option.splits if_splits)

lemma sound_new_loop:
  assumes "fresh_process w" and "ctl_ok k"
  shows "sound (\<lambda>w. hosting (others w) w \<and> isInLoopThread w \<and> mConnectionSet w = {})
     (thenE (EventLoop_new k) (modifyE (\<lambda>w. w\<lparr>mConnectionSet := {}\<rparr>))) w"
proof (rule sound_then [OF sound_EventLoop_new [OF assms]])
  fix v :: "'a client_loop" assume "starting v"
  then have "starting (v\<lparr>mConnectionSet := {}\<rparr>)" by (simp add: starting_def isInLoopThread_def)
  with starting_hosting [OF this] show "sound (\<lambda>w. hosting (others w) w \<and> isInLoopThread w \<and> mConnectionSet w = {})
      (modifyE (\<lambda>w. w\<lparr>mConnectionSet := {}\<rparr>)) v"
    by (simp add: sound_def starting_def)
qed

lemma register_wf: "pool_wf p \<Longrightarrow> l < length (mSubThreads p) \<Longrightarrow> mSubThreads p ! l = SNew \<Longrightarrow> pool_wf (register_loop l p)"
  by (auto simp: pool_wf_def register_loop_def put_sub_def nth_list_update)

lemma pool_register:
  assumes inv: "pooled_inv s" and l: "sub_at l {SNew} s"
    and w: "hosting Oth w" "isInLoopThread w" "mConnectionSet w = {}"
  shows "pool_up ((put_world l l w s)\<lparr>thePool := register_loop l (thePool s)\<rparr>)"
proof -
  let ?s = "(put_world l l w s)\<lparr>thePool := register_loop l (thePool s)\<rparr>"
  have wf: "pool_wf (thePool s)" and new: "l \<notin> pool_loops s"
    using inv new_not_loop [OF _ l] by (simp_all add: pooled_inv_def)
  have loops: "pool_loops ?s = insert l (pool_loops s)"
    by (auto simp: pool_loops_def register_loop_def put_sub_def)
  have ws: "worlds ?s i = (if i = l then w else worlds s i)" for i by (simp add: put_world_def)
  have "(\<Sum>i \<in> pool_loops s. card (mConnectionSet (if i = l then w else worlds s i))) = connections s"
    unfolding connections_def by (rule sum.cong) (use new in auto)
  then have "connections ?s = card (mConnectionSet w) + connections s"
    unfolding connections_def [of ?s] loops sum.insert [OF finite_loops new] ws by simp
  then have "connections ?s \<le> MAX_CONNECTION_NUMS" using inv w(3) by (simp add: pooled_inv_def)
  moreover have main: "mainLoop ?s = mainLoop s" by (simp add: register_loop_def put_sub_def)
  moreover have "listening (worlds ?s (mainLoop ?s))"
  proof -
    have "worlds ?s (mainLoop ?s) = worlds s (mainLoop s)" using new by (simp only: main ws) (simp add: pool_loops_def)
    with inv show ?thesis by (simp add: pooled_inv_def)
  qed
  moreover have "tCurrentLoop (worlds ?s i) \<noteq> None \<and> (\<exists>Oth. hosting Oth (worlds ?s i))" if "i \<in> pool_loops ?s" for i
    using inv w that unfolding loops ws by (auto simp: pooled_inv_def isInLoopThread_def)
  moreover have "fresh_process (worlds ?s i)" if "sub_at i {SNew} ?s" for i
  proof -
    have "i \<noteq> l \<and> sub_at i {SNew} s"
      using that l by (cases "i = l") (auto simp: sub_at_def register_loop_def put_sub_def)
    with inv show ?thesis unfolding ws by (simp add: pooled_inv_def)
  qed
  moreover have "pool_wf (thePool ?s)" using register_wf [OF wf] l by (simp add: sub_at_def)
  moreover have "mSubLoops (thePool ?s) \<noteq> []" by (simp add: register_loop_def put_sub_def)
  ultimately show ?thesis by (simp add: pool_up_def pooled_inv_def)
qed

lemma sound_start_sub:
  assumes inv: "pooled_inv s" and l: "sub_at l {SNew} s" and k: "kernel_ok k"
  shows "sound pool_up (start_sub l k) s"
proof -
  let ?m = "thenE (EventLoop_new k) (modifyE (\<lambda>w. w\<lparr>mConnectionSet := {}\<rparr>))"
  have "fresh_process (view l l s)"
    using inv l by (auto simp: pooled_inv_def view_def fresh_process_def idle_def with_server_def)
  then have new: "sound (\<lambda>w. hosting (others w) w \<and> isInLoopThread w \<and> mConnectionSet w = {}) ?m (view l l s)"
    by (rule sound_new_loop) (use k in \<open>simp add: kernel_ok_def\<close>)
  obtain r w where r: "?m (view l l s) = (r, w)" by fastforce
  have "sound (\<lambda>s'. \<exists>w. s' = put_world l l w s \<and> hosting (others w) w \<and> isInLoopThread w \<and> mConnectionSet w = {}) (in_loop l l ?m) s"
    using new r by (auto simp: sound_def in_loop_def split: sum.splits)
  then show ?thesis unfolding start_sub_def block.simps
  proof (rule sound_then [OF sound_noexcept])
    fix s' assume "\<exists>w. s' = put_world l l w s \<and> hosting (others w) w \<and> isInLoopThread w \<and> mConnectionSet w = {}"
    with pool_register [OF inv l] show "sound pool_up (thenE (on_pool (modifyE (register_loop l))) (retE ())) s'"
      by (auto simp: sound_def thenE_def bindE_def on_pool_def)
  qed
qed

lemma at_loop_up: "at_loop t s \<Longrightarrow> pool_up s"
  by (simp add: at_loop_def)

lemma sound_look_sub:
  assumes up: "pool_up s" and l: "sub_at l {SWaiting, SWoken} s"
  shows "sound pool_up (look_sub l) s"
proof -
  let ?s = "s\<lparr>thePool := look_state l (thePool s)\<rparr>"
  have "at_loop l ?s"
    by (rule at_loop_pool [OF at_loop_sub [OF up l]]) (use l in \<open>auto simp: sub_at_def intro: look_same\<close>)
  then have "sound (at_loop l) (noexcept (in_loop l l enter_loop)) ?s"
    by (intro sound_noexcept at_loop_own) (auto simp: sound_def enter_loop_def thenE_def bindE_def assertInLoopThread_def serving_def server_rest_def isInLoopThread_def)
  then have "sound (at_loop l) (withE (\<lambda>s. whenE (sub_at l {SLoop} s) (noexcept (in_loop l l enter_loop)))) ?s"
    using \<open>at_loop l ?s\<close> by (intro sound_with sound_when)
  then show ?thesis by (auto simp: look_sub_def sound_def thenE_def bindE_def on_pool_def dest: at_loop_up split: prod.splits sum.splits)
qed

text \<open>
  \<open>isInLoopThread\<close> asks only whether the running thread has a loop, so \<open>runInLoop\<close> of
  another loop runs the functor at once, in the calling thread, and queues nothing.
\<close>

lemma runInLoop_at_once:
  "at_loop t s \<Longrightarrow> in_loop t l (runInLoop k (\<lambda>_. m) job) s = in_loop t l m s"
  by (simp add: in_loop_def runInLoop_def view_def at_loop_def pool_up_def pooled_inv_def)

section \<open>Without sub threads\<close>

text \<open>
  With an empty pool the process is its main loop: accepting is that of \<open>TcpServer\<close>, and the
  steps of the loop, taken in order, are the rounds of \<open>EventLoop\<close>.
\<close>

definition solo :: "nat \<Rightarrow> 'u pool_server \<Rightarrow> bool" where
  "solo l s \<longleftrightarrow> mainLoop s = l \<and> mMaxThreadNum (thePool s) = 0 \<and> mSubLoops (thePool s) = [] \<and> mSubThreads (thePool s) = []"

lemma solo_fields [simp]: "solo l (s\<lparr>worlds := f\<rparr>) = solo l s" "solo l (s\<lparr>progress := g\<rparr>) = solo l s"
  by (simp_all add: solo_def)

lemma in_own:
  assumes "mainLoop s = l"
  shows "in_loop l l m s = (case m (worlds s l) of (r, w) \<Rightarrow> (r, s\<lparr>worlds := (worlds s)(l := w)\<rparr>))"
proof -
  have "view l l s = worlds s l" using assms view_main [of s] by simp
  then show ?thesis by (simp add: in_loop_def put_world_def)
qed

lemma in_main:
  "solo l s \<Longrightarrow> in_loop l l m s = (case m (worlds s l) of (r, w) \<Rightarrow> (r, s\<lparr>worlds := (worlds s)(l := w)\<rparr>))"
  by (simp add: in_own solo_def)

lemma solo_accept:
  assumes "solo l s"
  shows "pool_createNewConnection job l k usr s = in_loop l l (createNewConnection k usr) s"
proof -
  have "elsewhere l s = 0" "mainLoop s = l" "mMaxThreadNum (thePool s) = 0"
    using assms by (simp_all add: solo_def elsewhere_def pool_loops_def)
  then show ?thesis
    by (cases "isInLoopThread (worlds s l)")
      (simp_all add: pool_createNewConnection_def thenE_def bindE_def in_main assms createNewConnection_def assertInLoopThread_def)
qed

lemma solo_for:
  assumes "\<And>x s. solo l s \<Longrightarrow> g x s = in_loop l l (f x) s"
  shows "solo l s \<Longrightarrow> forE g xs s = in_loop l l (forE f xs) s"
proof (induction xs arbitrary: s)
  case Nil
  then show ?case by (simp add: in_main)
next
  case (Cons x xs)
  obtain r w where r: "f x (worlds s l) = (r, w)" by fastforce
  from Cons.IH [of "s\<lparr>worlds := (worlds s)(l := w)\<rparr>"] Cons.prems r show ?case
    by (cases r) (auto simp: thenE_def bindE_def assms in_main split: prod.splits)
qed

lemma solo_handle:
  assumes s: "solo l s"
  shows "pool_handleEvent job l k usr a s = in_loop l l (handleEvent (run_cb k usr) a) s"
proof (cases "channels (worlds s l) a")
  case None
  with s show ?thesis by (simp add: pool_handleEvent_def handleEvent_def with_channel_def in_main)
next
  case (Some ch)
  have cb: "pool_cb job l k usr cb s = in_loop l l (run_cb k usr cb) s" if "solo l s" for cb and s :: "'a pool_server"
    using solo_accept [OF that] by (simp add: pool_cb_def)
  from solo_for [of l, OF cb s] Some s show ?thesis
    by (simp add: pool_handleEvent_def handleEvent_def with_channel_def in_main)
qed

text \<open>One channel of the active ones, in the loop.\<close>

definition handle_one :: "kernel \<Rightarrow> ('u, unit) usr \<Rightarrow> addr \<Rightarrow> (failure, 'u client_loop, unit) exec" where
  "handle_one k usr a = withE (\<lambda>w. if hasChannel (mpPoller w) a then handleEvent (run_cb k usr) a else retE ())"

lemma solo_Handle:
  assumes "solo l s" and "progress s l = Serving (a # as)"
  shows "server_step srt job usr (Handle l k) s = (case handle_one k (usr k) a (worlds s l) of
     (r, w) \<Rightarrow> (r, s\<lparr>worlds := (worlds s)(l := w), progress := (progress s)(l := Serving as)\<rparr>))"
proof -
  let ?s = "s\<lparr>progress := (progress s)(l := Serving as)\<rparr>"
  have s: "solo l ?s" "looping l s" using assms(1) by (simp_all add: looping_def solo_def)
  from solo_handle [OF s(1)] assms s(2) show ?thesis
    by (simp add: in_main [OF s(1)] handle_one_def set_progress_def thenE_def bindE_def thread_body_def solo_def whenE_def fun_upd_idem
        split: prod.split)
qed

lemma solo_Handles:
  assumes "solo l s" and "progress s l = Serving as" and "forE (handle_one k (usr k)) as (worlds s l) = (r, w)"
  shows "case r of
      Inr _ \<Rightarrow> forE (server_step srt job usr) (replicate (length as) (Handle l k) @ evs) s
        = forE (server_step srt job usr) evs (s\<lparr>worlds := (worlds s)(l := w), progress := (progress s)(l := Serving [])\<rparr>)
    | Inl e \<Rightarrow> (\<exists>s'. forE (server_step srt job usr) (replicate (length as) (Handle l k) @ evs) s = (Inl e, s') \<and> worlds s' l = w)"
  using assms
proof (induction as arbitrary: s)
  case Nil
  then show ?case by (auto simp: fun_upd_idem)
next
  case (Cons a as)
  obtain q v where q: "handle_one k (usr k) a (worlds s l) = (q, v)" by fastforce
  let ?s = "s\<lparr>worlds := (worlds s)(l := v), progress := (progress s)(l := Serving as)\<rparr>"
  have st: "server_step srt job usr (Handle l k) s = (q, ?s)" using solo_Handle [OF Cons.prems(1,2)] q by simp
  show ?case
  proof (cases q)
    case (Inl e)
    with q Cons.prems(3) have "r = Inl e" "v = w" by (auto simp: thenE_def bindE_def)
    with Inl st show ?thesis by (simp add: thenE_def bindE_def del: server_step.simps)
  next
    case (Inr u)
    with q Cons.prems(3) have "forE (handle_one k (usr k)) as (worlds ?s l) = (r, w)" by (simp add: thenE_def bindE_def)
    moreover have "solo l ?s" "progress ?s l = Serving as" using Cons.prems(1) by simp_all
    ultimately show ?thesis using Cons.IH [of ?s] st Inr
      by (cases r) (simp_all add: thenE_def bindE_def del: server_step.simps)
  qed
qed

lemma loop_round_handles: "loop_round k srt (run_cb k usr) run disc = thenE (modifyE (\<lambda>w. w\<lparr>mIsLoopingNow := True\<rparr>))
    (bindE (Epoller_poll k srt) (\<lambda>active. block
      [whenE (length active = 0) (modifyE (\<lambda>w. w\<lparr>mIsLoopingNow := False\<rparr>)),
       forE (handle_one k usr) active,
       modifyE (\<lambda>w. w\<lparr>mIsLoopingNow := False\<rparr>),
       doPendingTasks run disc]))"
  unfolding loop_round_def handle_one_def ..

text \<open>The steps of a thread that no other interrupts are a round of \<open>startLoop\<close>, to the same end.\<close>

definition round_events :: "nat \<Rightarrow> kernel \<Rightarrow> nat \<Rightarrow> server_event list" where
  "round_events l k n = Wait l # Poll l k # replicate n (Handle l k) @ [Tasks l k]"

definition ends_as :: "nat \<Rightarrow> 'u pool_server \<Rightarrow> failure + unit \<Rightarrow> 'u client_loop \<Rightarrow> (failure + unit) \<times> 'u pool_server \<Rightarrow> bool" where
  "ends_as l s r w run \<longleftrightarrow> fst run = r \<and> worlds (snd run) l = w \<and> (case r of
     Inl _ \<Rightarrow> True | Inr _ \<Rightarrow> snd run = s\<lparr>worlds := (worlds s)(l := w)\<rparr>)"

lemma steps_of_round:
  assumes s: "solo l s" and pc: "progress s l = Between" "\<not> mIsExit (worlds s l)"
    and r: "loop_round k srt (run_cb k (usr k)) (run_task k (usr k)) (discard_task k) (worlds s l) = (r, w)"
  shows "\<exists>n. ends_as l s r w (forE (server_step srt job usr) (round_events l k n) s)"
proof -
  let ?w0 = "(worlds s l)\<lparr>mIsLoopingNow := True\<rparr>"
  let ?s0 = "s\<lparr>worlds := (worlds s)(l := ?w0), progress := (progress s)(l := Blocked)\<rparr>"
  have main: "looping l t" "mainLoop t = l" if "solo l t" for t :: "'a pool_server"
    using that by (simp_all add: looping_def solo_def)
  have wait: "server_step srt job usr (Wait l) s = (Inr (), ?s0)"
    using main(1) [OF s] pc by (simp add: main(2) [OF s] in_main [OF s] thenE_def bindE_def set_progress_def)
  have s0: "solo l ?s0" using s by simp
  obtain p w1 where p: "Epoller_poll k srt ?w0 = (p, w1)" by fastforce
  show ?thesis
  proof (cases p)
    case (Inl e)
    have "server_step srt job usr (Poll l k) ?s0 = (Inl e, ?s0\<lparr>worlds := (worlds s)(l := w1)\<rparr>)"
      using main(1) [OF s0] p Inl by (simp add: main(2) [OF s] in_main [OF s0] thread_body_def poll_loop_def bindE_def)
    moreover have "r = Inl e" "w = w1" using r p Inl by (auto simp: loop_round_handles thenE_def bindE_def)
    ultimately show ?thesis using wait
      by (intro exI [of _ 0]) (auto simp: round_events_def ends_as_def thenE_def bindE_def simp del: server_step.simps)
  next
    case (Inr active)
    obtain w2 where w2: "w2 = (if active = [] then w1\<lparr>mIsLoopingNow := False\<rparr> else w1)" by simp
    let ?s2 = "s\<lparr>worlds := (worlds s)(l := w2), progress := (progress s)(l := Serving active)\<rparr>"
    have s2: "solo l ?s2" "progress ?s2 l = Serving active" using s by simp_all
    have poll: "server_step srt job usr (Poll l k) ?s0 = (Inr (), ?s2)"
      using main(1) [OF s0] p Inr s0
      by (simp add: main(2) [OF s] in_main thread_body_def poll_loop_def bindE_def thenE_def set_progress_def whenE_def w2)
    obtain h w3 where h: "forE (handle_one k (usr k)) active (worlds ?s2 l) = (h, w3)" by fastforce
    note hs = solo_Handles [where usr = usr, OF s2(1,2) h, of srt job "[Tasks l k]"]
    show ?thesis
    proof (cases h)
      case (Inl e)
      with r p Inr h have "r = Inl e" "w = w3" by (auto simp: loop_round_handles thenE_def bindE_def whenE_def w2 split: if_splits)
      with hs Inl wait poll show ?thesis
        by (intro exI [of _ "length active"]) (auto simp: round_events_def ends_as_def thenE_def bindE_def simp del: server_step.simps)
    next
      case (Inr u)
      let ?s3 = "?s2\<lparr>worlds := (worlds ?s2)(l := w3), progress := (progress ?s2)(l := Serving [])\<rparr>"
      have s3: "solo l ?s3" using s by simp
      have "doPendingTasks (run_task k (usr k)) (discard_task k) (w3\<lparr>mIsLoopingNow := False\<rparr>) = (r, w)"
        using r p \<open>p = Inr active\<close> h Inr
        by (auto simp: loop_round_handles thenE_def bindE_def whenE_def w2 split: if_splits prod.splits sum.splits)
      then have "ends_as l s r w (forE (server_step srt job usr) [Tasks l k] ?s3)"
        using main(1) [OF s3] s3 pc(1)
        by (cases r) (simp_all add: ends_as_def fun_upd_idem main(2) [OF s] in_main thread_body_def thenE_def bindE_def set_progress_def)
      with hs Inr wait poll show ?thesis
        by (intro exI [of _ "length active"]) (auto simp: round_events_def ends_as_def thenE_def bindE_def simp del: server_step.simps)
    qed
  qed
qed

lemma rounds_stopped:
  "solo l s \<Longrightarrow> progress s l = Between \<Longrightarrow> mIsExit (worlds s l) \<Longrightarrow>
    forE (server_step srt job usr) (concat (map2 (round_events l) ks (replicate (length ks) 0))) s = (Inr (), s)"
  by (induction ks) (simp_all add: round_events_def exec_simps)

lemma rounds_as_steps:
  assumes "solo l s" and "progress s l = Between"
    and "loop_rounds ks srt (\<lambda>k. run_cb k (usr k)) (\<lambda>k. run_task k (usr k)) discard_task (worlds s l) = (r, w)"
  shows "\<exists>ns. length ns = length ks
    \<and> ends_as l s r w (forE (server_step srt job usr) (concat (map2 (round_events l) ks ns)) s)"
  using assms
proof (induction ks arbitrary: s)
  case Nil
  then show ?case by (auto simp: ends_as_def)
next
  case (Cons k ks)
  show ?case
  proof (cases "mIsExit (worlds s l)")
    case True
    with Cons.prems(3) have "r = Inr ()" "w = worlds s l" by simp_all
    with rounds_stopped [OF Cons.prems(1,2) True, of srt job usr "k # ks"] show ?thesis
      by (intro exI [of _ "replicate (length (k # ks)) 0"]) (simp add: ends_as_def del: replicate.simps)
  next
    case False
    obtain q v where q: "loop_round k srt (run_cb k (usr k)) (run_task k (usr k)) (discard_task k) (worlds s l) = (q, v)" by fastforce
    obtain n where n: "ends_as l s q v (forE (server_step srt job usr) (round_events l k n) s)"
      using steps_of_round [where usr = usr, OF Cons.prems(1,2) False q, of job] ..
    obtain q' s1 where s1: "forE (server_step srt job usr) (round_events l k n) s = (q', s1)" by fastforce
    show ?thesis
    proof (cases q)
      case (Inl e)
      with q False Cons.prems(3) have "r = Inl e" "w = v" by (auto simp: thenE_def bindE_def)
      with n s1 Inl show ?thesis
        by (intro exI [of _ "n # replicate (length ks) 0"]) (simp add: ends_as_def forE_append thenE_def bindE_def)
    next
      case (Inr u)
      with n s1 have q': "q' = Inr u" and e: "s1 = s\<lparr>worlds := (worlds s)(l := v)\<rparr>" by (simp_all add: ends_as_def)
      have "solo l s1" "progress s1 l = Between" "worlds s1 l = v" using Cons.prems(1,2) by (simp_all add: e)
      with Cons.IH [of s1] q Inr False Cons.prems(3) obtain ns where
        "length ns = length ks" "ends_as l s1 r w (forE (server_step srt job usr) (concat (map2 (round_events l) ks ns)) s1)"
        by (auto simp: thenE_def bindE_def)
      with s1 q' show ?thesis
        by (intro exI [of _ "n # ns"]) (cases r; simp add: ends_as_def forE_append thenE_def bindE_def e)
    qed
  qed
qed

text \<open>A computation of the process that does to the loop \<open>l\<close> what \<open>c\<close> does to it alone.\<close>

definition follows :: "nat \<Rightarrow> ('u, unit) pool_exec \<Rightarrow> (failure, 'u client_loop, unit) exec \<Rightarrow> 'u pool_server \<Rightarrow> bool" where
  "follows l M c s \<longleftrightarrow> fst (M s) = fst (c (worlds s l)) \<and> worlds (snd (M s)) l = snd (c (worlds s l))"

lemma follows_then:
  assumes s: "solo l s" and next_step: "\<And>w. a (worlds s l) = (Inr (), w) \<Longrightarrow> \<exists>x. follows l (M x) c (s\<lparr>worlds := (worlds s)(l := w)\<rparr>)"
  shows "\<exists>x. follows l (thenE (in_loop l l a) (M x)) (thenE a c) s"
proof -
  obtain r w where a: "a (worlds s l) = (r, w)" by fastforce
  show ?thesis
  proof (cases r)
    case (Inl e)
    with a show ?thesis by (simp add: follows_def thenE_def bindE_def in_main [OF s])
  next
    case (Inr u)
    with a next_step obtain x where "follows l (M x) c (s\<lparr>worlds := (worlds s)(l := w)\<rparr>)" by auto
    with a Inr show ?thesis by (intro exI [of _ x]) (simp add: follows_def thenE_def bindE_def in_main [OF s])
  qed
qed

lemma startLoop_enter: "startLoop ks srt cbs tasks disc = thenE enter_loop (loop_rounds ks srt cbs tasks disc)"
  by (auto simp: startLoop_def enter_loop_def thenE_def bindE_def fun_eq_iff split: prod.splits sum.splits)

lemma startLoop_as_steps:
  assumes s: "solo l s" and pc: "progress s l = Between"
  shows "\<exists>evs. follows l (thenE (in_loop l l enter_loop) (forE (server_step srt job usr) (Start i k # evs))) (reactor ks srt usr) s"
  unfolding reactor_def startLoop_enter
proof (rule follows_then [OF s])
  fix w
  let ?s = "s\<lparr>worlds := (worlds s)(l := w)\<rparr>"
  obtain r v where r: "loop_rounds ks srt (\<lambda>k. run_cb k (usr k)) (\<lambda>k. run_task k (usr k)) discard_task (worlds ?s l) = (r, v)"
    by fastforce
  have "solo l ?s" "progress ?s l = Between" using s pc by simp_all
  from rounds_as_steps [where usr = usr, OF this r, of job] r
  show "\<exists>evs. follows l (forE (server_step srt job usr) (Start i k # evs))
      (loop_rounds ks srt (\<lambda>k. run_cb k (usr k)) (\<lambda>k. run_task k (usr k)) discard_task) ?s"
    using s by (auto simp: follows_def ends_as_def sub_at_def solo_def exec_simps)
qed

section \<open>The pool's part of a run\<close>

text \<open>Whatever the threads do, the pool inside the process makes steps of \<open>EventLoopPool\<close>.\<close>

definition pool_moves :: "'u pool_server \<Rightarrow> 'u pool_server \<Rightarrow> bool" where
  "pool_moves s t \<longleftrightarrow> (\<not> poolLocked (thePool s) \<longrightarrow> loops_reach (thePool s) (thePool t) \<and> \<not> poolLocked (thePool t))"

lemma preorder_pool_moves: "preorder_rel pool_moves"
  by (auto simp: preorder_rel_def pool_moves_def loops_reach_def)

lemma pool_moves_refl: "pool_moves s s"
  by (simp add: pool_moves_def loops_reach_def)

lemma moves_in_loop: "moves pool_moves (in_loop t l m)"
  by (rule movesI) (auto simp: in_loop_def pool_moves_def loops_reach_def split: prod.split)

lemma moves_acquire: "moves pool_moves (on_pool acquireLoop)"
proof (rule movesI)
  fix s :: "'u pool_server"
  obtain r p where r: "acquireLoop (thePool s) = (r, p)" by fastforce
  show "pool_moves s (snd (on_pool acquireLoop s))"
  proof (cases r)
    case (Inl e)
    then have "p = thePool s" using r
      by (auto simp: acquireLoop_def Let_def whenE_def exec_simps split: if_splits)
    with r show ?thesis by (simp add: on_pool_def pool_moves_def loops_reach_def)
  next
    case (Inr l)
    with r acquire [of "thePool s" l p] acquire_frame [of "thePool s" l p] show ?thesis
      by (auto simp: on_pool_def pool_moves_def loops_reach_def)
  qed
qed

lemma moves_accept: "moves pool_moves (pool_createNewConnection job t k usr)"
proof -
  have "moves pool_moves (on_pool acquireLoop)"
    by (rule moves_acquire)
  then show ?thesis unfolding pool_createNewConnection_def
    by (intro moves_then moves_with moves_if moves_bind moves_in_loop preorder_pool_moves)
qed

lemma register_reach: "i < length (mSubThreads p) \<Longrightarrow> mSubThreads p ! i = SNew \<Longrightarrow> \<not> poolLocked p \<Longrightarrow>
    loops_reach p (register_loop i p) \<and> \<not> poolLocked (register_loop i p)"
  using register [of i p] by (auto simp: loops_reach_def register_loop_def put_sub_def)

lemma look_reach:
  assumes "i < length (mSubThreads p)" and "mSubThreads p ! i \<in> {SWaiting, SWoken}" and "\<not> poolLocked p"
  shows "loops_reach p (look_state i p) \<and> \<not> poolLocked (look_state i p)"
proof -
  let ?q = "put_sub i SWoken p"
  have q: "loops_reach p ?q"
  proof (cases "mSubThreads p ! i = SWoken")
    case True
    then have "?q = p" using assms(1) by (simp add: put_sub_def list_update_same_conv)
    then show ?thesis by (simp add: loops_reach_def)
  qed (use assms spurious [of i p] in \<open>auto simp: loops_reach_def\<close>)
  have "loops_step ?q (look_state i ?q)" by (rule loops_step.look) (use assms in \<open>simp_all add: put_sub_def\<close>)
  moreover have "look_state i ?q = look_state i p" by (simp add: look_state_def put_sub_def)
  ultimately show ?thesis using q assms(3)
    by (simp add: loops_reach_def look_state_def put_sub_def)
qed

definition same_pool :: "'u pool_server \<Rightarrow> 'u pool_server \<Rightarrow> bool" where
  "same_pool s t \<longleftrightarrow> thePool t = thePool s"

lemma preorder_same_pool: "preorder_rel same_pool"
  by (auto simp: preorder_rel_def same_pool_def)

lemma same_in_loop: "moves same_pool (in_loop t l m)"
  by (rule movesI) (auto simp: in_loop_def same_pool_def split: prod.split)

lemma moves_start: "sub_at l {SNew} s \<Longrightarrow> pool_moves s (snd (start_sub l k s))"
proof -
  assume l: "sub_at l {SNew} s"
  let ?m = "noexcept (in_loop l l (thenE (EventLoop_new k) (modifyE (\<lambda>w. w\<lparr>mConnectionSet := {}\<rparr>))))"
  obtain r s1 where r: "?m s = (r, s1)" by fastforce
  have "thePool s1 = thePool s"
    using movesD [OF moves_noexcept [OF preorder_same_pool same_in_loop] r] by (simp add: same_pool_def)
  with r l register_reach [of l "thePool s"] show ?thesis
    by (cases r) (auto simp: start_sub_def thenE_def bindE_def on_pool_def pool_moves_def sub_at_def loops_reach_def)
qed

lemma moves_look: "sub_at l {SWaiting, SWoken} s \<Longrightarrow> pool_moves s (snd (look_sub l s))"
proof -
  assume l: "sub_at l {SWaiting, SWoken} s"
  let ?s = "s\<lparr>thePool := look_state l (thePool s)\<rparr>"
  let ?m = "withE (\<lambda>s. whenE (sub_at l {SLoop} s) (noexcept (in_loop l l enter_loop)))"
  obtain r s1 where r: "?m ?s = (r, s1)" by fastforce
  have "moves same_pool ?m"
    by (intro moves_with moves_when moves_noexcept same_in_loop preorder_same_pool)
  from movesD [OF this r] have "thePool s1 = look_state l (thePool s)" by (simp add: same_pool_def)
  with r l look_reach [of l "thePool s"] show ?thesis
    by (auto simp: look_sub_def thenE_def bindE_def on_pool_def pool_moves_def sub_at_def)
qed

lemma moves_pool_step: "moves pool_moves (server_step srt job usr ev)"
proof (cases ev)
  case (Start l k)
  have "pool_moves s (snd (server_step srt job usr ev s))" for s
    by (cases "sub_at l {SNew} s") (simp_all add: Start moves_start pool_moves_refl)
  then show ?thesis by (rule movesI)
next
  case (Look l)
  have "pool_moves s (snd (server_step srt job usr ev s))" for s
    by (cases "sub_at l {SWaiting, SWoken} s") (simp_all add: Look moves_look pool_moves_refl)
  then show ?thesis by (rule movesI)
next
  case (Handle l k)
  have "moves pool_moves (pool_cb job l k (usr k) cb)" for cb
    unfolding pool_cb_def by (intro moves_if moves_accept moves_in_loop)
  then have "moves pool_moves (pool_handleEvent job l k (usr k) a)" for a
    unfolding pool_handleEvent_def
    by (auto intro!: moves_with moves_throw moves_for preorder_pool_moves simp del: throwE_simp split: option.split)
  then have "moves pool_moves (thread_body l (pool_handleEvent job l k (usr k) a))" for a
    unfolding thread_body_def by (intro moves_with moves_if moves_noexcept preorder_pool_moves)
  moreover have "moves pool_moves (set_progress l pc)" for pc
    unfolding set_progress_def by (intro moves_modify) (simp add: pool_moves_def loops_reach_def)
  ultimately show ?thesis unfolding Handle server_step.simps
    by (auto intro!: moves_with moves_ret moves_when moves_then preorder_pool_moves simp del: retE_simp split: loop_pc.split list.split)
qed (auto intro!: moves_with moves_when moves_then moves_noexcept moves_if moves_block moves_bind moves_in_loop
    moves_modify preorder_pool_moves
    simp: thread_body_def poll_loop_def set_progress_def pool_moves_def loops_reach_def simp del: block.simps)

lemma run_pool_reach:
  assumes "forE (server_step srt job usr) evs s = (r, s')" and "\<not> poolLocked (thePool s)"
  shows "loops_reach (thePool s) (thePool s')"
  using movesD [OF moves_for [OF preorder_pool_moves moves_pool_step] assms(1)] assms(2) by (simp add: pool_moves_def)

section \<open>The application\<close>

locale pool_app = server_app usr for usr :: "kernel \<Rightarrow> ('u, unit) usr"
begin

lemma sound_accept_in:
  assumes k: "kernel_ok k" and t: "at_loop t s" and l: "l \<in> pool_loops s"
  shows "sound (at_loop t) (in_loop t l (createNewConnectionInSubLoop k (elsewhere l s) (usr k))) s"
proof -
  have "elsewhere l s \<le> MAX_CONNECTION_NUMS"
    using t connections_split [OF l] by (simp add: at_loop_def pool_up_def pooled_inv_def)
  then have "MAX_CONNECTION_NUMS - elsewhere l s + elsewhere l s = MAX_CONNECTION_NUMS" by simp
  from sound_accept_upto [OF k _ this]
  have "sound (\<lambda>s'. at_loop t s' \<and> True \<and> pool_loops s' = pool_loops s)
      (in_loop t l (createNewConnectionInSubLoop k (elsewhere l s) (usr k))) s"
    by (intro at_loop_in t l) (auto intro: sound_mono)
  then show ?thesis by (rule sound_mono) simp
qed

lemma sound_pool_accept:
  assumes k: "kernel_ok k" and t: "at_loop t s"
  shows "sound (at_loop t) (pool_createNewConnection job t k (usr k)) s"
proof -
  have th: "sound (at_loop t) (in_loop t t assertInLoopThread) s"
    by (rule at_loop_own [OF t]) (simp add: sound_def assertInLoopThread_def serving_iff)
  show ?thesis unfolding pool_createNewConnection_def
  proof (rule sound_then [OF th], rule sound_with)
    fix s :: "'u pool_server" assume t: "at_loop t s"
    show "sound (at_loop t) (if mMaxThreadNum (thePool s) = 0
        then in_loop t (mainLoop s) (createNewConnectionInSubLoop k (elsewhere (mainLoop s) s) (usr k))
        else bindE (on_pool acquireLoop) (\<lambda>l. withE (\<lambda>s.
          in_loop t l (runInLoop k (\<lambda>_. createNewConnectionInSubLoop k (elsewhere l s) (usr k)) job)))) s"
    proof (cases "mMaxThreadNum (thePool s) = 0")
      case True
      then show ?thesis using sound_accept_in [OF k t, of "mainLoop s"] by (simp add: pool_loops_def)
    next
      case False
      with t obtain l p where a: "acquireLoop (thePool s) = (Inr l, p)" "l \<in> set (mSubLoops (thePool s))" "same_loops (thePool s) p"
        using acquire_same [of "thePool s"] by (auto simp: at_loop_def pool_up_def)
      let ?s = "s\<lparr>thePool := p\<rparr>"
      have t': "at_loop t ?s" by (rule at_loop_pool [OF t a(3)])
      moreover have "l \<in> pool_loops ?s" using a(2,3) by (simp add: pool_loops_def same_loops_def)
      ultimately have "sound (at_loop t) (in_loop t l (createNewConnectionInSubLoop k (elsewhere l ?s) (usr k))) ?s"
        by (rule sound_accept_in [OF k])
      with False a(1) runInLoop_at_once [OF t'] show ?thesis
        by (simp add: sound_def bindE_def on_pool_def)
    qed
  qed
qed

lemma sound_pool_server_cb:
  assumes "kernel_ok k" and "at_loop t s" and "cb \<in> server_cbs"
  shows "sound (at_loop t) (pool_cb job t k (usr k) cb) s"
  using sound_pool_accept [OF assms(1,2)] at_loop_own [OF assms(2) sound_own_cb [OF _ assms(3)]]
  by (cases "cb = ServerRead") (auto simp: pool_cb_def)

lemma sound_pool_handle:
  assumes k: "kernel_ok k" and t: "at_loop t s" and ch: "channels (worlds s t) a = Some ch"
  shows "sound (at_loop t) (pool_handleEvent job t k (usr k) a) s"
proof -
  have calls: "set (handleEvent_calls ch) \<subseteq> chan_cbs ch"
    by (auto simp: handleEvent_calls_def chan_cbs_def)
  from view_serving [of s t t] t obtain lim Oth where "serving lim Oth (view t t s)"
    by (auto simp: at_loop_def pool_up_def)
  then have "chan_cbs ch \<subseteq> server_cbs \<or> (\<exists>c. server_at lim c Oth (view t t s) \<and> (\<forall>cb \<in> chan_cbs ch. refers cb = Some c))"
    by (rule channel_owner [where a = a]) (simp add: view_def ch)
  then have "sound (at_loop t) (forE (pool_cb job t k (usr k)) (handleEvent_calls ch)) s"
  proof (elim disjE exE conjE)
    assume "chan_cbs ch \<subseteq> server_cbs"
    with calls show ?thesis by (intro sound_for t sound_pool_server_cb k) auto
  next
    fix c assume at: "server_at lim c Oth (view t t s)" and r: "\<forall>cb \<in> chan_cbs ch. refers cb = Some c"
    let ?P = "\<lambda>w :: 'u client_loop. \<exists>tc. conns w c = Some tc \<and> mpChannel tc \<noteq> None"
    have one: "sound (\<lambda>s. at_loop t s \<and> ?P (worlds s t)) (pool_cb job t k (usr k) cb) u"
      if u: "at_loop t u \<and> ?P (worlds u t)" and cb: "refers cb = Some c" for cb u
    proof -
      have "sound (\<lambda>s. at_loop t s \<and> ?P (worlds s t) \<and> pool_loops s = pool_loops u) (in_loop t t (run_cb k (usr k) cb)) u"
      proof (rule at_loop_in, goal_cases)
        case (3 Oth)
        with u have "server_at (MAX_CONNECTION_NUMS - elsewhere t u) c Oth (view t t u)"
          by (simp add: server_at_def view_def)
        from good_sound [OF good_conn_cb [OF k cb this]] show ?case
          by (rule sound_mono) (auto simp: server_at_def)
      qed (use u in \<open>simp_all add: at_loop_def\<close>)
      moreover have "cb \<noteq> ServerRead" using cb by auto
      ultimately show ?thesis unfolding pool_cb_def by (auto intro: sound_mono)
    qed
    have "sound (\<lambda>s. at_loop t s \<and> ?P (worlds s t)) (forE (pool_cb job t k (usr k)) (handleEvent_calls ch)) s"
      by (rule sound_for, use at t in \<open>simp add: server_at_def view_def\<close>, rule one) (use calls r in auto)
    then show ?thesis by (rule sound_mono) simp
  qed
  with ch show ?thesis by (simp add: pool_handleEvent_def sound_def)
qed

lemma looping_at: "pool_up s \<Longrightarrow> looping l s \<Longrightarrow> at_loop l s"
  using at_loop_main at_loop_sub [of s l "{SLoop}"] by (auto simp: looping_def)

lemma sound_poll_loop:
  assumes t: "at_loop l s"
  shows "sound (at_loop l) (poll_loop srt l k) s"
  unfolding poll_loop_def block.simps
  by (rule sound_bind, rule at_loop_own [OF t], rule sound_poll, assumption,
      rule sound_then [where P = "at_loop l"], rule at_loop_own, assumption, intro sound_when sound_modify, assumption, simp,
      rule sound_then [where P = "at_loop l"], rule sound_progress, assumption, rule sound_ret, assumption)

lemma sound_tasks_loop:
  assumes k: "kernel_ok k" and t: "at_loop l s"
  shows "sound (at_loop l) (block [in_loop l l (modifyE (\<lambda>w. w\<lparr>mIsLoopingNow := False\<rparr>)),
      thread_body l (in_loop l l (doPendingTasks (run_task k (usr k)) (discard_task k))), set_progress l Between]) s"
  unfolding block.simps
  by (rule sound_then [where P = "at_loop l"], rule at_loop_own [OF t], rule sound_modify, simp,
      rule sound_then [where P = "at_loop l"], rule sound_thread_body, rule at_loop_own, assumption, rule sound_tasks [OF k], assumption,
      rule sound_then [where P = "at_loop l"], rule sound_progress, assumption, rule sound_ret, assumption)

lemma sound_handle_loop:
  assumes k: "kernel_ok k" and t: "at_loop l s"
  shows "sound (at_loop l) (thenE (set_progress l pc)
     (whenE (hasChannel (mpPoller (worlds s l)) a) (thread_body l (pool_handleEvent job l k (usr k) a)))) s"
proof -
  let ?s = "s\<lparr>progress := (progress s)(l := pc)\<rparr>"
  have t': "at_loop l ?s" using t by simp
  have "sound (at_loop l) (thread_body l (pool_handleEvent job l k (usr k) a)) ?s" if "hasChannel (mpPoller (worlds s l)) a"
  proof -
    have "net_wf (worlds s l)" using t by (auto simp: at_loop_def pool_up_def pooled_inv_def hosting_def conn_inv_def conn_wf_def)
    with that obtain ch where "channels (worlds ?s l) a = Some ch" by (auto simp: hasChannel_def net_wf_def)
    from sound_thread_body [OF sound_pool_handle [OF k t' this]] show ?thesis .
  qed
  then have "sound (at_loop l) (whenE (hasChannel (mpPoller (worlds s l)) a) (thread_body l (pool_handleEvent job l k (usr k) a))) ?s"
    using t' by (intro sound_when)
  then show ?thesis by (simp add: set_progress_def sound_def thenE_def bindE_def)
qed

lemma sound_pool_step:
  assumes up: "pool_up s" and k: "\<And>k. event_kernel ev = Some k \<Longrightarrow> kernel_ok k"
  shows "sound pool_up (server_step srt job usr ev) s"
proof (cases ev)
  case (Start l k')
  then show ?thesis using up k sound_start_sub [of s l k']
    by (auto simp: pool_up_def [of s] intro!: sound_with sound_when)
next
  case (Look l)
  then show ?thesis using up sound_look_sub [OF up] by (auto intro!: sound_with sound_when)
next
  case (Wait l)
  have "sound (at_loop l) (thenE (in_loop l l (modifyE (\<lambda>w. w\<lparr>mIsLoopingNow := True\<rparr>))) (set_progress l Blocked)) s"
    if "at_loop l s"
    by (rule sound_then [where P = "at_loop l"], rule at_loop_own [OF that], rule sound_modify, simp, rule sound_progress)
  with Wait up looping_at [OF up] show ?thesis
    by (auto intro!: sound_with sound_when intro: sound_mono at_loop_up)
next
  case (Poll l k')
  have "sound pool_up (thread_body l (poll_loop srt l k')) s" if "looping l s"
    by (rule sound_mono [OF sound_thread_body [OF sound_poll_loop [OF looping_at [OF up that]]]]) (rule at_loop_up)
  with Poll up show ?thesis by (auto intro!: sound_with sound_when)
next
  case (Handle l k')
  have "sound pool_up (case progress s l of Serving (a # as) \<Rightarrow> whenE (looping l s) (thenE (set_progress l (Serving as))
       (whenE (hasChannel (mpPoller (worlds s l)) a) (thread_body l (pool_handleEvent job l k' (usr k') a)))) | _ \<Rightarrow> retE ()) s"
  proof (cases "looping l s")
    case True
    have "sound pool_up (thenE (set_progress l pc) (whenE (hasChannel (mpPoller (worlds s l)) a)
        (thread_body l (pool_handleEvent job l k' (usr k') a)))) s" for pc a
      by (rule sound_mono [OF sound_handle_loop [OF k looping_at [OF up True]]]) (simp_all add: Handle at_loop_up)
    with True up show ?thesis
      by (auto intro: sound_ret simp del: retE_simp split: loop_pc.split list.split)
  qed (use up in \<open>auto intro: sound_ret simp del: retE_simp split: loop_pc.split list.split\<close>)
  with Handle show ?thesis by (auto intro: sound_with)
next
  case (Tasks l k')
  have "sound pool_up (block [in_loop l l (modifyE (\<lambda>w. w\<lparr>mIsLoopingNow := False\<rparr>)),
      thread_body l (in_loop l l (doPendingTasks (run_task k' (usr k')) (discard_task k'))), set_progress l Between]) s"
    if "looping l s"
    by (rule sound_mono [OF sound_tasks_loop [OF k looping_at [OF up that]]]) (simp_all add: Tasks at_loop_up)
  with Tasks up show ?thesis by (auto intro!: sound_with sound_when simp del: block.simps)
qed

lemma sound_pool_run:
  assumes "pool_up s" and "\<forall>ev \<in> set evs. \<forall>k. event_kernel ev = Some k \<longrightarrow> kernel_ok k"
  shows "sound pool_up (forE (server_step srt job usr) evs) s"
  using assms by (intro sound_for sound_pool_step) auto

end

end
