(* ===== verification/PooledHttp.thy ===== *)
theory PooledHttp
  imports HttpSafety PooledServer
begin

text \<open>
  The HTTP server with the \<open>maxThreadNum\<close> of its arguments (\<open>src/http/HttpServer.cpp\<close>):
  construction, start, and the run of all its threads. Each request is served in the loop of
  its connection.
\<close>

definition pool_HttpServer_new :: "int \<Rightarrow> int \<Rightarrow> nat \<Rightarrow> kernel \<Rightarrow> SocketAddr \<Rightarrow> int \<Rightarrow> string \<Rightarrow> ('u, unit) pool_exec" where
  "pool_HttpServer_new hw maxThreadNum l k serverAddr maxListenQueue ident = block
     [in_loop l l (EventLoop_new k),
      pool_TcpServer_new hw maxThreadNum l k serverAddr maxListenQueue ident]"

text \<open>\<open>start\<close> up to the first round of \<open>startLoop\<close>; the rounds are events.\<close>

definition pool_HttpServer_start :: "nat \<Rightarrow> kernel \<Rightarrow> 'v option \<Rightarrow> ('v http_closure, unit) pool_exec" where
  "pool_HttpServer_start l k connCb = block
     [in_loop l l (server_setConnectionCallback (map_option OnConnection connCb)),
      in_loop l l (server_setMessageCallback (Some OnMessage)),
      in_loop l l (TcpServer_start k),
      in_loop l l enter_loop]"

text \<open>
  The process. The first sub thread registers before the events, which are the steps of all
  threads in their order: a connection that arrives earlier divides by zero (lemma
  \<open>acquire_too_early\<close>).
\<close>

definition pool_http_run :: "int \<Rightarrow> int \<Rightarrow> nat \<Rightarrow> kernel \<Rightarrow> SocketAddr \<Rightarrow> int \<Rightarrow> string \<Rightarrow> prio_sort \<Rightarrow> unit http_closure task
    \<Rightarrow> header_order \<Rightarrow> request_handle option \<Rightarrow> server_event list \<Rightarrow> (unit http_closure, unit) pool_exec" where
  "pool_http_run hw maxThreadNum l k serverAddr maxListenQueue ident srt job order handle evs =
     (let step = server_step srt job (http_usr order handle log_connection) in block
       [pool_HttpServer_new hw maxThreadNum l k serverAddr maxListenQueue ident,
        pool_HttpServer_start l k (Some ()),
        step (Start 0 k),
        forE step evs])"

section \<open>The start\<close>

text \<open>The process before it: nothing was made, and the main loop has a number of its own.\<close>

definition fresh_pool :: "nat \<Rightarrow> 'u pool_server \<Rightarrow> bool" where
  "fresh_pool m s \<longleftrightarrow> mainLoop s = m \<and> (\<forall>l. fresh_process (worlds s l))"

definition main_at :: "nat \<Rightarrow> ('u client_loop \<Rightarrow> bool) \<Rightarrow> 'u pool_server \<Rightarrow> bool" where
  "main_at m P s \<longleftrightarrow> mainLoop s = m \<and> P (worlds s m) \<and> (\<forall>l. l \<noteq> m \<longrightarrow> fresh_process (worlds s l))"

text \<open>The pool as the constructor makes it.\<close>

definition new_pool :: "int \<Rightarrow> nat \<Rightarrow> 'u pool_server \<Rightarrow> bool" where
  "new_pool n m s \<longleftrightarrow> mMaxThreadNum (thePool s) = n \<and> 0 \<le> n \<and> mSubThreads (thePool s) = replicate (nat n) SNew
     \<and> mSubLoops (thePool s) = [] \<and> \<not> poolLocked (thePool s) \<and> nat n \<le> m"

lemma sound_in_main:
  assumes "main_at m P s" and "\<And>w. P w \<Longrightarrow> sound Q op w"
  shows "sound (\<lambda>s'. main_at m Q s' \<and> thePool s' = thePool s) (in_loop m m op) s"
proof -
  have v: "view m m s = worlds s m" "P (worlds s m)" using assms(1) view_main [of s] by (auto simp: main_at_def)
  obtain r w where r: "op (worlds s m) = (r, w)" by fastforce
  with assms(2) [OF v(2)] assms(1) v(1) show ?thesis
    by (auto simp: sound_def in_loop_def main_at_def split: sum.splits)
qed

lemma sound_in_main':
  assumes "main_at m P s \<and> new_pool n m s" and "\<And>w. P w \<Longrightarrow> sound Q op w"
  shows "sound (\<lambda>s'. main_at m Q s' \<and> new_pool n m s') (in_loop m m op) s"
  by (rule sound_mono [OF sound_in_main [of m P, OF _ assms(2)]]) (use assms(1) in \<open>auto simp: new_pool_def\<close>)

lemma sound_pool_TcpServer_new:
  assumes m: "main_at m starting s" and n: "nat maxThreadNum \<le> m" and hw: "0 \<le> hw" and k: "ctl_ok k"
  shows "sound (\<lambda>s'. \<exists>n. main_at m ready s' \<and> new_pool n m s') (pool_TcpServer_new hw maxThreadNum m k serverAddr q ident) s"
proof (cases "EventLoopPool_new hw (Some m) maxThreadNum")
  case (Inl e)
  then show ?thesis by (auto simp: pool_TcpServer_new_def sound_def EventLoopPool_new_def Let_def split: if_splits)
next
  case (Inr p)
  let ?s = "s\<lparr>thePool := p\<rparr>"
  have p: "mpMainLoop p = m" "new_pool (mMaxThreadNum p) m ?s"
    using Inr n hw by (auto simp: EventLoopPool_new_def Let_def new_pool_def split: if_splits)
  have "main_at m starting ?s" using m p(1) by (simp add: main_at_def)
  then have new: "sound (\<lambda>s'. main_at m ready s' \<and> thePool s' = thePool ?s) (in_loop m m (TcpServer_new k serverAddr q ident)) ?s"
    by (rule sound_in_main) (rule sound_TcpServer_new [OF _ k])
  obtain r s' where r: "in_loop m m (TcpServer_new k serverAddr q ident) ?s = (r, s')" by fastforce
  show ?thesis
    using new r Inr p by (cases r) (auto simp: pool_TcpServer_new_def sound_def thenE_def bindE_def catchE_def on_pool_def not_fatal_allowed new_pool_def)
qed

lemma with_callbacks: "ready w \<Longrightarrow> sound ready (server_setConnectionCallback cb) w"
  "ready w \<Longrightarrow> sound ready (server_setMessageCallback cb) w"
  by (simp_all add: sound_def server_setConnectionCallback_def server_setMessageCallback_def ready_callbacks)

lemma sound_enter: "ready w \<Longrightarrow> sound ready enter_loop w"
  by (simp add: sound_def enter_loop_def thenE_def bindE_def assertInLoopThread_def ready_def starting_def isInLoopThread_def)

lemma sound_pool_HttpServer_start:
  assumes "main_at m ready s \<and> new_pool n m s"
  shows "sound (\<lambda>s'. main_at m ready s' \<and> new_pool n m s') (pool_HttpServer_start m k cb) s"
  unfolding pool_HttpServer_start_def block.simps
  by (rule sound_then, rule sound_in_main' [OF assms], erule with_callbacks,
      rule sound_then, rule sound_in_main', assumption, erule with_callbacks,
      rule sound_then, rule sound_in_main', assumption, erule sound_TcpServer_start,
      rule sound_then, rule sound_in_main', assumption, erule sound_enter, erule sound_ret)

lemma started_pool_inv:
  assumes "main_at m ready s" and "new_pool n m s"
  shows "pooled_inv s"
proof -
  have loops: "pool_loops s = {m}" using assms by (simp add: main_at_def new_pool_def pool_loops_def)
  have r: "ready (worlds s m)" using assms(1) by (simp add: main_at_def)
  then have "serving MAX_CONNECTION_NUMS (others (worlds s m)) (worlds s m)" by (rule ready_server_inv)
  then have h: "hosting (others (worlds s m)) (worlds s m)" "isInLoopThread (worlds s m)" "listening (worlds s m)"
    by (simp_all add: serving_iff)
  have "connections s = 0" using r by (simp add: connections_def loops ready_def)
  moreover have "fresh_process (worlds s l)" if "sub_at l {SNew} s" for l
  proof -
    have "l \<noteq> m" using that assms(2) by (auto simp: sub_at_def new_pool_def)
    with assms(1) show ?thesis by (simp add: main_at_def)
  qed
  moreover have "pool_wf (thePool s)" using assms by (auto simp: pool_wf_def new_pool_def main_at_def)
  ultimately show ?thesis using h assms(1) by (auto simp: pooled_inv_def loops main_at_def isInLoopThread_def)
qed

context pool_app
begin

lemma sound_first:
  assumes "main_at m ready s" and "new_pool n m s" and "kernel_ok k"
  shows "sound pool_up (server_step srt job usr (Start 0 k)) s"
proof (cases "sub_at 0 {SNew} s")
  case True
  with sound_start_sub [OF started_pool_inv [OF assms(1,2)] True assms(3)] show ?thesis by (simp add: sound_def)
next
  case False
  with assms(2) have "n = 0" by (auto simp: sub_at_def new_pool_def)
  with False started_pool_inv [OF assms(1,2)] assms(2) show ?thesis by (simp add: sound_def pool_up_def new_pool_def)
qed

end

section \<open>The whole process\<close>

context request_handler
begin

lemma http_pool_app: "pool_app (http_usr order (Some handle) log_connection)"
  by (rule pool_app.intro) (rule http_app)

end

sublocale request_handler \<subseteq> pooled: pool_app "http_usr order (Some handle) log_connection" for order
  by (rule http_pool_app)

context request_handler
begin

lemma sound_pool_http:
  assumes s: "fresh_pool m s" and n: "nat maxThreadNum \<le> m" "0 \<le> hw" and k: "kernel_ok k"
    and evs: "\<forall>ev \<in> set evs. \<forall>k. event_kernel ev = Some k \<longrightarrow> kernel_ok k"
  shows "sound pool_up (pool_http_run hw maxThreadNum m k serverAddr q ident srt job order (Some handle) evs) s"
proof -
  have ctl: "ctl_ok k" using k by (simp add: kernel_ok_def)
  have "main_at m fresh_process s" using s by (simp add: fresh_pool_def main_at_def)
  then have "sound (\<lambda>s'. main_at m starting s' \<and> thePool s' = thePool s) (in_loop m m (EventLoop_new k)) s"
    by (rule sound_in_main) (rule sound_EventLoop_new [OF _ ctl])
  then have new: "sound (\<lambda>s'. \<exists>n. main_at m ready s' \<and> new_pool n m s')
      (pool_HttpServer_new hw maxThreadNum m k serverAddr q ident) s"
    unfolding pool_HttpServer_new_def block.simps
    by (rule sound_then, intro sound_then [OF sound_pool_TcpServer_new] n ctl) (auto intro: sound_ret simp del: retE_simp)
  show ?thesis
    unfolding pool_http_run_def Let_def block.simps
  proof (rule sound_then [OF new], elim exE)
    fix s :: "unit http_closure pool_server" and n
    assume st: "main_at m ready s \<and> new_pool n m s"
    show "sound pool_up (thenE (pool_HttpServer_start m k (Some ()))
        (thenE (server_step srt job (http_usr order (Some handle) log_connection) (Start 0 k))
          (thenE (forE (server_step srt job (http_usr order (Some handle) log_connection)) evs) (retE ())))) s"
      by (rule sound_then [OF sound_pool_HttpServer_start [OF st]], elim conjE,
          rule sound_then, rule pooled.sound_first [OF _ _ k], assumption, assumption,
          rule sound_then, rule pooled.sound_pool_run [OF _ evs], assumption, erule sound_ret)
  qed
qed

end

section \<open>Without sub threads\<close>

text \<open>The constructor: on an error the pool, which has no threads, goes as well.\<close>

lemma solo_new:
  assumes m: "mainLoop s = l" and hw: "0 \<le> hw" and r: "HttpServer_new k addr q ident (worlds s l) = (r, w)"
  shows "\<exists>s'. pool_HttpServer_new hw 0 l k addr q ident s = (r, s') \<and> worlds s' l = w
    \<and> (\<forall>u. r = Inr u \<longrightarrow> solo l s' \<and> progress s' = progress s)"
proof -
  obtain p where p: "EventLoopPool_new hw (Some l) 0 = Inr p" "mpMainLoop p = l" "mMaxThreadNum p = 0" "mSubLoops p = []" "mSubThreads p = []"
    using hw by (simp add: EventLoopPool_new_def)
  obtain r1 w1 where n: "EventLoop_new k (worlds s l) = (r1, w1)" by fastforce
  show ?thesis
  proof (cases r1)
    case (Inl e)
    with n r show ?thesis by (auto simp: pool_HttpServer_new_def HttpServer_new_def thenE_def bindE_def in_own [OF m])
  next
    case (Inr u)
    let ?s = "s\<lparr>worlds := (worlds s)(l := w1), thePool := p\<rparr>"
    obtain r2 w2 where t: "TcpServer_new k addr q ident w1 = (r2, w2)" by fastforce
    have "in_loop l l (TcpServer_new k addr q ident) ?s = (r2, ?s\<lparr>worlds := (worlds s)(l := w2)\<rparr>)"
      by (subst in_own) (use t p(2) in simp_all)
    with n r t Inr p m show ?thesis
      by (cases r2) (auto simp: pool_HttpServer_new_def pool_TcpServer_new_def HttpServer_new_def thenE_def bindE_def catchE_def
        in_own [OF m] on_pool_def solo_def)
  qed
qed

lemma pool_start_then: "thenE (pool_HttpServer_start l k cb) M =
    thenE (in_loop l l (server_setConnectionCallback (map_option OnConnection cb)))
      (thenE (in_loop l l (server_setMessageCallback (Some OnMessage)))
        (thenE (in_loop l l (TcpServer_start k)) (thenE (in_loop l l enter_loop) M)))"
  by (auto simp: pool_HttpServer_start_def thenE_def bindE_def fun_eq_iff split: prod.splits sum.splits)

lemma start_then: "HttpServer_start k ks srt order handle conn_cb cb =
    thenE (server_setConnectionCallback (map_option OnConnection cb))
      (thenE (server_setMessageCallback (Some OnMessage))
        (thenE (TcpServer_start k) (reactor ks srt (http_usr order handle conn_cb))))"
  by (auto simp: HttpServer_start_def thenE_def bindE_def fun_eq_iff split: prod.splits sum.splits)

lemma solo_start:
  assumes s: "solo l s" and pc: "progress s l = Between"
  shows "\<exists>evs. follows l (thenE (pool_HttpServer_start l k cb)
      (forE (server_step srt job (http_usr order handle conn_cb)) (Start i k # evs)))
    (HttpServer_start k ks srt order handle conn_cb cb) s"
  unfolding pool_start_then start_then
  by (intro follows_then startLoop_as_steps) (use s pc in simp_all)

lemma pool_run_then: "pool_http_run hw n l k addr q ident srt job order handle evs =
    thenE (pool_HttpServer_new hw n l k addr q ident) (thenE (pool_HttpServer_start l k (Some ()))
      (forE (server_step srt job (http_usr order handle log_connection)) (Start 0 k # evs)))"
  by (auto simp: pool_http_run_def Let_def thenE_def bindE_def fun_eq_iff simp del: server_step.simps split: prod.splits sum.splits)

section \<open>Properties\<close>

lemma pool_up_heaps:
  assumes "pool_up s"
  shows "connections s \<le> MAX_CONNECTION_NUMS" and "\<forall>l \<in> pool_loops s. heap_typed (worlds s l)"
  using assms conn_wf_typed by (auto simp: pool_up_def pooled_inv_def hosting_def conn_inv_def)


text \<open>
  Two sub threads; a client is accepted into the first one's loop, sends a request, and is
  answered there.
\<close>

definition blank_pool :: "unit http_closure pool_server" where
  "blank_pool = \<lparr>worlds = (\<lambda>l. blank_world\<lparr>tCurrentLoop := None, loopId := l\<rparr>),
     thePool = \<lparr>mpMainLoop = 9, mMaxThreadNum = 0, mSubThreads = [], mSubLoops = [], mSubLoopStates = Map.empty,
       mIndex = 0, poolLocked = False, quitLoops = {}, joinedThreads = 0\<rparr>,
     progress = (\<lambda>_. Between)\<rparr>"

lemma blank_pool_main: "mainLoop blank_pool = 9" "progress blank_pool 9 = Between"
  by (simp_all add: blank_pool_def)

lemma blank_pool_fresh: "fresh_pool 9 blank_pool"
  by (simp add: fresh_pool_def blank_pool_def fresh_process_def idle_def blank_world_def)

definition pool_rounds :: "server_event list" where
  "pool_rounds =
     (let accepts = quiet_kernel\<lparr>k_epoll_wait := (1, [(5, 1)])\<rparr>;
          answers = quiet_kernel\<lparr>k_epoll_wait := (1, [(5, 4)])\<rparr>;
          reads = quiet_kernel\<lparr>k_read := (\<lambda>_ n. if 15 \<le> n then (15, to_bytes (''GET /x HTTP/1.1'')) else (0, []))\<rparr> in
      [Start 1 quiet_kernel, Wait 9, Poll 9 accepts, Handle 9 quiet_kernel, Tasks 9 quiet_kernel, Look 0,
       Wait 0, Poll 0 accepts, Handle 0 reads, Tasks 0 quiet_kernel, Wait 0, Poll 0 answers, Handle 0 reads, Tasks 0 quiet_kernel])"

lemma pool_rounds_ok: "\<forall>ev \<in> set pool_rounds. \<forall>k. event_kernel ev = Some k \<longrightarrow> kernel_ok k"
  using quiet_kernel_ok
  by (auto simp: pool_rounds_def Let_def kernel_ok_def ctl_ok_def new_fd_ok_def quiet_kernel_def read_ok_def write_ok_def to_bytes_def)




end
