(* ===== verification/ClientFrames.thy ===== *)
theory ClientFrames
  imports Frames Reactor
begin

text \<open>
  What timers, client and server leave alone, beside the operations of a connection: the
  frames of \<open>Frames\<close>, one level up. \<open>client_frame\<close> covers everything but the change
  of the client's state, \<open>task_frame\<close> that too, and with it every queued functor.
\<close>

locale client_frame = queue_frame R + delete_frame R
  for R :: "('u, 'z) client_loop_scheme \<Rightarrow> ('u, 'z) client_loop_scheme \<Rightarrow> bool" +
  assumes any_queue: "R s (s\<lparr>mPendingTasks := mPendingTasks s @ [t]\<rparr>)"
    and counters: "R s (s\<lparr>nextAddr := a\<rparr>)" "R s (s\<lparr>nextConn := n\<rparr>)" "R s (s\<lparr>clockReads := r\<rparr>)"
    and timers: "R s (s\<lparr>mTimerMap := tm\<rparr>)" "R s (s\<lparr>timerSpecs := ts\<rparr>)"
    and objects: "R s (s\<lparr>conns := f\<rparr>)" "R s (s\<lparr>mConnectionSet := S\<rparr>)"
    and client: "R s (s\<lparr>mConnection := c\<rparr>)" "R s (s\<lparr>mConnSocket := so\<rparr>)" "R s (s\<lparr>mConnChannel := ch\<rparr>)"
      "R s (s\<lparr>mConnRetryDelay := d\<rparr>)" "R s (s\<lparr>clIdentification := i\<rparr>)"
begin

lemmas steps = pre any_queue counters timers objects client fds poller wakeups

lemma trans: "R s t \<Longrightarrow> R t u \<Longrightarrow> R s u"
  using pre unfolding preorder_rel_def by blast

lemma refl: "R s s"
  using pre unfolding preorder_rel_def by blast

lemma reset_client: "R s (s\<lparr>mConnRetryDelay := d, mConnSocket := so\<rparr>)"
  using trans [OF client(4) client(2)] .

lemma queue_any: "moves R (queueInLoop k t)"
proof (rule movesI)
  fix s
  have "R s (s\<lparr>mPendingTasks := mPendingTasks s @ [t], mWakeups := mWakeups s + 1\<rparr>)"
    using trans [OF any_queue wakeups] .
  then show "R s (snd (queueInLoop k t s))"
    using any_queue by (cases "k_eventfd_write k < 0") (simp_all add: queueInLoop_ok queueInLoop_fails)
qed

lemma create: "moves R (Channel_create k nop fd p)"
  unfolding Channel_create_def Let_def EventLoop_addChannel_def
  by (intro moves_with moves_catch moves_bind pre)
    (auto intro!: moves_intros with_channel on_poller in_thread set_channel moves_modify steps channels
      simp del: retE_simp throwE_simp modifyE_simp)

lemma set_cbs: "moves R (set_callbacks a f)"
  unfolding set_callbacks_def by (intro with_channel set_channel)

lemma close: "moves R (close_fd fd)" "moves R (Timer_close fd)"
  unfolding Timer_close_def close_fd_def
  by (auto intro!: moves_block moves_modify moves_intros steps simp del: retE_simp modifyE_simp)

lemma opens: "moves R (open_fd f e)"
  unfolding open_fd_def Let_def
  by (auto intro!: moves_intros moves_modify steps simp del: retE_simp throwE_simp modifyE_simp)

lemmas parts = pre queue_any create set_cbs close opens delete destroy destroyConnection masks
  shutdownConnection shutdown_in_loop close_socket upd in_thread

lemma timer_tasks:
  "moves R (add_oneshot k fd i cb)" "moves R (add_repeating k fd i cb)" "moves R (remove_timer k i)"
  unfolding add_oneshot_def add_repeating_def add_timer_def remove_timer_def
  by (auto intro!: moves_intros parts moves_modify steps split: option.split prod.split simp del: retE_simp throwE_simp modifyE_simp)

lemma runAfter: "moves R (runAfter k cb delay)"
  unfolding runAfter_def addOneshotTimer_def Timer_create_def setDelay_def steady_now_def Let_def
  by (auto intro!: moves_intros parts moves_modify steps refl simp del: retE_simp throwE_simp modifyE_simp)

lemma new_conn: "moves R (createTcpConnection k s)"
  unfolding createTcpConnection_def Let_def
  by (auto intro!: moves_intros parts moves_modify steps simp del: retE_simp throwE_simp modifyE_simp)

lemma client_parts: "moves R (retry k)" "moves R (release_conn_channel k)" "moves R release_conn_socket"
  "moves R (createTcpClientSocket k addr)"
  unfolding retry_def release_conn_channel_def release_conn_socket_def createTcpClientSocket_def createTcpNonblockingSocket_def
  by (auto intro!: moves_intros parts runAfter moves_modify steps split: option.split simp del: retE_simp throwE_simp modifyE_simp)

lemma doConnecting: "moves R (doConnecting k)"
  unfolding doConnecting_def Let_def
  by (auto intro!: moves_intros parts client_parts moves_modify steps split: option.split
      simp del: retE_simp throwE_simp modifyE_simp)

lemma doConnected: "(\<And>c u. moves R (usr u c)) \<Longrightarrow> moves R (doConnected k usr)"
  unfolding doConnected_def copy_callbacks_eq
  by (auto intro!: moves_intros parts client_parts new_conn establish moves_modify steps reset_client split: option.split
      simp del: retE_simp throwE_simp modifyE_simp)

lemma disconnected: "moves R (doDisconnected k)" "moves R (doForceDisconnected k)" "moves R (client_shutdown_task k)"
  unfolding doDisconnected_def doForceDisconnected_def client_shutdown_task_def
  by (auto intro!: moves_intros parts client_parts moves_modify steps split: option.split
      simp del: retE_simp throwE_simp modifyE_simp)

lemma server_tasks: "moves R (server_close_task k c)" "moves R (server_drop_guard k c)"
  unfolding server_close_task_def server_drop_guard_def
  by (auto intro!: moves_intros parts moves_modify steps split: option.split simp del: retE_simp throwE_simp modifyE_simp)

lemma discard: "moves R (discard_task k t)"
  by (cases t) (auto intro: server_tasks moves_ret pre simp del: retE_simp)

end

locale task_frame = client_frame +
  assumes status: "R s (s\<lparr>clientState := st\<rparr>)"
begin

lemma trans_state: "(\<And>c u. moves R (usr u c)) \<Longrightarrow> moves R (transStateInLoop k usr st)"
  unfolding transStateInLoop_def Let_def set_client_state_def
  by (cases st) (auto intro!: moves_intros parts doConnecting doConnected disconnected moves_modify status
      simp del: retE_simp throwE_simp modifyE_simp)

lemma run_task: "(\<And>c u. moves R (usr u c)) \<Longrightarrow> moves R (run_task k usr t)"
  by (cases t) (auto intro: sendInLoop shutdown_in_loop server_tasks trans_state disconnected timer_tasks)

end

section \<open>The client's state\<close>

definition same_status :: "('u, 'z) client_loop_scheme \<Rightarrow> ('u, 'z) client_loop_scheme \<Rightarrow> bool" where
  "same_status s t \<longleftrightarrow> clientState t = clientState s"

interpretation status: client_frame same_status
  by unfold_locales (simp_all add: preorder_rel_def same_status_def)

end
