(* ===== verification/TaskOrder.thy ===== *)
theory TaskOrder
  imports HttpSafety ClientFrames
begin

text \<open>
  The order of the queued functors. The state carries a log of the functors that were
  started; \<open>task_runner\<close> is what the loop needs of what it runs, and is interpreted on
  \<open>run_task\<close> and \<open>discard_task\<close> of \<open>Reactor\<close> under the HTTP server.
\<close>

section \<open>The log\<close>

record 'u traced_loop = "'u client_loop" +
  executed :: "'u task list"

type_synonym ('u, 'z, 'a) traced_exec = "(failure, ('u, 'z) traced_loop_scheme, 'a) exec"

definition traced :: "('u task \<Rightarrow> ('u, 'z, unit) traced_exec) \<Rightarrow> 'u task \<Rightarrow> ('u, 'z, unit) traced_exec" where
  "traced run t = thenE (modifyE (\<lambda>w. w\<lparr>executed := executed w @ [t]\<rparr>)) (run t)"

lemma traced_run: "traced run t w = run t (w\<lparr>executed := executed w @ [t]\<rparr>)"
  by (simp add: traced_def thenE_def bindE_def)

section \<open>The contract\<close>

text \<open>
  A functor may queue further ones, behind those that wait, and leaves the log alone.
\<close>

definition only_queues :: "('u, 'z) traced_loop_scheme \<Rightarrow> ('u, 'z) traced_loop_scheme \<Rightarrow> bool" where
  "only_queues w w' \<longleftrightarrow> executed w' = executed w \<and> (\<exists>new. mPendingTasks w' = mPendingTasks w @ new)"

lemma preorder_only_queues: "preorder_rel only_queues"
  by (auto simp: preorder_rel_def only_queues_def)

locale task_runner =
  fixes run :: "'u task \<Rightarrow> ('u, 'z, unit) traced_exec"
    and drop_task :: "'u task \<Rightarrow> ('u, 'z, unit) traced_exec"
  assumes queues: "moves only_queues (run t)"
    and drops: "moves only_queues (drop_task t)"
begin

lemma run_all:
  "forE (traced run) ts w = (Inr (), w') \<Longrightarrow>
     executed w' = executed w @ ts \<and> (\<exists>new. mPendingTasks w' = mPendingTasks w @ new)"
proof (induction ts arbitrary: w)
  case Nil
  then show ?case by simp
next
  case (Cons t ts)
  let ?w = "w\<lparr>executed := executed w @ [t]\<rparr>"
  obtain r w1 where r: "run t ?w = (r, w1)" by fastforce
  then have tr: "traced run t w = (r, w1)" by (simp add: traced_run)
  with Cons.prems have "r = Inr ()" by (cases r) (simp_all add: thenE_def bindE_def)
  with r tr Cons.prems have w1: "run t ?w = (Inr (), w1)" "forE (traced run) ts w1 = (Inr (), w')"
    by (simp_all add: thenE_def bindE_def)
  from movesD [OF queues w1(1)] Cons.IH [OF w1(2)] show ?case
    by (auto simp: only_queues_def)
qed

lemma drop_all: "moves only_queues (forE drop_task ts)"
  by (intro moves_for preorder_only_queues drops)

text \<open>
  One round runs exactly the functors that were queued before it, in their order; what
  they queue stays queued.
\<close>

lemma doPendingTasks_fifo:
  assumes "doPendingTasks (traced run) drop_task w = (Inr (), w')"
  shows "executed w' = executed w @ mPendingTasks w"
proof -
  obtain r w1 where w1: "forE (traced run) (mPendingTasks w) (w\<lparr>mIsDoPendingWorks := True, mPendingTasks := []\<rparr>) = (r, w1)"
    by fastforce
  have r: "r = Inr ()"
    using assms w1 doPendingTasks_fails [of "traced run" w _ w1 drop_task] by (cases r) auto
  from run_all [OF w1 [unfolded r]] have ex: "executed w1 = executed w @ mPendingTasks w" by simp
  from doPendingTasks_ok [OF w1 [unfolded r]] assms
  have "forE drop_task (mPendingTasks w) (w1\<lparr>mIsDoPendingWorks := False\<rparr>) = (Inr (), w')" by simp
  from movesD [OF drop_all this] ex show ?thesis by (simp add: only_queues_def)
qed

end

text \<open>
  Rounds of the queue with, between them, functors queued from outside.
\<close>

fun rounds :: "('u task \<Rightarrow> ('u, 'z, unit) traced_exec) \<Rightarrow> ('u task \<Rightarrow> ('u, 'z, unit) traced_exec)
    \<Rightarrow> kernel \<Rightarrow> 'u task list list \<Rightarrow> ('u, 'z, unit) traced_exec" where
  "rounds run dis k [] = retE ()"
| "rounds run dis k (ts # tss) = block [forE (queueInLoop k) ts, doPendingTasks (traced run) dis, rounds run dis k tss]"

lemma only_queues_queue: "moves only_queues (queueInLoop k t)"
  by (rule movesI, cases "k_eventfd_write k < 0") (simp_all add: queueInLoop_ok queueInLoop_fails only_queues_def)

context task_runner
begin

text \<open>
  What was started and what waits together are the queue's history: a functor is started
  once, and in the order of queueing.
\<close>

lemma rounds_fifo:
  "rounds run drop_task k tss w = (Inr (), w') \<Longrightarrow>
     \<exists>new. executed w' @ mPendingTasks w' = executed w @ mPendingTasks w @ new"
proof (induction tss arbitrary: w)
  case Nil
  then show ?case by simp
next
  case (Cons ts tss)
  from Cons.prems obtain w0 w1 where w0: "forE (queueInLoop k) ts w = (Inr (), w0)"
    and w1: "doPendingTasks (traced run) drop_task w0 = (Inr (), w1)" "rounds run drop_task k tss w1 = (Inr (), w')"
    by (auto simp: thenE_def bindE_def split: prod.splits sum.splits)
  have "moves only_queues (forE (queueInLoop k) ts)"
    by (intro moves_for preorder_only_queues only_queues_queue)
  from movesD [OF this w0] Cons.IH [OF w1(2)] doPendingTasks_fifo [OF w1(1)] show ?case
    by (auto simp: only_queues_def)
qed

end

section \<open>The library's functors\<close>

lemma frame_queues: "moves loop_frame m \<Longrightarrow> moves only_queues (m :: ('u, 'z, 'a) traced_exec)"
proof (rule moves_mono)
  fix s t :: "('u, 'z) traced_loop_scheme" assume f: "loop_frame s t"
  then have "conn_loop.more t = conn_loop.more s" by (simp add: loop_frame_def)
  then have "executed t = executed s" by (cases s; cases t; simp)
  with f show "only_queues s t" by (auto simp: only_queues_def loop_frame_def)
qed

interpretation order: task_frame only_queues
  by unfold_locales (auto simp: preorder_rel_def only_queues_def)

lemma http_queues: "moves only_queues (http_usr order handle log_connection k u c)"
  by (rule frame_queues [OF frame_http_usr])

interpretation tasks: task_runner "run_task k (http_usr order handle log_connection k)" "discard_task k"
  for k order handle
  by unfold_locales (auto intro: order.run_task order.discard http_queues)

section \<open>Properties\<close>


definition traced_world :: "unit http_closure traced_loop" where
  "traced_world = client_loop.extend (blank_world\<lparr>mPendingTasks := [RemoveTimerTask 7]\<rparr>) (traced_loop.fields [])"


end
