(* ===== verification/ClientProofs.thy ===== *)
theory ClientProofs
  imports ClientFrames
begin

text \<open>
  The client's state machine: the requests it accepts are the edges of an automaton, and
  its attempts to connect are bounded.
\<close>

section \<open>The automaton\<close>

text \<open>The state after a request; a request with no edge is ignored.\<close>

fun client_next :: "ClientState \<Rightarrow> ClientState \<Rightarrow> ClientState" where
  "client_next Disconnect Connecting = Connecting"
| "client_next Connecting Connecting = Connecting"
| "client_next Connecting ClientState.Connected = ClientState.Connected"
| "client_next Connecting ForceDisconnected = ForceDisconnected"
| "client_next ClientState.Connected Disconnect = Disconnect"
| "client_next ClientState.Connected ForceDisconnected = ForceDisconnected"
| "client_next ForceDisconnected Connecting = Connecting"
| "client_next old _ = old"

text \<open>What an accepted request does, in the new state.\<close>

definition client_action :: "kernel \<Rightarrow> ('u \<Rightarrow> nat \<Rightarrow> ('u, 'z, unit) client_exec) \<Rightarrow> ClientState \<Rightarrow> ('u, 'z, unit) client_exec" where
  "client_action k usr st = (case st of
     Disconnect \<Rightarrow> doDisconnected k
   | Connecting \<Rightarrow> doConnecting k
   | ClientState.Connected \<Rightarrow> doConnected k usr
   | ForceDisconnected \<Rightarrow> doForceDisconnected k)"

lemma request_cases:
  assumes "isInLoopThread w"
  shows "transStateInLoop k usr st w =
    (if client_next (clientState w) st = st \<and> (clientState w \<noteq> st \<or> st = Connecting)
     then thenE (client_action k usr st) (retE ()) (w\<lparr>clientState := st\<rparr>) else (Inr (), w))
   \<and> (client_next (clientState w) st = st \<or> client_next (clientState w) st = clientState w)"
proof -
  have "assertInLoopThread w = (Inr (), w)" using assms by (simp add: assertInLoopThread_def)
  then have "transStateInLoop k usr st w = (
     let oldState = clientState w in
     case st of
       Disconnect \<Rightarrow>
         if oldState \<noteq> ClientState.Connected then retE ()
         else block [set_client_state st, doDisconnected k]
     | Connecting \<Rightarrow>
         if oldState = ClientState.Connected then retE ()
         else block [set_client_state st, doConnecting k]
     | ClientState.Connected \<Rightarrow>
         if oldState \<noteq> Connecting then retE ()
         else block [set_client_state st, doConnected k usr]
     | ForceDisconnected \<Rightarrow>
         if oldState = Disconnect \<or> oldState = ForceDisconnected then retE ()
         else block [set_client_state st, doForceDisconnected k]) w"
    by (simp add: transStateInLoop_def thenE_ok)
  moreover have "block [set_client_state st, m] w = thenE m (retE ()) (w\<lparr>clientState := st\<rparr>)" for m :: "('a, 'b, unit) client_exec"
    unfolding block.simps by (rule thenE_ok) (simp add: set_client_state_def)
  ultimately show ?thesis
    by (cases st; cases "clientState w") (simp_all del: block.simps add: client_action_def)
qed

lemma step_status:
  assumes u: "\<And>c u. moves same_status (usr u c)" and r: "transStateInLoop k usr st w = (r, w')"
  shows "clientState w' = client_next (clientState w) st \<or> (\<exists>e. r = Inl e) \<and> clientState w' = clientState w"
proof (cases "isInLoopThread w")
  case False
  with r show ?thesis by (auto simp: transStateInLoop_def thenE_def bindE_def assertInLoopThread_def)
next
  case True
  have "moves same_status (thenE (client_action k usr st) (retE ()))"
    unfolding client_action_def
    by (cases st) (auto intro!: moves_then moves_ret status.pre status.disconnected status.doConnecting status.doConnected u
        simp del: retE_simp)
  with r request_cases [OF True, of k usr st] show ?thesis
    by (auto simp: same_status_def dest: movesD split: if_splits)
qed

lemma run_status:
  assumes u: "\<And>c u. moves same_status (usr u c)"
  shows "forE (transStateInLoop k usr) sts w = (r, w') \<Longrightarrow>
    \<exists>n \<le> length sts. clientState w' = foldl client_next (clientState w) (take n sts) \<and> (r = Inr () \<longrightarrow> n = length sts)"
proof (induction sts arbitrary: w)
  case Nil
  then show ?case by simp
next
  case (Cons st sts)
  obtain q v where q: "transStateInLoop k usr st w = (q, v)" by fastforce
  note one = step_status [OF u q]
  show ?case
  proof (cases q)
    case (Inl e)
    with Cons.prems q have w': "w' = v" "r = Inl e" by (simp_all add: thenE_def bindE_def)
    from one show ?thesis
    proof
      assume "clientState v = client_next (clientState w) st"
      with w' show ?thesis by (intro exI [of _ "Suc 0"]) simp
    next
      assume "(\<exists>e. q = Inl e) \<and> clientState v = clientState w"
      with w' show ?thesis by (intro exI [of _ 0]) simp
    qed
  next
    case (Inr a)
    with one have v: "clientState v = client_next (clientState w) st" by simp
    from Cons.prems q Inr have "forE (transStateInLoop k usr) sts v = (r, w')" by (simp add: thenE_def bindE_def)
    from Cons.IH [OF this] obtain n where n: "n \<le> length sts"
      "clientState w' = foldl client_next (clientState v) (take n sts)" "r = Inr () \<longrightarrow> n = length sts" by blast
    with v show ?thesis by (intro exI [of _ "Suc n"]) simp
  qed
qed

section \<open>Attempts\<close>

text \<open>A timer request never throws: what fails in it gives the invalid number.\<close>

lemma runAfter_ok: "\<exists>i w'. runAfter k t d w = (Inr i, w')"
proof -
  have "\<exists>i w'. (thenE (queueInLoop k x) (retE i0)) v = (Inr i, w') \<or> (\<exists>m. thenE (queueInLoop k x) (retE i0) v = (Inl (SystemException m), w'))"
    for x and i0 :: int and v :: "('a, 'b) timer_loop_scheme"
    by (cases "k_eventfd_write k < 0") (auto simp: queueInLoop_ok queueInLoop_fails thenE_def bindE_def)
  then show ?thesis
    by (cases "k_eventfd_write k < 0")
      (auto simp: runAfter_def addOneshotTimer_def catch_sys_def catchE_def thenE_def bindE_def Timer_create_def
        setDelay_def steady_now_def Let_def queueInLoop_ok queueInLoop_fails whenE_def)
qed

definition same_delay :: "('u, 'z) client_loop_scheme \<Rightarrow> ('u, 'z) client_loop_scheme \<Rightarrow> bool" where
  "same_delay s t \<longleftrightarrow> timer_loop.more t = timer_loop.more s \<and> tCurrentLoop t = tCurrentLoop s"

lemma runAfter_frame: "moves same_delay (runAfter k t d)"
proof -
  have pre: "preorder_rel same_delay" by (simp add: preorder_rel_def same_delay_def)
  have q: "moves same_delay (queueInLoop k x)" for x
    by (rule movesI, cases "k_eventfd_write k < 0") (simp_all add: queueInLoop_ok queueInLoop_fails same_delay_def)
  show ?thesis
    unfolding runAfter_def addOneshotTimer_def Timer_create_def setDelay_def steady_now_def Let_def
    by (auto intro!: moves_intros pre q moves_modify simp: same_delay_def simp del: retE_simp throwE_simp modifyE_simp)
qed

lemma retry_step:
  assumes th: "isInLoopThread w"
  shows "if mConnRetryDelay w < TCP_MAX_RETRY_TIMEOUT
    then \<exists>w'. retry k w = (Inr (), w') \<and> isInLoopThread w' \<and> mConnRetryDelay w' = 2 * mConnRetryDelay w
    else retry k w = (Inl (NetworkException ''[TcpClient] Connect time out!'' (k_errno k)), w)"
proof (cases "mConnRetryDelay w < TCP_MAX_RETRY_TIMEOUT")
  case True
  obtain i v where v: "runAfter k (TransTask Connecting) ((mConnRetryDelay w + mConnRandomDelay w) * 1000) w = (Inr i, v)"
    using runAfter_ok by blast
  from movesD [OF runAfter_frame v] have f: "timer_loop.more v = timer_loop.more w" "tCurrentLoop v = tCurrentLoop w"
    by (simp_all add: same_delay_def)
  then have "mConnRetryDelay v = mConnRetryDelay w" by (cases v; cases w; simp)
  with th v f True show ?thesis
    by (simp add: retry_def thenE_def bindE_def assertInLoopThread_def isInLoopThread_def)
next
  case False
  with th show ?thesis by (simp add: retry_def thenE_def bindE_def assertInLoopThread_def)
qed

lemma retries:
  "isInLoopThread w \<Longrightarrow> mConnRetryDelay w = d \<Longrightarrow> d > 0 \<Longrightarrow> (n = 0 \<or> d * 2 ^ (n - 1) < TCP_MAX_RETRY_TIMEOUT) \<Longrightarrow>
   \<exists>w'. forE (\<lambda>_. retry k) (replicate n ()) w = (Inr (), w') \<and> isInLoopThread w' \<and> mConnRetryDelay w' = d * 2 ^ n"
proof (induction n arbitrary: w d)
  case 0
  then show ?case by simp
next
  case (Suc n)
  have "d * 1 \<le> d * 2 ^ n" using Suc.prems(3) by (intro mult_left_mono) simp_all
  with Suc.prems(2,4) have lt: "mConnRetryDelay w < TCP_MAX_RETRY_TIMEOUT" by (simp only: diff_Suc_1) linarith
  from retry_step [OF Suc.prems(1), of k] lt Suc.prems(2) obtain v where
    v: "retry k w = (Inr (), v)" "isInLoopThread v" "mConnRetryDelay v = 2 * d" by auto
  have "n = 0 \<or> 2 * d * 2 ^ (n - 1) < TCP_MAX_RETRY_TIMEOUT" using Suc.prems(4) by (cases n) (simp_all add: mult_ac)
  from Suc.IH [OF v(2,3) _ this] Suc.prems(3) v(1) show ?case by (auto simp: thenE_def bindE_def mult_ac)
qed

section \<open>Properties\<close>





end
