(* ===== verification/Chat.thy ===== *)
theory Chat
  imports Reactor HttpServer
begin

text \<open>
  The chat example (\<open>example/chat/ChatCommon.h\<close>, \<open>ChatServer.cpp\<close>, \<open>ChatClient.cpp\<close>).
  A request is a header of two 64-bit numbers in the machine's byte order (little endian),
  then the text. The server adds \<open>mClients\<close> to the state, an association list with
  distinct keys; \<open>order\<close> is the walk over it.
\<close>

section \<open>Requests\<close>

definition Message :: nat where "Message = 0xAAAAAA"
definition Register :: nat where "Register = 0xBBBBBB"
definition Unregister :: nat where "Unregister = 0xCCCCCC"

record RequestHdr =
  mReqLength :: nat
  mReqType :: nat

definition HDR_SIZE :: nat where "HDR_SIZE = 16"

text \<open>A \<open>uint64_t\<close> in memory.\<close>

fun le_bytes :: "nat \<Rightarrow> nat \<Rightarrow> byte list" where
  "le_bytes 0 v = []"
| "le_bytes (Suc n) v = of_nat v # le_bytes n (v div 256)"

fun le_val :: "byte list \<Rightarrow> nat" where
  "le_val [] = 0"
| "le_val (b # bs) = unat b + 256 * le_val bs"

definition hdr_bytes :: "RequestHdr \<Rightarrow> byte list" where
  "hdr_bytes h = le_bytes 8 (mReqLength h) @ le_bytes 8 (mReqType h)"

definition read_hdr :: "byte list \<Rightarrow> RequestHdr" where
  "read_hdr bs = \<lparr>mReqLength = le_val (take 8 bs), mReqType = le_val (take 8 (drop 8 bs))\<rparr>"

text \<open>\<open>memcpy\<close> into the result string; the three functions stay inside it.\<close>

definition copy_to :: "nat \<Rightarrow> string \<Rightarrow> string \<Rightarrow> string" where
  "copy_to pos bs buf = take pos buf @ bs @ drop (pos + length bs) buf"

definition new_request :: "string \<Rightarrow> string" where
  "new_request sv = replicate (length sv + HDR_SIZE) (CHR 0x00)"

definition normalRequest :: "string \<Rightarrow> string" where
  "normalRequest sv = copy_to HDR_SIZE sv
     (copy_to 0 (to_chars (hdr_bytes \<lparr>mReqLength = length sv + HDR_SIZE, mReqType = Message\<rparr>)) (new_request sv))"

definition registerRequest :: "string \<Rightarrow> string" where
  "registerRequest sv = copy_to HDR_SIZE sv
     (copy_to 0 (to_chars (hdr_bytes \<lparr>mReqLength = length sv + HDR_SIZE, mReqType = Register\<rparr>)) (new_request sv))"

text \<open>This one copies the text over the header.\<close>

definition unregisterRequest :: "string \<Rightarrow> string" where
  "unregisterRequest sv = copy_to 0 sv
     (copy_to 0 (to_chars (hdr_bytes \<lparr>mReqLength = length sv + HDR_SIZE, mReqType = Unregister\<rparr>)) (new_request sv))"

section \<open>The server\<close>

record 'u chat_loop = "'u client_loop" +
  mClients :: "(nat \<times> string) list"

type_synonym ('u, 'z, 'a) chat_exec = "(failure, ('u, 'z) chat_loop_scheme, 'a) exec"

definition chatServerAddr :: SocketAddr where
  "chatServerAddr = \<lparr>mIpAddr = ''127.0.0.1'', mIpProtocol = IPv4, mPort = 8848\<rparr>"

definition MAX_LISTEN_QUEUE :: int where "MAX_LISTEN_QUEUE = 100"

text \<open>A connection that is inserted again keeps its name.\<close>

definition chat_onConnection :: "nat \<Rightarrow> ('u, 'z, unit) chat_exec" where
  "chat_onConnection c = with_conn c (\<lambda>tc.
     if isConnected tc
     then modifyE (\<lambda>w. if map_of (mClients w) c = None then w\<lparr>mClients := mClients w @ [(c, [])]\<rparr> else w)
     else modifyE (\<lambda>w. w\<lparr>mClients := filter (\<lambda>(d, _). d \<noteq> c) (mClients w)\<rparr>))"

definition getBufferSize :: "nat \<Rightarrow> ('u, 'z, nat) conn_exec" where
  "getBufferSize c = noexcept (with_conn c (\<lambda>tc. retE (TcpBuffer_size (mRecvBuffer tc))))"

text \<open>The answer to a message: a line to every client, under the name of the sender.\<close>

definition broadcast :: "kernel \<Rightarrow> ((nat \<times> string) list \<Rightarrow> (nat \<times> string) list) \<Rightarrow> nat \<Rightarrow> string \<Rightarrow> ('u, 'z, unit) chat_exec" where
  "broadcast k order c requestData = withE (\<lambda>w. forE (\<lambda>client. withE (\<lambda>w. case map_of (mClients w) c of
       None \<Rightarrow> throwE OutOfRange
     | Some clientName \<Rightarrow> sendString k (\<lambda>_ _. retE ()) (fst client) (''['' @ clientName @ ''] '' @ requestData)))
     (order (mClients w)))"

definition chat_register :: "nat \<Rightarrow> string \<Rightarrow> ('u, 'z, unit) chat_exec" where
  "chat_register c requestData = block
     [withE (\<lambda>w. assertTrue (map_of (mClients w) c \<noteq> None) ''[ChatServer] bad Connection!''),
      modifyE (\<lambda>w. w\<lparr>mClients := map (\<lambda>(d, n). (d, if d = c then c_str requestData else n)) (mClients w)\<rparr>)]"

text \<open>
  A request shorter than a header makes a view of the data whose length is below zero,
  which is a huge \<open>size_t\<close>; the two known types read it.
\<close>

definition chat_onMessage :: "kernel \<Rightarrow> ((nat \<times> string) list \<Rightarrow> (nat \<times> string) list) \<Rightarrow> nat \<Rightarrow> ('u, 'z, unit) chat_exec" where
  "chat_onMessage k order c = bindE (getBufferSize c) (\<lambda>size.
     if size < HDR_SIZE then retE ()
     else bindE (conn_read c HDR_SIZE) (\<lambda>hdrBuf. thenE
       (assertTrue (HDR_SIZE = length hdrBuf) ''[ChatServer] Bad request header!'')
       (let requestHdr = read_hdr hdrBuf in
        bindE (getBufferSize c) (\<lambda>size.
        if size < mReqLength requestHdr then retE ()
        else bindE (conn_extractString c (mReqLength requestHdr)) (\<lambda>request. thenE
          (assertTrue (mReqLength requestHdr = length request) ''[ChatServer] Bad request!'')
          (let requestData = drop HDR_SIZE request in
           if mReqType requestHdr = Message \<or> mReqType requestHdr = Register then
             (if length request < HDR_SIZE then throwE (Undefined ''read behind the request'')
              else if mReqType requestHdr = Message then broadcast k order c requestData
              else chat_register c requestData)
           else retE ()))))))"

datatype chat_closure = ChatOnConnection | ChatOnMessage

fun chat_usr :: "((nat \<times> string) list \<Rightarrow> (nat \<times> string) list) \<Rightarrow> kernel \<Rightarrow> chat_closure \<Rightarrow> nat \<Rightarrow> (chat_closure, 'z, unit) chat_exec" where
  "chat_usr order k ChatOnConnection c = chat_onConnection c"
| "chat_usr order k ChatOnMessage c = chat_onMessage k order c"

definition ChatServer_new :: "kernel \<Rightarrow> string \<Rightarrow> (chat_closure, 'z, unit) chat_exec" where
  "ChatServer_new k ident = block
     [TcpServer_new k chatServerAddr MAX_LISTEN_QUEUE ident,
      modifyE (\<lambda>w. w\<lparr>mClients := []\<rparr>),
      server_setConnectionCallback (Some ChatOnConnection),
      server_setMessageCallback (Some ChatOnMessage)]"

definition ChatServer_start :: "kernel \<Rightarrow> (chat_closure, 'z, unit) chat_exec" where
  "ChatServer_start k = TcpServer_start k"

definition ChatServer_main :: "kernel \<Rightarrow> kernel list \<Rightarrow> prio_sort \<Rightarrow> ((nat \<times> string) list \<Rightarrow> (nat \<times> string) list)
    \<Rightarrow> string \<Rightarrow> (chat_closure, 'z, unit) chat_exec" where
  "ChatServer_main k ks srt order ident = block
     [EventLoop_new k, ChatServer_new k ident, ChatServer_start k, reactor ks srt (chat_usr order)]"

section \<open>The client\<close>

text \<open>\<open>clientConn\<close> is the global pointer, \<open>printed\<close> what was written to the terminal.\<close>

record 'u chat_client_loop = "'u client_loop" +
  clientConn :: "nat option"
  printed :: "string list"

type_synonym ('u, 'z, 'a) chat_client_exec = "(failure, ('u, 'z) chat_client_loop_scheme, 'a) exec"

definition client_onMessage :: "nat \<Rightarrow> ('u, 'z, unit) chat_client_exec" where
  "client_onMessage c = bindE (conn_extractStringAll c) (\<lambda>message. modifyE (\<lambda>w. w\<lparr>printed := printed w @ [message]\<rparr>))"

definition client_onConnection :: "kernel \<Rightarrow> string \<Rightarrow> nat \<Rightarrow> ('u, 'z, unit) chat_client_exec" where
  "client_onConnection k clientName c = with_conn c (\<lambda>tc.
     if isConnected tc then block
       [modifyE (\<lambda>w. w\<lparr>clientConn := Some c\<rparr>),
        sendString k (\<lambda>_ _. retE ()) c (registerRequest clientName)]
     else modifyE (\<lambda>w. w\<lparr>clientConn := None\<rparr>))"

text \<open>A line of input, in the input thread: a thread without a loop.\<close>

definition client_input :: "kernel \<Rightarrow> string \<Rightarrow> ('u, 'z, unit) chat_client_exec" where
  "client_input k line = withE (\<lambda>w0. case clientConn w0 of
     None \<Rightarrow> retE ()
   | Some c \<Rightarrow> block
      [modifyE (\<lambda>w. w\<lparr>tCurrentLoop := None\<rparr>),
       noexcept (sendString k (\<lambda>_ _. retE ()) c (normalRequest line)),
       modifyE (\<lambda>w. w\<lparr>tCurrentLoop := tCurrentLoop w0\<rparr>)])"

datatype chat_client_closure = ClientOnConnection | ClientOnMessage

fun chat_client_usr :: "string \<Rightarrow> kernel \<Rightarrow> chat_client_closure \<Rightarrow> nat \<Rightarrow> (chat_client_closure, 'z, unit) chat_client_exec" where
  "chat_client_usr clientName k ClientOnConnection c = client_onConnection k clientName c"
| "chat_client_usr clientName k ClientOnMessage c = client_onMessage c"

definition ChatClient_main :: "kernel \<Rightarrow> kernel list \<Rightarrow> prio_sort \<Rightarrow> int \<Rightarrow> string
    \<Rightarrow> (chat_client_closure, 'z, unit) chat_client_exec" where
  "ChatClient_main k ks srt rnd clientName = block
     [EventLoop_new k,
      TcpClient_new chatServerAddr rnd,
      client_setConnectionCallback (Some ClientOnConnection),
      client_setMessageCallback (Some ClientOnMessage),
      TcpClient_connect k (chat_client_usr clientName k),
      reactor ks srt (chat_client_usr clientName)]"

section \<open>Properties\<close>

lemma length_le_bytes [simp]: "length (le_bytes n v) = n"
  by (induction n arbitrary: v) simp_all

lemma le_val_le_bytes: "v < 256 ^ n \<Longrightarrow> le_val (le_bytes n v) = v"
proof (induction n arbitrary: v)
  case (Suc n)
  have "v div 256 < 256 ^ n" using Suc.prems by (simp add: div_less_iff_less_mult mult.commute)
  with Suc.IH show ?case by (simp add: unat_of_nat)
qed simp

lemma read_hdr_bytes: "mReqLength h < 2 ^ 64 \<Longrightarrow> mReqType h < 2 ^ 64 \<Longrightarrow> read_hdr (hdr_bytes h) = h"
  by (simp add: read_hdr_def hdr_bytes_def le_val_le_bytes)

lemma length_hdr [simp]: "length (hdr_bytes h) = HDR_SIZE"
  by (simp add: hdr_bytes_def HDR_SIZE_def)

lemma request_shape:
  "normalRequest sv = to_chars (hdr_bytes \<lparr>mReqLength = length sv + HDR_SIZE, mReqType = Message\<rparr>) @ sv"
  "registerRequest sv = to_chars (hdr_bytes \<lparr>mReqLength = length sv + HDR_SIZE, mReqType = Register\<rparr>) @ sv"
  by (simp_all add: normalRequest_def registerRequest_def copy_to_def new_request_def)

text \<open>C38: The two requests that the client sends are read back by the server: the length, the type
  and the text. The third has its header overwritten by its text.\<close>

theorem chat_roundtrip:
  assumes "length sv + HDR_SIZE < 2 ^ 64"
  shows "read_hdr (to_bytes (take HDR_SIZE (normalRequest sv))) = \<lparr>mReqLength = length (normalRequest sv), mReqType = Message\<rparr>
    \<and> drop HDR_SIZE (normalRequest sv) = sv
    \<and> read_hdr (to_bytes (take HDR_SIZE (registerRequest sv))) = \<lparr>mReqLength = length (registerRequest sv), mReqType = Register\<rparr>
    \<and> drop HDR_SIZE (registerRequest sv) = sv
    \<and> take (length sv) (unregisterRequest sv) = sv"
  using assms
  by (simp add: request_shape read_hdr_bytes Message_def Register_def unregisterRequest_def copy_to_def)

theorem chat_roundtrip_witness:
  "read_hdr (to_bytes (take HDR_SIZE (normalRequest ''hi''))) = \<lparr>mReqLength = length (normalRequest ''hi''), mReqType = Message\<rparr>
    \<and> drop HDR_SIZE (normalRequest ''hi'') = ''hi''
    \<and> read_hdr (to_bytes (take HDR_SIZE (registerRequest ''hi''))) = \<lparr>mReqLength = length (registerRequest ''hi''), mReqType = Register\<rparr>
    \<and> drop HDR_SIZE (registerRequest ''hi'') = ''hi''
    \<and> take (length ''hi'') (unregisterRequest ''hi'') = ''hi''"
  by (rule chat_roundtrip) (simp add: HDR_SIZE_def)

lemma to_chars_append: "to_chars (xs @ ys) = to_chars xs @ to_chars ys"
  and to_bytes_append: "to_bytes (a @ b) = to_bytes a @ to_bytes b"
  by (simp_all add: to_chars_def to_bytes_def)

text \<open>What a message callback sees of the receive buffer.\<close>

lemma getBufferSize_content:
  "conns w c = Some tc \<Longrightarrow> tb_inv (mRecvBuffer tc) \<Longrightarrow> getBufferSize c w = (Inr (length (content (mRecvBuffer tc))), w)"
  by (simp add: getBufferSize_def with_conn_def TcpBuffer_size_def readablebytes_content noexcept_def exec_simps)

lemma conn_read_content:
  "conns w c = Some tc \<Longrightarrow> tb_inv (mRecvBuffer tc) \<Longrightarrow> conn_read c n w = (Inr (take n (content (mRecvBuffer tc))), w)"
  by (simp add: conn_read_def with_conn_def read_content noexcept_def exec_simps)

text \<open>The callback on a buffer that starts with a header, by what the header says.\<close>

lemma chat_onMessage_eq:
  assumes c: "conns w c = Some tc" "tb_inv (mRecvBuffer tc)" and bs: "content (mRecvBuffer tc) = bs" "HDR_SIZE \<le> length bs"
    and h: "read_hdr (take HDR_SIZE bs) = h" and n: "mReqLength h \<le> length bs"
  shows "\<exists>b. tb_inv b \<and> content b = drop (mReqLength h) bs \<and>
    chat_onMessage k order c w =
      (if mReqType h = Message \<or> mReqType h = Register then
         (if mReqLength h < HDR_SIZE then throwE (Undefined ''read behind the request'')
          else if mReqType h = Message then broadcast k order c (drop HDR_SIZE (take (mReqLength h) (to_chars bs)))
          else chat_register c (drop HDR_SIZE (take (mReqLength h) (to_chars bs))))
       else retE ()) (w\<lparr>conns := (conns w)(c \<mapsto> tc\<lparr>mRecvBuffer := b\<rparr>)\<rparr>)"
proof -
  have t: "take (mReqLength h) (to_chars bs) = to_chars (take (mReqLength h) bs)" by (simp add: to_chars_def take_map)
  from extractString_content [OF c, of "mReqLength h"] obtain b where
    b: "conn_extractString c (mReqLength h) w = (Inr (to_chars (take (mReqLength h) bs)), w\<lparr>conns := (conns w)(c \<mapsto> tc\<lparr>mRecvBuffer := b\<rparr>)\<rparr>)"
      "tb_inv b" "content b = drop (mReqLength h) bs" unfolding bs by blast
  have l: "length (to_chars (take (mReqLength h) bs)) = mReqLength h" using n by simp
  show ?thesis
    by (rule exI [of _ b])
      (use bs(2) n in \<open>simp add: chat_onMessage_def bindE_def thenE_def getBufferSize_content [OF c] conn_read_content [OF c] bs(1) h
          b l t del: length_to_chars\<close>)
qed


definition demo_chat :: "unit chat_loop" where
  "demo_chat = client_loop.extend
     (blank_world\<lparr>conns := [0 \<mapsto> received (to_bytes (normalRequest ''hi''))]\<rparr>) (chat_loop.fields [(0, ''ann'')])"


text \<open>A header that announces less than its own size and one of the two known types makes the
  server read behind the request: any peer can do this with sixteen bytes.\<close>

theorem short_request_undefined:
  assumes "conns w c = Some tc" and "tb_inv (mRecvBuffer tc)"
    and "content (mRecvBuffer tc) = hdr_bytes \<lparr>mReqLength = n, mReqType = t\<rparr>" and "n < HDR_SIZE" and "t \<in> {Message, Register}"
  shows "fst (chat_onMessage k order c w) = Inl (Undefined ''read behind the request'')"
proof -
  let ?h = "\<lparr>mReqLength = n, mReqType = t\<rparr>"
  have h: "read_hdr (take HDR_SIZE (hdr_bytes ?h)) = ?h"
    using assms(4,5) by (auto simp: HDR_SIZE_def Message_def Register_def intro!: read_hdr_bytes [of ?h, simplified HDR_SIZE_def])
  have l: "HDR_SIZE \<le> length (hdr_bytes ?h)" "mReqLength ?h \<le> length (hdr_bytes ?h)" using assms(4) by simp_all
  from chat_onMessage_eq [OF assms(1-3) l(1) h l(2), of k order] assms(4,5) show ?thesis by auto
qed

definition demo_short :: "unit chat_loop" where
  "demo_short = client_loop.extend
     (blank_world\<lparr>conns := [0 \<mapsto> received (hdr_bytes \<lparr>mReqLength = 0, mReqType = Message\<rparr>)]\<rparr>) (chat_loop.fields [(0, ''ann'')])"

theorem short_request_undefined_witness:
  "fst (chat_onMessage quiet_kernel (\<lambda>xs. xs) 0 demo_short) = Inl (Undefined ''read behind the request'')"
proof (rule short_request_undefined)
  show "conns demo_short 0 = Some (received (hdr_bytes \<lparr>mReqLength = 0, mReqType = Message\<rparr>))"
    by (simp add: demo_short_def client_loop.extend_def)
  show "tb_inv (mRecvBuffer (received (hdr_bytes \<lparr>mReqLength = 0, mReqType = Message\<rparr>)))"
    by (simp add: buffer_with HDR_SIZE_def)
  show "content (mRecvBuffer (received (hdr_bytes \<lparr>mReqLength = 0, mReqType = Message\<rparr>))) = hdr_bytes \<lparr>mReqLength = 0, mReqType = Message\<rparr>"
    by (simp add: buffer_with)
qed (simp_all add: HDR_SIZE_def)

end
