(* ===== verification/Echo.thy ===== *)
theory Echo
  imports Chat
begin

text \<open>
  The echo example (\<open>example/echo/EchoServer.cpp\<close>, \<open>EchoClient.cpp\<close>). The global
  \<open>timer\<close> of the server is a field of the state; its timer's callback only logs, and so
  does \<open>dumpSocketInfo\<close>.
\<close>

section \<open>The server\<close>

record 'u echo_loop = "'u client_loop" +
  timer :: int
  terminal :: "string list"

type_synonym ('u, 'z, 'a) echo_exec = "(failure, ('u, 'z) echo_loop_scheme, 'a) exec"

datatype echo_closure = EchoOnConnection | EchoOnMessage | EchoTick

definition echoServerAddr :: SocketAddr where
  "echoServerAddr = \<lparr>mIpAddr = ''127.0.0.1'', mIpProtocol = IPv4, mPort = 8000\<rparr>"

definition echo_onConnection :: "kernel \<Rightarrow> nat \<Rightarrow> (echo_closure, 'z, unit) echo_exec" where
  "echo_onConnection k c = with_conn c (\<lambda>tc.
     if isConnected tc
     then bindE (runEvery k (UserTask EchoTick c) 3000000) (\<lambda>i. modifyE (\<lambda>w. w\<lparr>timer := i\<rparr>))
     else withE (\<lambda>w. EventLoop_removeTimer k (timer w)))"

definition echo_onMessage :: "kernel \<Rightarrow> nat \<Rightarrow> (echo_closure, 'z, unit) echo_exec" where
  "echo_onMessage k c = bindE (conn_extractStringAll c) (\<lambda>message. block
     [modifyE (\<lambda>w. w\<lparr>terminal := terminal w @ [''read from client ['' @ message @ '']'']\<rparr>),
      sendString k (\<lambda>_ _. retE ()) c message])"

fun echo_usr :: "kernel \<Rightarrow> echo_closure \<Rightarrow> nat \<Rightarrow> (echo_closure, 'z, unit) echo_exec" where
  "echo_usr k EchoOnConnection c = echo_onConnection k c"
| "echo_usr k EchoOnMessage c = echo_onMessage k c"
| "echo_usr k EchoTick c = retE ()"

definition EchoServer_main :: "kernel \<Rightarrow> kernel list \<Rightarrow> prio_sort \<Rightarrow> string \<Rightarrow> (echo_closure, 'z, unit) echo_exec" where
  "EchoServer_main k ks srt ident = block
     [EventLoop_new k,
      TcpServer_new k echoServerAddr MAX_LISTEN_QUEUE ident,
      server_setConnectionCallback (Some EchoOnConnection),
      server_setMessageCallback (Some EchoOnMessage),
      TcpServer_start k,
      reactor ks srt echo_usr]"

section \<open>The client\<close>

definition echo_client_onMessage :: "nat \<Rightarrow> ('u, 'z, unit) chat_client_exec" where
  "echo_client_onMessage c = bindE (conn_extractStringAll c)
     (\<lambda>message. modifyE (\<lambda>w. w\<lparr>printed := printed w @ [''From server:['' @ message @ '']'']\<rparr>))"

definition echo_client_onConnection :: "nat \<Rightarrow> ('u, 'z, unit) chat_client_exec" where
  "echo_client_onConnection c = with_conn c (\<lambda>tc.
     modifyE (\<lambda>w. w\<lparr>clientConn := if isConnected tc then Some c else None\<rparr>))"

definition echo_client_input :: "kernel \<Rightarrow> string \<Rightarrow> ('u, 'z, unit) chat_client_exec" where
  "echo_client_input k line = withE (\<lambda>w0. case clientConn w0 of
     None \<Rightarrow> retE ()
   | Some c \<Rightarrow> block
      [modifyE (\<lambda>w. w\<lparr>printed := printed w @ [''To server:['' @ line @ '']''], tCurrentLoop := None\<rparr>),
       noexcept (sendString k (\<lambda>_ _. retE ()) c line),
       modifyE (\<lambda>w. w\<lparr>tCurrentLoop := tCurrentLoop w0\<rparr>)])"

fun echo_client_usr :: "kernel \<Rightarrow> chat_client_closure \<Rightarrow> nat \<Rightarrow> (chat_client_closure, 'z, unit) chat_client_exec" where
  "echo_client_usr k ClientOnConnection c = echo_client_onConnection c"
| "echo_client_usr k ClientOnMessage c = echo_client_onMessage c"

definition EchoClient_main :: "kernel \<Rightarrow> kernel list \<Rightarrow> prio_sort \<Rightarrow> int \<Rightarrow> (chat_client_closure, 'z, unit) chat_client_exec" where
  "EchoClient_main k ks srt rnd = block
     [EventLoop_new k,
      TcpClient_new echoServerAddr rnd,
      client_setConnectionCallback (Some ClientOnConnection),
      client_setMessageCallback (Some ClientOnMessage),
      TcpClient_connect k (echo_client_usr k),
      reactor ks srt echo_client_usr]"

section \<open>Properties\<close>

lemma conn_extractStringAll_content:
  assumes "conns w c = Some tc" and "tb_inv (mRecvBuffer tc)"
  shows "\<exists>b. conn_extractStringAll c w =
      (Inr (to_chars (content (mRecvBuffer tc))), w\<lparr>conns := (conns w)(c \<mapsto> tc\<lparr>mRecvBuffer := b\<rparr>)\<rparr>)
    \<and> tb_inv b \<and> content b = []"
proof -
  have "conn_extractStringAll c w = conn_extractString c (length (content (mRecvBuffer tc))) w" using assms
    by (simp add: conn_extractStringAll_def conn_extractString_def noexcept_def catchE_def with_conn_def
        TcpBuffer_size_def readablebytes_content)
  with extractString_content [OF assms, of "length (content (mRecvBuffer tc))"] show ?thesis by simp
qed

text \<open>The echo server takes everything it has received and sends exactly these bytes, whatever
  they are.\<close>

theorem echo_replies:
  assumes "conns w c = Some tc" and "tb_inv (mRecvBuffer tc)" and "content (mRecvBuffer tc) = bs"
  shows "\<exists>b. tb_inv b \<and> content b = [] \<and>
    echo_onMessage k c w = send k (\<lambda>_ _. retE ()) c bs
      (w\<lparr>conns := (conns w)(c \<mapsto> tc\<lparr>mRecvBuffer := b\<rparr>), terminal := terminal w @ [''read from client ['' @ to_chars bs @ '']'']\<rparr>)"
proof -
  from conn_extractStringAll_content [OF assms(1,2)] assms(3) obtain b where
    "conn_extractStringAll c w = (Inr (to_chars bs), w\<lparr>conns := (conns w)(c \<mapsto> tc\<lparr>mRecvBuffer := b\<rparr>)\<rparr>)"
    "tb_inv b" "content b = []" by auto
  then show ?thesis
    by (intro exI [of _ b]) (simp add: echo_onMessage_def bindE_def thenE_def sendString_def split: prod.splits sum.splits)
qed

definition demo_echo :: "echo_closure echo_loop" where
  "demo_echo = client_loop.extend (blank_world\<lparr>conns := [0 \<mapsto> received [0, 255, 10]]\<rparr>) (echo_loop.fields 0 [])"

theorem echo_replies_witness:
  "\<exists>b. tb_inv b \<and> content b = [] \<and>
    echo_onMessage quiet_kernel 0 demo_echo = send quiet_kernel (\<lambda>_ _. retE ()) 0 [0, 255, 10]
      (demo_echo\<lparr>conns := (conns demo_echo)(0 \<mapsto> (received [0, 255, 10])\<lparr>mRecvBuffer := b\<rparr>),
         terminal := terminal demo_echo @ [''read from client ['' @ to_chars [0, 255, 10] @ '']'']\<rparr>)"
  by (rule echo_replies) (simp_all add: demo_echo_def client_loop.extend_def buffer_with)

end
