(* ===== verification/Diagnostics.thy ===== *)
theory Diagnostics
  imports HttpRequest HttpResponse
begin

text \<open>
  What the program prints about itself: the dumps of requests and responses
  (\<open>dumpHttpRequest\<close> of \<open>src/http/HttpRequest.cpp\<close>, \<open>HttpResponse::dump\<close> of
  \<open>src/http/HttpResponse.cpp\<close>) as the lines they write to the terminal, and the back trace
  (\<open>src/base/Backtrace.cpp\<close>). \<open>walk\<close> is the walk over the header map. The same lines go
  to the logger.
\<close>

section \<open>Dumps\<close>

definition dump_header :: "string \<times> string \<Rightarrow> string" where
  "dump_header h = ''[HEADERS] key:'' @ fst h @ '', value:'' @ snd h"

definition dumpHttpRequest :: "(string \<times> string) list \<Rightarrow> http_request \<Rightarrow> string list" where
  "dumpHttpRequest walk r =
     [''[REQUEST] method: '' @ request_type_cstr (mType r),
      ''[REQUEST] version: '' @ version_cstr (mVersion r),
      ''[REQUEST] url: '' @ mUrl r,
      ''[REQUEST] content_type: '' @ content_type_cstr (mContentType r),
      ''[REQUEST] content_length: '' @ int_to_dec (mContentLength r),
      ''[REQUEST]'' @ mHost r]
     @ map (\<lambda>e. ''[REQUEST] accept encoding:'' @ encoding_cstr e) (mAcceptEncodings r)
     @ map dump_header walk
     @ [''[BODY] body:'' @ mBody r, ''[SIZE] total size:'' @ int_to_dec (mRequestSize r)]"

text \<open>Only textual contents are printed.\<close>

definition HttpResponse_dump :: "(string \<times> string) list \<Rightarrow> http_response \<Rightarrow> string list" where
  "HttpResponse_dump walk r =
     [''[Response] http version: '' @ version_cstr (rsVersion r),
      ''[Response] status: '' @ status_cstr (rsStatus r),
      ''[Response] keep-alive: '' @ (if rsIsKeepAlive r then ''1'' else ''0''),
      ''[Response] contentType: '' @ content_type_cstr (rsContentType r),
      ''[Response] charset: '' @ charset_cstr (rsCharSet r)]
     @ map (\<lambda>h. ''[Response] key:'' @ fst h @ '', value: '' @ snd h) walk
     @ (if rsContentType r \<in> {HTML, PLAIN, JSON, XML} then [''[Response] '' @ rsBody r] else [])"

section \<open>Back traces\<close>

text \<open>
  \<open>symbols\<close> is what \<open>backtrace_symbols\<close> returns, \<open>None\<close> when it or \<open>backtrace\<close> fails;
  \<open>demangle\<close> is \<open>__cxa_demangle\<close>. A line such as \<open>bin/app(_ZN3Bar4testEv+0x79) [0x401909]\<close>
  is cut at its last parenthesis and its last plus sign; a line without one of them is left
  out.
\<close>

definition last_pos :: "char \<Rightarrow> string \<Rightarrow> nat option" where
  "last_pos c s = (if c \<in> set s then Some (length s - 1 - length (takeWhile (\<lambda>x. x \<noteq> c) (rev s))) else None)"

definition mangled_name :: "string \<Rightarrow> nat \<Rightarrow> nat \<Rightarrow> string" where
  "mangled_name s left_par plus_pos =
     (if plus_pos > left_par then take (plus_pos - left_par - 1) (drop (left_par + 1) s) else drop (left_par + 1) s)"

definition backtrace_line :: "(string \<Rightarrow> string option) \<Rightarrow> string \<Rightarrow> string list" where
  "backtrace_line demangle s = (case (last_pos CHR ''('' s, last_pos CHR ''+'' s) of
     (Some left_par, Some plus_pos) \<Rightarrow>
       (case demangle (mangled_name s left_par plus_pos) of
          Some realname \<Rightarrow> [take (left_par + 1) s @ realname @ drop plus_pos s @ [CHR 0x0A]]
        | None \<Rightarrow> [s])
   | _ \<Rightarrow> [])"

definition getBacktrace :: "(string \<Rightarrow> string option) \<Rightarrow> string list option \<Rightarrow> string list" where
  "getBacktrace demangle symbols = (case symbols of
     None \<Rightarrow> []
   | Some ss \<Rightarrow> concat (map (backtrace_line demangle) (tl ss)))"

lemma last_pos_unique:
  assumes "c \<notin> set b"
  shows "last_pos c (a @ c # b) = Some (length a)"
proof -
  have "\<forall>x \<in> set (rev b). x \<noteq> c" using assms by auto
  then have "takeWhile (\<lambda>x. x \<noteq> c) (rev (a @ c # b)) = rev b" by (simp add: takeWhile_append2 del: set_rev)
  then show ?thesis by (simp add: last_pos_def)
qed

text \<open>
  A frame of the usual form keeps its module and its offset, and only the name between
  them is demangled.
\<close>

lemma backtrace_frame:
  assumes "CHR ''('' \<notin> set (name @ offset)" and "CHR ''+'' \<notin> set offset"
    and "demangle name = Some realname"
  shows "backtrace_line demangle (module @ CHR ''('' # name @ CHR ''+'' # offset)
    = [module @ CHR ''('' # realname @ CHR ''+'' # offset @ [CHR 0x0A]]"
proof -
  let ?s = "module @ CHR ''('' # name @ CHR ''+'' # offset"
  have l: "last_pos CHR ''('' ?s = Some (length module)" using assms(1) by (simp add: last_pos_unique)
  have p: "last_pos CHR ''+'' ?s = Some (length module + Suc (length name))"
    using last_pos_unique [OF assms(2), of "module @ CHR ''('' # name"] by simp
  have "mangled_name ?s (length module) (length module + Suc (length name)) = name"
    by (simp add: mangled_name_def)
  with assms(3) l p show ?thesis by (simp add: backtrace_line_def)
qed

end
