(* ===== verification/SystemFiles.thy ===== *)
theory SystemFiles
  imports TimerQueue
begin

text \<open>
  The rest of the descriptor classes: \<open>FileDesc\<close> (\<open>src/net/FileDesc.cpp\<close>), \<open>EventFd\<close>
  (\<open>src/net/EventFd.cpp\<close>), the operations of \<open>Socket\<close> and \<open>Timer\<close> that the library
  itself hardly uses, and \<open>ScopeGuard\<close> (\<open>include/base/Utils.h\<close>).
\<close>

unbundle bit_operations_syntax

section \<open>FileDesc\<close>

definition O_CREAT :: "32 word" where "O_CREAT = 0x40"

definition DEFAULT_FILE_MODE :: "32 word" where "DEFAULT_FILE_MODE = 0x1FF"

text \<open>
  The constructor; \<open>open_file path flag mode\<close> is the system's answer. The flag is changed
  before it is tested, so the call without a mode is never made.
\<close>

definition FileDesc_new :: "(string \<Rightarrow> 32 word \<Rightarrow> 32 word option \<Rightarrow> int list \<Rightarrow> int) \<Rightarrow> string \<Rightarrow> 32 word \<Rightarrow> 32 word
    \<Rightarrow> ('cb, 't, 'z, int) loop_exec" where
  "FileDesc_new open_file path flag mode =
     (let flag' = flag OR O_CREAT; e = SystemException (''Can't open file: '' @ c_str path) in
      if flag' OR O_CREAT \<noteq> 0 then open_fd (open_file (c_str path) flag' (Some mode)) e
      else open_fd (open_file (c_str path) flag' None) e)"

definition FileDesc_delete :: "int \<Rightarrow> ('cb, 't, 'z, unit) loop_exec" where
  "FileDesc_delete fd = close_fd fd"

definition FileDesc_setNonBlock :: "kernel \<Rightarrow> int \<Rightarrow> ('cb, 't, 'z, unit) loop_exec" where
  "FileDesc_setNonBlock k fd =
     (if k_fcntl k fd \<noteq> 0 then throwE (SystemException ''[FileDesc] failed to setNonBlock'') else retE ())"

text \<open>A file is always opened with \<open>O_CREAT\<close> and a mode.\<close>

lemma FileDesc_creates:
  "FileDesc_new f path flag mode = open_fd (f (c_str path) (flag OR O_CREAT) (Some mode)) (SystemException (''Can't open file: '' @ c_str path))"
proof -
  have "bit (flag OR O_CREAT OR O_CREAT) 6" by (simp add: bit_or_iff O_CREAT_def)
  then have "flag OR O_CREAT OR O_CREAT \<noteq> 0" by (metis bit_0_eq bot_apply bot_bool_def)
  then show ?thesis by (simp add: FileDesc_new_def Let_def)
qed

section \<open>EventFd\<close>

definition createEventFd :: "kernel \<Rightarrow> ('cb, 't, 'z, int) loop_exec" where
  "createEventFd k = open_fd (k_new_fd k) (SystemException ''[EventFd] createEventFd failed.'')"

definition EventFd_delete :: "int \<Rightarrow> ('cb, 't, 'z, unit) loop_exec" where
  "EventFd_delete fd = close_fd fd"

definition EventFd_wakeup :: "kernel \<Rightarrow> ('cb, 't, 'z, unit) loop_exec" where
  "EventFd_wakeup k = (if k_eventfd_write k < 0 then throwE (SystemException ''[EventFd] handleRead failed.'')
     else modifyE (\<lambda>w. w\<lparr>mWakeups := mWakeups w + 1\<rparr>))"

lemma wakeup_EventFd: "wakeup k = EventFd_wakeup k"
  by (simp add: wakeup_def EventFd_wakeup_def)

section \<open>Socket\<close>

text \<open>A failing \<open>::shutdown\<close> is only logged.\<close>

definition Socket_shutdown :: "socket \<Rightarrow> ('cb, 't, 'z, unit) loop_exec" where
  "Socket_shutdown s = retE ()"

text \<open>
  \<open>setNonBlock\<close>: \<open>flags\<close> is the answer of \<open>F_GETFL\<close>, \<open>set_flags\<close> that of \<open>F_SETFL\<close>. Any
  status flags other than 0 are taken for an error.
\<close>

definition O_NONBLOCK :: "32 word" where "O_NONBLOCK = 0x800"

definition Socket_setNonBlock :: "(int \<Rightarrow> 32 word) \<Rightarrow> (int \<Rightarrow> 32 word \<Rightarrow> int) \<Rightarrow> bool \<Rightarrow> socket \<Rightarrow> ('cb, 't, 'z, unit) loop_exec" where
  "Socket_setNonBlock get_flags set_flags enable s =
     (let flags = get_flags (sFd s) in
      if flags \<noteq> 0 then throwE (SystemException ''failed to setNonBlock'')
      else let flags' = (if enable then flags OR O_NONBLOCK else flags AND NOT O_NONBLOCK) in
        if set_flags (sFd s) flags' \<noteq> 0 then throwE (SystemException ''failed to setNonBlock'') else retE ())"

text \<open>It never turns blocking mode back on: a socket with \<open>O_NONBLOCK\<close> has flags.\<close>

lemma setNonBlock_never_off:
  "get_flags (sFd s) AND O_NONBLOCK \<noteq> 0 \<Longrightarrow>
   Socket_setNonBlock get_flags set_flags enable s w = (Inl (SystemException ''failed to setNonBlock''), w)"
  by (auto simp: Socket_setNonBlock_def Let_def)

section \<open>Timer\<close>

text \<open>
  \<open>cancelTimer\<close> passes no new time, which the system refuses with \<open>EFAULT\<close>, and the failure
  is only logged; so are those of \<open>handleRead\<close> and \<open>handleError\<close>.
\<close>

definition cancelTimer :: "int \<Rightarrow> ('u, 'z, unit) timer_exec" where
  "cancelTimer fd = retE ()"

definition Timer_handleRead :: "('u, 'z, unit) timer_exec" where
  "Timer_handleRead = retE ()"

definition Timer_handleError :: "('u, 'z, unit) timer_exec" where
  "Timer_handleError = retE ()"

lemma to_timespec_nonneg:
  assumes "0 \<le> us"
  shows "to_timespec us = (us div 1000000, us mod 1000000 * 1000)"
proof -
  have "us sdiv 1000000 = us div 1000000" using assms by (auto simp: signed_divide_int_def sgn_if)
  moreover have "us - us div 1000000 * 1000000 = us mod 1000000" by (simp add: minus_div_mult_eq_mod)
  ultimately show ?thesis by (simp add: to_timespec_def Let_def)
qed

lemma from_to_timespec:
  assumes "0 \<le> us"
  shows "from_timespec (to_timespec us) = us"
proof -
  have "(us mod 1000000 * 1000) sdiv 1000 = us mod 1000000"
    using pos_mod_sign [of 1000000 us] by (auto simp: signed_divide_int_def sgn_if)
  with assms show ?thesis by (simp add: to_timespec_nonneg from_timespec_def)
qed

lemma settime_ok_iff: "settime_ok fd (to_timespec us) \<longleftrightarrow> 0 \<le> fd \<and> 0 \<le> us"
proof (cases "0 \<le> us")
  case True
  then have "0 \<le> us div 1000000" "us mod 1000000 * 1000 < 1000000000"
    using pos_mod_bound [of 1000000 us] by (simp_all add: pos_imp_zdiv_nonneg_iff)
  with True show ?thesis by (simp add: to_timespec_nonneg settime_ok_def)
next
  case False
  let ?s = "us sdiv 1000000"
  have s: "?s = - ((- us) div 1000000)" using False by (simp add: signed_divide_int_def)
  have "(- us) div 1000000 * 1000000 + (- us) mod 1000000 = - us" by simp
  then have d: "us - ?s * 1000000 = - ((- us) mod 1000000)" unfolding s by linarith
  have "\<not> (0 \<le> ?s \<and> 0 \<le> (us - ?s * 1000000) * 1000)"
  proof
    assume a: "0 \<le> ?s \<and> 0 \<le> (us - ?s * 1000000) * 1000"
    then have "(- us) mod 1000000 \<le> 0" unfolding d by simp
    moreover have "(- us) div 1000000 \<le> 0" using a s by simp
    ultimately have "- us \<le> 0" using \<open>(- us) div 1000000 * 1000000 + (- us) mod 1000000 = - us\<close> by linarith
    with False show False by simp
  qed
  then show ?thesis using False by (auto simp: settime_ok_def to_timespec_def Let_def)
qed



section \<open>ScopeGuard\<close>

text \<open>
  A guard in a scope: the body, which says whether the guard was dismissed, and then the
  guard's function. During the unwinding an exception from it ends the process.
\<close>

definition scope_guard :: "(failure, 's, unit) exec \<Rightarrow> (failure, 's, bool) exec \<Rightarrow> (failure, 's, unit) exec" where
  "scope_guard f body = bindE
     (catchE body (\<lambda>e. if fatal e then throwE e else bindE (noexcept f) (\<lambda>_. throwE e)))
     (\<lambda>dismissed. whenE (\<not> dismissed) (noexcept f))"

end
