(* ===== verification/ThreadPool.thy ===== *)
theory ThreadPool
  imports Errors
begin

text \<open>
  The thread pool (\<open>include/base/ThreadPool.h\<close>, with \<open>include/base/Jthread.h\<close>).
  Every worker is a program counter; the mutex is the number of its owner. A step is one
  access to the shared state: a test of \<open>mExited\<close>, which no mutex protects, is a step
  of its own, and so are the parts of \<open>std::condition_variable::wait\<close>: the test of the
  condition and the call that releases the mutex and blocks. Who calls the pool makes the
  steps \<open>Enqueue\<close>, \<open>SetExit\<close> and \<open>NotifyAll\<close>; \<open>exit\<close> and the destructor are the last
  two in this order. Tasks are values of type \<open>'t\<close>; running one is a step of its worker.
\<close>

datatype 't worker =
    WTest
  | WLock
  | WPred
  | WSleep
  | WBlocked
  | WWoken
  | WTake
  | WRun 't
  | WDone

text \<open>\<open>enqueuedTasks\<close> and \<open>startedTasks\<close> only record what happened.\<close>

record 't thread_pool =
  mMaxThreadNum :: nat
  mExited :: bool
  mMutex :: "nat option"
  mWorkers :: "'t worker list"
  mTasks :: "'t list"
  enqueuedTasks :: "'t list"
  startedTasks :: "'t list"

text \<open>The constructor; \<open>hw\<close> is \<open>hardware_concurrency\<close>, 0 when it is not known.\<close>

definition ThreadPool_new :: "nat \<Rightarrow> nat \<Rightarrow> failure + 't thread_pool" where
  "ThreadPool_new hw maxThreadNum =
     (if maxThreadNum < 1 then Inl (RuntimeError ''[ThreadPool] you can't initialize ThreadPool with a negative value!'')
      else let n = (if maxThreadNum > hw then hw else maxThreadNum) in
        Inr \<lparr>mMaxThreadNum = n, mExited = False, mMutex = None, mWorkers = replicate n WTest, mTasks = [],
             enqueuedTasks = [], startedTasks = []\<rparr>)"

definition put_worker :: "nat \<Rightarrow> 't worker \<Rightarrow> 't thread_pool \<Rightarrow> 't thread_pool" where
  "put_worker i w s = s\<lparr>mWorkers := (mWorkers s)[i := w]\<rparr>"

text \<open>
  The next step of worker \<open>i\<close>; \<open>None\<close> when it waits for the mutex or to be woken, or
  has ended. (\<open>front\<close> of an empty list has no meaning; \<open>pool_safe\<close> shows that it does
  not happen.)
\<close>

definition worker_next :: "'t thread_pool \<Rightarrow> nat \<Rightarrow> 't thread_pool option" where
  "worker_next s i = (case mWorkers s ! i of
     WTest \<Rightarrow> Some (put_worker i (if mExited s then WDone else WLock) s)
   | WLock \<Rightarrow> (if mMutex s = None
       then Some (put_worker i (if mTasks s = [] then WPred else WTake) (s\<lparr>mMutex := Some i\<rparr>)) else None)
   | WPred \<Rightarrow> Some (put_worker i (if mTasks s \<noteq> [] \<or> mExited s then WTake else WSleep) s)
   | WSleep \<Rightarrow> Some (put_worker i WBlocked (s\<lparr>mMutex := None\<rparr>))
   | WBlocked \<Rightarrow> None
   | WWoken \<Rightarrow> (if mMutex s = None then Some (put_worker i WPred (s\<lparr>mMutex := Some i\<rparr>)) else None)
   | WTake \<Rightarrow> (if mExited s then Some (put_worker i WDone (s\<lparr>mMutex := None\<rparr>))
       else case mTasks s of
         [] \<Rightarrow> None
       | t # ts \<Rightarrow> Some (put_worker i (WRun t) (s\<lparr>mMutex := None, mTasks := ts, startedTasks := startedTasks s @ [t]\<rparr>)))
   | WRun t \<Rightarrow> Some (put_worker i WTest s)
   | WDone \<Rightarrow> None)"

fun wake :: "'t worker \<Rightarrow> 't worker" where
  "wake WBlocked = WWoken"
| "wake w = w"

definition notify_all :: "'t thread_pool \<Rightarrow> 't thread_pool" where
  "notify_all s = s\<lparr>mWorkers := map wake (mWorkers s)\<rparr>"

definition enqueue :: "'t \<Rightarrow> 't thread_pool \<Rightarrow> 't thread_pool" where
  "enqueue t s = notify_all (s\<lparr>mTasks := mTasks s @ [t], enqueuedTasks := enqueuedTasks s @ [t]\<rparr>)"

datatype 't pool_event = Work nat | Spurious nat | Enqueue 't | SetExit | NotifyAll

inductive pool_step :: "'t thread_pool \<Rightarrow> 't pool_event \<Rightarrow> 't thread_pool \<Rightarrow> bool" where
  work: "i < length (mWorkers s) \<Longrightarrow> worker_next s i = Some s' \<Longrightarrow> pool_step s (Work i) s'"
| spurious: "i < length (mWorkers s) \<Longrightarrow> mWorkers s ! i = WBlocked \<Longrightarrow> pool_step s (Spurious i) (put_worker i WWoken s)"
| enqueue: "mMutex s = None \<Longrightarrow> pool_step s (Enqueue t) (enqueue t s)"
| set_exit: "pool_step s SetExit (s\<lparr>mExited := True\<rparr>)"
| notify: "pool_step s NotifyAll (notify_all s)"

inductive pool_reach :: "'t thread_pool \<Rightarrow> 't thread_pool \<Rightarrow> bool" for s0 where
  start: "pool_reach s0 s0"
| step: "pool_reach s0 s \<Longrightarrow> pool_step s e s' \<Longrightarrow> pool_reach s0 s'"

inductive_cases pool_stepE: "pool_step s e s'"

section \<open>The invariant\<close>

fun holds_lock :: "'t worker \<Rightarrow> bool" where
  "holds_lock WPred = True"
| "holds_lock WSleep = True"
| "holds_lock WTake = True"
| "holds_lock _ = False"

text \<open>What a worker's place says about the queue and the flag.\<close>

fun place_ok :: "bool \<Rightarrow> 't list \<Rightarrow> 't worker \<Rightarrow> bool" where
  "place_ok ex ts WSleep \<longleftrightarrow> ts = []"
| "place_ok ex ts WBlocked \<longleftrightarrow> ts = []"
| "place_ok ex ts WTake \<longleftrightarrow> ts \<noteq> [] \<or> ex"
| "place_ok ex ts WDone \<longleftrightarrow> ex"
| "place_ok ex ts _ \<longleftrightarrow> True"

definition pool_inv :: "'t thread_pool \<Rightarrow> bool" where
  "pool_inv s \<longleftrightarrow> (\<forall>i < length (mWorkers s). holds_lock (mWorkers s ! i) \<longleftrightarrow> mMutex s = Some i)
     \<and> (\<forall>i. mMutex s = Some i \<longrightarrow> i < length (mWorkers s))
     \<and> (\<forall>w \<in> set (mWorkers s). place_ok (mExited s) (mTasks s) w)
     \<and> enqueuedTasks s = startedTasks s @ mTasks s"

lemma holds_wake [simp]: "holds_lock (wake w) = holds_lock w"
  by (cases w) simp_all

lemma place_wake: "place_ok ex ts w \<Longrightarrow> place_ok ex ts (wake w)"
  by (cases w) simp_all

lemma place_enqueue: "place_ok ex ts w \<Longrightarrow> \<not> holds_lock w \<Longrightarrow> place_ok ex (ts @ [t]) (wake w)"
  by (cases w) simp_all

lemma place_exit: "place_ok ex ts w \<Longrightarrow> place_ok True ts w"
  by (cases w) simp_all

text \<open>A worker without the lock does not notice that the queue gets shorter.\<close>

lemma place_take: "place_ok ex (t # ts) w \<Longrightarrow> \<not> holds_lock w \<Longrightarrow> place_ok ex ts w"
  by (cases w) simp_all

lemma worker_at: "i < length (mWorkers s) \<Longrightarrow> mWorkers s ! i \<in> set (mWorkers s)"
  by simp

lemma set_update: "w \<in> set (xs[i := v]) \<Longrightarrow> w = v \<or> w \<in> set xs"
  using set_update_subset_insert [of xs i v] by blast

lemma inv_work:
  assumes inv: "pool_inv s" and i: "i < length (mWorkers s)" and s': "worker_next s i = Some s'"
  shows "pool_inv s'"
proof -
  have lock: "\<And>j. j < length (mWorkers s) \<Longrightarrow> holds_lock (mWorkers s ! j) \<longleftrightarrow> mMutex s = Some j"
    and own: "\<And>j. mMutex s = Some j \<Longrightarrow> j < length (mWorkers s)"
    and pl: "\<And>w. w \<in> set (mWorkers s) \<Longrightarrow> place_ok (mExited s) (mTasks s) w"
    and q: "enqueuedTasks s = startedTasks s @ mTasks s"
    using inv by (auto simp: pool_inv_def)
  have pli: "place_ok (mExited s) (mTasks s) (mWorkers s ! i)" using pl i by simp
  have li: "holds_lock (mWorkers s ! i) \<longleftrightarrow> mMutex s = Some i" using lock i by blast
  have no_lock: "\<And>j. j < length (mWorkers s) \<Longrightarrow> mMutex s = Some i \<Longrightarrow> j \<noteq> i \<Longrightarrow> \<not> holds_lock (mWorkers s ! j)"
    using lock by auto
  show ?thesis
  proof (cases "mWorkers s ! i")
    case (WTake)
    with lock i have m: "mMutex s = Some i" by force
    show ?thesis
    proof (cases "mExited s")
      case True
      with s' WTake have "s' = put_worker i WDone (s\<lparr>mMutex := None\<rparr>)" by (simp add: worker_next_def)
      with lock i m True pl q show ?thesis
        by (auto simp: pool_inv_def put_worker_def nth_list_update dest!: set_update)
    next
      case False
      with pli WTake obtain t ts where ts: "mTasks s = t # ts" by (cases "mTasks s") auto
      with s' WTake False have e: "s' = put_worker i (WRun t) (s\<lparr>mMutex := None, mTasks := ts, startedTasks := startedTasks s @ [t]\<rparr>)"
        by (simp add: worker_next_def)
      have "place_ok (mExited s) ts ((mWorkers s)[i := WRun t] ! j)" if "j < length (mWorkers s)" for j
      proof (cases "j = i")
        case False
        with that no_lock [OF that m] pl [of "mWorkers s ! j"] ts show ?thesis by (simp add: place_take)
      qed (use i in simp)
      then have "\<forall>w \<in> set ((mWorkers s)[i := WRun t]). place_ok (mExited s) ts w"
        by (metis in_set_conv_nth length_list_update)
      with e lock i m q ts show ?thesis
        by (auto simp: pool_inv_def put_worker_def nth_list_update)
    qed
  qed (use s' lock i li own pl q pli in \<open>auto simp: worker_next_def pool_inv_def put_worker_def nth_list_update
      dest!: set_update split: if_splits\<close>)
qed

lemma inv_step: "pool_inv s \<Longrightarrow> pool_step s e s' \<Longrightarrow> pool_inv s'"
proof (erule pool_stepE, goal_cases)
  case (1 i)
  then show ?case using inv_work by blast
next
  case (2 i)
  then show ?case by (auto simp: pool_inv_def put_worker_def nth_list_update dest!: set_update)
next
  case (3 t)
  then show ?case
    by (auto simp: pool_inv_def enqueue_def notify_all_def in_set_conv_nth intro!: place_enqueue)
next
  case 4
  then show ?case by (auto simp: pool_inv_def intro: place_exit)
next
  case 5
  then show ?case by (auto simp: pool_inv_def notify_all_def intro: place_wake)
qed

lemma inv_new: "ThreadPool_new hw n = Inr s \<Longrightarrow> pool_inv s"
  by (auto simp: ThreadPool_new_def Let_def pool_inv_def split: if_splits)

lemma inv_reach: "pool_reach s0 s \<Longrightarrow> pool_inv s0 \<Longrightarrow> pool_inv s"
  by (induction rule: pool_reach.induct) (auto intro: inv_step)

lemma workers_step: "pool_step s e s' \<Longrightarrow> length (mWorkers s') = length (mWorkers s)"
  by (erule pool_stepE)
    (auto simp: worker_next_def put_worker_def enqueue_def notify_all_def split: worker.splits if_splits list.splits)

lemma workers_reach: "pool_reach s0 s \<Longrightarrow> length (mWorkers s) = length (mWorkers s0)"
  by (induction rule: pool_reach.induct) (auto dest: workers_step)

text \<open>The owner of the mutex can always move.\<close>

lemma owner_moves:
  assumes "pool_inv s" and "mMutex s = Some i"
  shows "i < length (mWorkers s)" and "\<exists>s'. worker_next s i = Some s'"
proof -
  show i: "i < length (mWorkers s)" using assms by (simp add: pool_inv_def)
  have "holds_lock (mWorkers s ! i)" using assms i by (simp add: pool_inv_def)
  moreover have "place_ok (mExited s) (mTasks s) (mWorkers s ! i)" using assms(1) i by (simp add: pool_inv_def)
  ultimately show "\<exists>s'. worker_next s i = Some s'"
    by (cases "mWorkers s ! i") (auto simp: worker_next_def split: list.splits)
qed

lemma free_moves: "mMutex s = None \<Longrightarrow> mWorkers s ! i \<noteq> WBlocked \<Longrightarrow> mWorkers s ! i \<noteq> WDone \<Longrightarrow> \<not> holds_lock (mWorkers s ! i)
  \<Longrightarrow> \<exists>s'. worker_next s i = Some s'"
  by (cases "mWorkers s ! i") (auto simp: worker_next_def)

section \<open>Properties\<close>

text \<open>\<open>front\<close> of the empty list, and how many workers are between lock and unlock.\<close>

definition takes_from_empty :: "'t thread_pool \<Rightarrow> bool" where
  "takes_from_empty s \<longleftrightarrow> mTasks s = [] \<and> \<not> mExited s \<and> WTake \<in> set (mWorkers s)"

definition lock_holders :: "'t thread_pool \<Rightarrow> nat" where
  "lock_holders s = length (filter holds_lock (mWorkers s))"

lemma inv_safe:
  assumes "pool_inv s"
  shows "\<not> takes_from_empty s" and "lock_holders s \<le> 1"
proof -
  show "\<not> takes_from_empty s" using assms by (force simp: takes_from_empty_def pool_inv_def)
  have "i = j" if "i < length (mWorkers s)" "holds_lock (mWorkers s ! i)" "j < length (mWorkers s)" "holds_lock (mWorkers s ! j)" for i j
    using assms that by (auto simp: pool_inv_def)
  then show "lock_holders s \<le> 1"
    by (auto simp: lock_holders_def length_filter_conv_card card_le_Suc0_iff_eq)
qed

text \<open>Nothing moves without a call from outside or a spurious wake-up.\<close>

definition pool_stuck :: "'t thread_pool \<Rightarrow> bool" where
  "pool_stuck s \<longleftrightarrow> list_all (\<lambda>i. worker_next s i = None) [0 ..< length (mWorkers s)]"

lemma not_stuckI: "i < length (mWorkers s) \<Longrightarrow> \<exists>s'. worker_next s i = Some s' \<Longrightarrow> \<not> pool_stuck s"
  by (force simp: pool_stuck_def list_all_iff)

lemma inv_moves:
  assumes inv: "pool_inv s" and "mTasks s \<noteq> []" and "\<not> mExited s" and "mWorkers s \<noteq> []"
  shows "\<not> pool_stuck s"
proof (cases "mMutex s")
  case (Some i)
  from owner_moves [OF inv Some] show ?thesis by (rule not_stuckI)
next
  case None
  have l: "0 < length (mWorkers s)" using assms(4) by simp
  then have "place_ok (mExited s) (mTasks s) (mWorkers s ! 0)" "\<not> holds_lock (mWorkers s ! 0)"
    using inv None by (simp_all add: pool_inv_def)
  with assms(2,3) have "mWorkers s ! 0 \<noteq> WBlocked" "mWorkers s ! 0 \<noteq> WDone" by auto
  with free_moves [OF None] \<open>\<not> holds_lock (mWorkers s ! 0)\<close> l show ?thesis by (metis not_stuckI)
qed

text \<open>C9: In every state the pool can reach, the tasks that were enqueued are the ones that were
  started and then the ones still queued: each is started at most once, first in first out.
  No worker takes from an empty queue, and at most one worker is between lock and unlock.\<close>

theorem pool_safe:
  assumes "ThreadPool_new hw n = Inr s0" and "pool_reach s0 s"
  shows "enqueuedTasks s = startedTasks s @ mTasks s \<and> \<not> takes_from_empty s \<and> lock_holders s \<le> 1"
proof -
  have inv: "pool_inv s" using inv_reach [OF assms(2)] inv_new [OF assms(1)] by blast
  then show ?thesis using inv_safe [OF inv] by (simp add: pool_inv_def)
qed

text \<open>C34: No wake-up of \<open>enqueue\<close> is lost: while tasks are queued, nobody has called \<open>exit\<close>, and the
  pool has a worker, some worker can take its next step.\<close>

theorem pool_progress:
  assumes "ThreadPool_new hw n = Inr s0" and "pool_reach s0 s" and "mTasks s \<noteq> []" and "\<not> mExited s" and "0 < hw"
  shows "\<not> pool_stuck s"
proof (rule inv_moves [OF _ assms(3,4)])
  show "pool_inv s" using inv_reach [OF assms(2)] inv_new [OF assms(1)] by blast
  have "mWorkers s0 \<noteq> []" using assms(1,5) by (auto simp: ThreadPool_new_def Let_def split: if_splits)
  then show "mWorkers s \<noteq> []" using workers_reach [OF assms(2)] by auto
qed

section \<open>Runs\<close>

text \<open>Running a list of events; \<open>None\<close> when one of them is not possible.\<close>

fun pool_do :: "'t pool_event \<Rightarrow> 't thread_pool \<Rightarrow> 't thread_pool option" where
  "pool_do (Work i) s = (if i < length (mWorkers s) then worker_next s i else None)"
| "pool_do (Spurious i) s = (if i < length (mWorkers s) then
     (case mWorkers s ! i of WBlocked \<Rightarrow> Some (put_worker i WWoken s) | _ \<Rightarrow> None) else None)"
| "pool_do (Enqueue t) s = (if mMutex s = None then Some (enqueue t s) else None)"
| "pool_do SetExit s = Some (s\<lparr>mExited := True\<rparr>)"
| "pool_do NotifyAll s = Some (notify_all s)"

fun pool_run :: "'t pool_event list \<Rightarrow> 't thread_pool \<Rightarrow> 't thread_pool option" where
  "pool_run [] s = Some s"
| "pool_run (e # es) s = (case pool_do e s of None \<Rightarrow> None | Some s' \<Rightarrow> pool_run es s')"

lemma pool_do_step: "pool_do e s = Some s' \<longleftrightarrow> pool_step s e s'"
  by (cases e) (auto elim!: pool_stepE intro: pool_step.intros split: if_splits worker.splits)

lemma pool_run_reach: "pool_run es s = Some s' \<Longrightarrow> pool_reach s0 s \<Longrightarrow> pool_reach s0 s'"
  by (induction es arbitrary: s) (auto simp: pool_do_step intro: pool_reach.step split: option.splits)

definition one_worker :: "nat thread_pool" where
  "one_worker = \<lparr>mMaxThreadNum = 1, mExited = False, mMutex = None, mWorkers = [WTest], mTasks = [],
     enqueuedTasks = [], startedTasks = []\<rparr>"

lemma one_worker_new: "ThreadPool_new 4 1 = Inr one_worker"
  by (simp add: ThreadPool_new_def one_worker_def)

definition demo_tasks :: "nat thread_pool" where
  "demo_tasks = \<lparr>mMaxThreadNum = 1, mExited = False, mMutex = Some 0, mWorkers = [WTake], mTasks = [10, 20],
     enqueuedTasks = [10, 20], startedTasks = []\<rparr>"

lemma demo_tasks_reach: "pool_reach one_worker demo_tasks"
proof -
  have "pool_run [Work 0, Enqueue 10, Enqueue 20, Work 0] one_worker = Some demo_tasks"
    by (simp add: one_worker_def demo_tasks_def worker_next_def put_worker_def enqueue_def notify_all_def)
  then show ?thesis using pool_run_reach pool_reach.start by blast
qed

theorem pool_safe_witness:
  "enqueuedTasks demo_tasks = startedTasks demo_tasks @ mTasks demo_tasks \<and> \<not> takes_from_empty demo_tasks \<and> lock_holders demo_tasks \<le> 1"
  by (rule pool_safe [OF one_worker_new demo_tasks_reach])

theorem pool_progress_witness: "\<not> pool_stuck demo_tasks"
  by (rule pool_progress [OF one_worker_new demo_tasks_reach]) (simp_all add: demo_tasks_def)

lemma blocked_work:
  "worker_next s j = Some s' \<Longrightarrow> mWorkers s ! i = WBlocked \<Longrightarrow> mWorkers s' ! i = WBlocked \<and> mExited s' = mExited s"
  by (cases "i = j") (auto simp: worker_next_def put_worker_def split: worker.splits if_splits list.splits)

lemma blocked_works:
  "pool_run (map Work js) s = Some s' \<Longrightarrow> mWorkers s ! i = WBlocked \<Longrightarrow> mWorkers s' ! i = WBlocked \<and> mExited s' = mExited s"
proof (induction js arbitrary: s)
  case (Cons j js)
  then show ?case using blocked_work [of s j _ i] by (auto split: option.splits if_splits)
qed simp

text \<open>C35: \<open>exit\<close> can be lost. \<open>mExited\<close> is set without the mutex, so both statements of
  \<open>exit\<close> fit between a worker's test of the condition and its call that blocks. The worker
  then sleeps although the pool has exited, and whatever the other workers do it stays
  asleep: the destructor's join does not return.\<close>

theorem exit_lost:
  assumes "i < length (mWorkers s)" and "mWorkers s ! i = WSleep"
  shows "pool_run [SetExit, NotifyAll, Work i] s \<noteq> None
    \<and> (case pool_run ([SetExit, NotifyAll, Work i] @ map Work js) s of
         None \<Rightarrow> True | Some s' \<Rightarrow> mExited s' \<and> mWorkers s' ! i = WBlocked)"
proof -
  let ?s = "put_worker i WBlocked (notify_all (s\<lparr>mExited := True\<rparr>)\<lparr>mMutex := None\<rparr>)"
  have r: "pool_run ([SetExit, NotifyAll, Work i] @ es) s = pool_run es ?s" for es
    using assms by (simp add: notify_all_def worker_next_def)
  have "mWorkers ?s ! i = WBlocked" "mExited ?s" using assms(1) by (simp_all add: put_worker_def notify_all_def)
  with blocked_works [of js ?s _ i] show ?thesis using r [of "[]"] r [of "map Work js"] by (auto split: option.splits)
qed

definition before_sleep :: "nat thread_pool" where
  "before_sleep = one_worker\<lparr>mMutex := Some 0, mWorkers := [WSleep]\<rparr>"

theorem exit_lost_witness:
  "pool_run [Work 0, Work 0, Work 0] one_worker = Some before_sleep
   \<and> pool_run [SetExit, NotifyAll, Work 0] before_sleep \<noteq> None
   \<and> (case pool_run ([SetExit, NotifyAll, Work 0] @ map Work [0]) before_sleep of
         None \<Rightarrow> True | Some s' \<Rightarrow> mExited s' \<and> mWorkers s' ! 0 = WBlocked)"
proof
  show "pool_run [Work 0, Work 0, Work 0] one_worker = Some before_sleep"
    by (simp add: one_worker_def before_sleep_def worker_next_def put_worker_def)
  show "pool_run [SetExit, NotifyAll, Work 0] before_sleep \<noteq> None
     \<and> (case pool_run ([SetExit, NotifyAll, Work 0] @ map Work [0]) before_sleep of
          None \<Rightarrow> True | Some s' \<Rightarrow> mExited s' \<and> mWorkers s' ! 0 = WBlocked)"
    by (rule exit_lost) (simp_all add: before_sleep_def)
qed

end
