(* ===== verification/ThreadFutures.thy ===== *)
theory ThreadFutures
  imports ThreadPool
begin

text \<open>
  What \<open>ThreadPool::enqueue\<close> returns (\<open>include/base/ThreadPool.h\<close>). The callable becomes a
  \<open>std::packaged_task\<close>, queued behind a shared pointer; the caller gets its future. Tasks
  are numbered in the order of \<open>enqueue\<close>; \<open>jobs\<close> is what the callable of a task does when
  it runs, \<open>sharedStates\<close> the state that task and future share, empty until it is ready. A
  callable that never returns leaves its worker at \<open>WRun\<close>.
\<close>

datatype ('e, 'r) outcome = Value 'r | Exception 'e | BrokenPromise

record ('e, 'r) future_pool =
  fpool :: "nat thread_pool"
  jobs :: "('e + 'r) list"
  sharedStates :: "nat \<Rightarrow> ('e, 'r) outcome option"
  poolAlive :: bool

abbreviation nextTask :: "('e, 'r) future_pool \<Rightarrow> nat" where
  "nextTask s \<equiv> length (jobs s)"

definition future_pool_new :: "nat thread_pool \<Rightarrow> ('e, 'r) future_pool" where
  "future_pool_new p = \<lparr>fpool = p, jobs = [], sharedStates = (\<lambda>_. None), poolAlive = True\<rparr>"

text \<open>A packaged task stores what its callable returns or throws.\<close>

fun outcome_of :: "'e + 'r \<Rightarrow> ('e, 'r) outcome" where
  "outcome_of (Inl e) = Exception e"
| "outcome_of (Inr r) = Value r"

definition enqueue_job :: "'e + 'r \<Rightarrow> ('e, 'r) future_pool \<Rightarrow> ('e, 'r) future_pool" where
  "enqueue_job job s = s\<lparr>fpool := enqueue (nextTask s) (fpool s), jobs := jobs s @ [job]\<rparr>"

text \<open>A step of a worker; at \<open>WRun\<close> it calls the task, and no exception leaves that call.\<close>

definition run_packaged :: "nat \<Rightarrow> ('e, 'r) future_pool \<Rightarrow> ('e, 'r) future_pool" where
  "run_packaged t s = s\<lparr>sharedStates := (sharedStates s)(t := Some (outcome_of (jobs s ! t)))\<rparr>"

definition future_work :: "nat \<Rightarrow> ('e, 'r) future_pool \<Rightarrow> ('e, 'r) future_pool option" where
  "future_work i s = (case pool_do (Work i) (fpool s) of
     None \<Rightarrow> None
   | Some p \<Rightarrow> Some ((case mWorkers (fpool s) ! i of WRun t \<Rightarrow> run_packaged t s | _ \<Rightarrow> s)\<lparr>fpool := p\<rparr>))"

text \<open>
  The end of the destructor, behind the joins: \<open>mTasks.clear()\<close> drops the last owner of
  every task that was not started, which breaks its promise.
\<close>

definition clear_tasks :: "('e, 'r) future_pool \<Rightarrow> ('e, 'r) future_pool option" where
  "clear_tasks s = (if list_all (\<lambda>w. w = WDone) (mWorkers (fpool s))
     then Some (s\<lparr>sharedStates := (\<lambda>t. if t \<in> set (mTasks (fpool s)) then Some BrokenPromise else sharedStates s t),
       fpool := (fpool s)\<lparr>mTasks := []\<rparr>, poolAlive := False\<rparr>)
     else None)"

datatype ('e, 'r) future_event = Submit "'e + 'r" | Step nat | Wakes nat | Exits | Notifies | Clears

text \<open>An event; \<open>None\<close> when it is not possible. Nothing is called on a pool that is gone.\<close>

fun future_do :: "('e, 'r) future_event \<Rightarrow> ('e, 'r) future_pool \<Rightarrow> ('e, 'r) future_pool option" where
  "future_do (Submit job) s = (if mMutex (fpool s) = None then Some (enqueue_job job s) else None)"
| "future_do (Step i) s = future_work i s"
| "future_do (Wakes i) s = map_option (\<lambda>p. s\<lparr>fpool := p\<rparr>) (pool_do (Spurious i) (fpool s))"
| "future_do Exits s = map_option (\<lambda>p. s\<lparr>fpool := p\<rparr>) (pool_do SetExit (fpool s))"
| "future_do Notifies s = map_option (\<lambda>p. s\<lparr>fpool := p\<rparr>) (pool_do NotifyAll (fpool s))"
| "future_do Clears s = clear_tasks s"

fun future_run :: "('e, 'r) future_event list \<Rightarrow> ('e, 'r) future_pool \<Rightarrow> ('e, 'r) future_pool option" where
  "future_run [] s = Some s"
| "future_run (e # es) s = (if poolAlive s then (case future_do e s of None \<Rightarrow> None | Some s' \<Rightarrow> future_run es s') else None)"

section \<open>The invariant\<close>

text \<open>
  A task is with at most one worker, and with one only after it was started and before its
  state is ready; a task that was started and is with nobody has its callable's outcome.
\<close>

definition runs_at :: "nat thread_pool \<Rightarrow> nat \<Rightarrow> nat \<Rightarrow> bool" where
  "runs_at p i t \<longleftrightarrow> i < length (mWorkers p) \<and> mWorkers p ! i = WRun t"

definition running :: "nat thread_pool \<Rightarrow> nat \<Rightarrow> bool" where
  "running p t \<longleftrightarrow> WRun t \<in> set (mWorkers p)"

lemma running_iff: "running p t \<longleftrightarrow> (\<exists>i. runs_at p i t)"
  by (auto simp: running_def runs_at_def in_set_conv_nth)

definition future_inv :: "('e, 'r) future_pool \<Rightarrow> bool" where
  "future_inv s \<longleftrightarrow> pool_inv (fpool s) \<and> enqueuedTasks (fpool s) = [0 ..< nextTask s] \<and> poolAlive s
     \<and> (\<forall>i j t. runs_at (fpool s) i t \<longrightarrow> runs_at (fpool s) j t \<longrightarrow> i = j)
     \<and> (\<forall>t. running (fpool s) t \<longrightarrow> t \<in> set (startedTasks (fpool s)))
     \<and> (\<forall>t. sharedStates s t = (if t \<in> set (startedTasks (fpool s)) \<and> \<not> running (fpool s) t
           then Some (outcome_of (jobs s ! t)) else None))"

lemma future_invD:
  assumes "future_inv s"
  shows "pool_inv (fpool s)" and "enqueuedTasks (fpool s) = [0 ..< nextTask s]" and "poolAlive s"
    and "\<And>i j t. runs_at (fpool s) i t \<Longrightarrow> runs_at (fpool s) j t \<Longrightarrow> i = j"
    and "\<And>i t. runs_at (fpool s) i t \<Longrightarrow> t \<in> set (startedTasks (fpool s))"
    and "\<And>t. sharedStates s t = (if t \<in> set (startedTasks (fpool s)) \<and> \<not> running (fpool s) t
           then Some (outcome_of (jobs s ! t)) else None)"
  using assms unfolding future_inv_def running_iff by blast+

lemma started_split: "future_inv s \<Longrightarrow> startedTasks (fpool s) @ mTasks (fpool s) = [0 ..< nextTask s]"
  unfolding future_inv_def pool_inv_def by metis

lemma queued_fresh: "future_inv s \<Longrightarrow> t \<in> set (mTasks (fpool s)) \<Longrightarrow> t \<notin> set (startedTasks (fpool s))"
  using started_split [of s] distinct_upt [of 0 "nextTask s"] by (metis disjoint_iff distinct_append)

text \<open>What a step does to the tasks: a worker ends one, takes the first, or leaves them alone.\<close>

definition same_tasks :: "nat thread_pool \<Rightarrow> nat thread_pool \<Rightarrow> bool" where
  "same_tasks p q \<longleftrightarrow> mTasks q = mTasks p \<and> startedTasks q = startedTasks p \<and> enqueuedTasks q = enqueuedTasks p
     \<and> (\<forall>j t. runs_at q j t \<longleftrightarrow> runs_at p j t)"

lemma runs_at_put: "i < length (mWorkers p) \<Longrightarrow>
    runs_at (put_worker i w p) j t \<longleftrightarrow> (if j = i then w = WRun t else runs_at p j t)"
  by (auto simp: runs_at_def put_worker_def)

lemma runs_at_fields [simp]: "runs_at (p\<lparr>mMutex := m\<rparr>) = runs_at p" "runs_at (p\<lparr>mTasks := ts\<rparr>) = runs_at p"
  "runs_at (p\<lparr>startedTasks := us\<rparr>) = runs_at p" "runs_at (p\<lparr>mExited := b\<rparr>) = runs_at p"
  "runs_at (p\<lparr>enqueuedTasks := es\<rparr>) = runs_at p"
  by (simp_all add: runs_at_def fun_eq_iff)

lemma same_put:
  assumes "i < length (mWorkers p)" and "\<And>t. mWorkers p ! i \<noteq> WRun t" and "\<And>t. w \<noteq> WRun t"
  shows "same_tasks p (put_worker i w p)" and "same_tasks p (put_worker i w (p\<lparr>mMutex := m\<rparr>))"
proof -
  have "runs_at (put_worker i w p') j t = runs_at p' j t" if "mWorkers p' = mWorkers p" for p' j t
    using assms that by (auto simp: runs_at_def put_worker_def nth_list_update)
  moreover have "mTasks (put_worker i w p') = mTasks p'" "startedTasks (put_worker i w p') = startedTasks p'"
    "enqueuedTasks (put_worker i w p') = enqueuedTasks p'" for p' by (simp_all add: put_worker_def)
  ultimately show "same_tasks p (put_worker i w p)" "same_tasks p (put_worker i w (p\<lparr>mMutex := m\<rparr>))"
    by (simp_all add: same_tasks_def)
qed

lemma work_cases:
  assumes w: "worker_next p i = Some q" and i: "i < length (mWorkers p)"
  shows "(\<exists>t. mWorkers p ! i = WRun t \<and> q = put_worker i WTest p)
    \<or> (\<exists>t ts. mWorkers p ! i = WTake \<and> mTasks p = t # ts
         \<and> q = put_worker i (WRun t) (p\<lparr>mMutex := None, mTasks := ts, startedTasks := startedTasks p @ [t]\<rparr>))
    \<or> ((\<forall>t. mWorkers p ! i \<noteq> WRun t) \<and> same_tasks p q)"
proof (cases "mWorkers p ! i")
  case WTake
  show ?thesis
  proof (cases "mExited p")
    case True
    with WTake w have "q = put_worker i WDone (p\<lparr>mMutex := None\<rparr>)" by (simp add: worker_next_def)
    with WTake same_put(2) [OF i, of WDone None] show ?thesis by simp
  next
    case False
    with WTake w show ?thesis by (auto simp: worker_next_def split: list.splits)
  qed
qed (use w same_put [OF i] in \<open>auto simp: worker_next_def split: if_splits\<close>)

lemma inv_same:
  assumes inv: "future_inv s" and p: "pool_inv p" and same: "same_tasks (fpool s) p"
  shows "future_inv (s\<lparr>fpool := p\<rparr>)"
  using assms by (simp add: future_inv_def same_tasks_def running_iff)

lemma inv_future_work:
  assumes inv: "future_inv s" and st: "future_work i s = Some s'"
  shows "future_inv s'"
proof -
  let ?p = "fpool s"
  from st obtain q where q: "pool_do (Work i) ?p = Some q"
    and s': "s' = (case mWorkers ?p ! i of WRun t \<Rightarrow> run_packaged t s | _ \<Rightarrow> s)\<lparr>fpool := q\<rparr>"
    by (auto simp: future_work_def split: option.splits)
  then have i: "i < length (mWorkers ?p)" and w: "worker_next ?p i = Some q" by (auto split: if_splits)
  have pq: "pool_inv q" using inv inv_work [OF _ i w] by (simp add: future_inv_def)
  have one: "j = i" if "runs_at ?p j t" "runs_at ?p i t" for j t using inv that by (auto simp: future_inv_def)
  from work_cases [OF w i] show ?thesis
  proof (elim disjE exE conjE)
    fix t assume t: "mWorkers ?p ! i = WRun t" and e: "q = put_worker i WTest ?p"
    have r: "runs_at ?p i t" using t i by (simp add: runs_at_def)
    have at: "runs_at q j u \<longleftrightarrow> j \<noteq> i \<and> runs_at ?p j u" for j u by (simp add: e runs_at_put [OF i])
    have at_i: "runs_at ?p i u \<Longrightarrow> u = t" for u by (simp add: runs_at_def t)
    have run: "running q u \<longleftrightarrow> running ?p u \<and> u \<noteq> t" for u
      unfolding running_iff at using at_i one r by metis
    have started: "t \<in> set (startedTasks ?p)" by (rule future_invD(5) [OF inv r])
    have same: "startedTasks q = startedTasks ?p" "enqueuedTasks q = enqueuedTasks ?p" by (simp_all add: e put_worker_def)
    have less: "runs_at q j u \<Longrightarrow> runs_at ?p j u" for j u by (simp add: at)
    have "running q u \<Longrightarrow> u \<in> set (startedTasks ?p)" for u
      using less future_invD(5) [OF inv] by (auto simp: running_iff)
    moreover have "sharedStates s' u = (if u \<in> set (startedTasks ?p) \<and> \<not> running q u then Some (outcome_of (jobs s' ! u)) else None)" for u
      by (cases "u = t") (simp_all add: s' t run_packaged_def run started future_invD(6) [OF inv])
    moreover have "runs_at q j u \<Longrightarrow> runs_at q k u \<Longrightarrow> j = k" for u j k
      using less future_invD(4) [OF inv] by blast
    moreover have "fpool s' = q" "jobs s' = jobs s" "poolAlive s'"
      using future_invD(3) [OF inv] by (simp_all add: s' t run_packaged_def)
    ultimately show ?thesis using pq future_invD(2) [OF inv] same
      unfolding future_inv_def by simp
  next
    fix t ts assume t: "mWorkers ?p ! i = WTake" "mTasks ?p = t # ts"
      and e: "q = put_worker i (WRun t) (?p\<lparr>mMutex := None, mTasks := ts, startedTasks := startedTasks ?p @ [t]\<rparr>)"
    have new: "t \<notin> set (startedTasks ?p)" using queued_fresh [OF inv] t(2) by simp
    then have idle: "\<not> runs_at ?p j t" for j using inv by (auto simp: future_inv_def running_iff)
    have at: "runs_at q j u \<longleftrightarrow> (if j = i then u = t else runs_at ?p j u)" for j u
      using i by (auto simp: e runs_at_put)
    have run: "running q u \<longleftrightarrow> running ?p u \<or> u = t" for u
    proof -
      have "\<not> runs_at ?p i u" by (simp add: runs_at_def t(1))
      then show ?thesis unfolding running_iff at by metis
    qed
    have "startedTasks q = startedTasks ?p @ [t]" "enqueuedTasks q = enqueuedTasks ?p" by (simp_all add: e put_worker_def)
    with inv pq run new t(1) show ?thesis
      unfolding future_inv_def by (simp add: s' at idle) (use idle in blast)
  next
    assume "\<forall>t. mWorkers ?p ! i \<noteq> WRun t" and "same_tasks ?p q"
    with inv_same [OF inv pq] show ?thesis by (cases "mWorkers ?p ! i") (simp_all add: s')
  qed
qed

lemma same_map_wake: "same_tasks p (notify_all p)"
proof -
  have "wake w = WRun t \<longleftrightarrow> w = WRun t" for w and t :: nat by (cases w) simp_all
  then show ?thesis by (auto simp: same_tasks_def notify_all_def runs_at_def)
qed

lemma inv_enqueue:
  assumes inv: "future_inv s" and m: "mMutex (fpool s) = None"
  shows "future_inv (enqueue_job job s)"
proof -
  let ?n = "nextTask s" and ?q = "enqueue (nextTask s) (fpool s)"
  have p: "pool_inv ?q" using inv inv_step [OF _ pool_step.enqueue [OF m]] by (auto simp: future_inv_def)
  have at: "runs_at ?q j t \<longleftrightarrow> runs_at (fpool s) j t" for j t
    using same_map_wake by (auto simp: enqueue_def same_tasks_def)
  have old: "u < ?n" if "u \<in> set (startedTasks (fpool s))" for u
    using started_split [OF inv] that by (metis Un_iff atLeastLessThan_iff set_append set_upt)
  moreover have "running ?q = running (fpool s)" by (simp add: running_iff at fun_eq_iff)
  moreover have "startedTasks ?q = startedTasks (fpool s)" "enqueuedTasks ?q = enqueuedTasks (fpool s) @ [?n]"
    by (simp_all add: enqueue_def notify_all_def)
  ultimately show ?thesis using inv p old unfolding future_inv_def by (simp add: enqueue_job_def at nth_append)
qed

lemma inv_future_do:
  assumes inv: "future_inv s" and st: "future_do e s = Some s'" and e: "e \<noteq> Clears"
  shows "future_inv s'"
proof (cases e)
  case (Submit job)
  with st inv_enqueue [OF inv] show ?thesis by (auto split: if_splits)
next
  case (Step i)
  with st inv_future_work [OF inv] show ?thesis by simp
next
  case (Wakes i)
  with st obtain p where p: "pool_do (Spurious i) (fpool s) = Some p" "s' = s\<lparr>fpool := p\<rparr>" by auto
  then have "i < length (mWorkers (fpool s))" "mWorkers (fpool s) ! i = WBlocked" "p = put_worker i WWoken (fpool s)"
    by (auto split: if_splits worker.splits)
  then have "same_tasks (fpool s) p" by (simp add: same_put(1))
  moreover have "pool_step (fpool s) (Spurious i) p" using p(1) by (simp only: pool_do_step)
  ultimately show ?thesis using inv_same [OF inv inv_step [OF future_invD(1) [OF inv]]] p(2) by simp
next
  case Exits
  with st have s': "s' = s\<lparr>fpool := (fpool s)\<lparr>mExited := True\<rparr>\<rparr>" by simp
  have "same_tasks (fpool s) ((fpool s)\<lparr>mExited := True\<rparr>)" by (simp add: same_tasks_def)
  with inv_same [OF inv inv_step [OF future_invD(1) [OF inv] set_exit]] s' show ?thesis by simp
next
  case Notifies
  with st have "s' = s\<lparr>fpool := notify_all (fpool s)\<rparr>" by simp
  with inv_same [OF inv inv_step [OF future_invD(1) [OF inv] notify] same_map_wake] show ?thesis by simp
qed (use e in simp)

lemma inv_future_new:
  assumes "ThreadPool_new hw n = Inr p"
  shows "future_inv (future_pool_new p)"
proof -
  have "enqueuedTasks p = []" "startedTasks p = []" "\<not> runs_at p i t" for i t
    using assms by (auto simp: ThreadPool_new_def Let_def runs_at_def split: if_splits)
  with inv_new [OF assms] show ?thesis by (simp add: future_inv_def future_pool_new_def running_iff)
qed

section \<open>Property\<close>

text \<open>The state of the pool after a run, before or after the destructor has cleared the queue.\<close>

definition future_state :: "('e, 'r) future_pool \<Rightarrow> nat \<Rightarrow> ('e, 'r) outcome option" where
  "future_state s t = (if t \<in> set (startedTasks (fpool s))
     then if running (fpool s) t then None else Some (outcome_of (jobs s ! t))
     else if poolAlive s then None else Some BrokenPromise)"

lemma clear_state:
  assumes inv: "future_inv s" and c: "clear_tasks s = Some s'" and t: "t < nextTask s'"
  shows "sharedStates s' t = future_state s' t \<and> sharedStates s' t \<noteq> None"
proof -
  have ends: "\<forall>w \<in> set (mWorkers (fpool s)). w = WDone"
    and s': "s' = s\<lparr>sharedStates := (\<lambda>t. if t \<in> set (mTasks (fpool s)) then Some BrokenPromise else sharedStates s t),
       fpool := (fpool s)\<lparr>mTasks := []\<rparr>, poolAlive := False\<rparr>"
    using c by (auto simp: clear_tasks_def list_all_iff split: if_splits)
  then have idle: "\<not> running (fpool s) u" for u by (auto simp: running_def)
  have "t \<in> set (startedTasks (fpool s) @ mTasks (fpool s))" using t started_split [OF inv] by (simp add: s')
  with queued_fresh [OF inv] future_invD(6) [OF inv] idle show ?thesis
    by (auto simp: s' future_state_def running_def)
qed

lemma run_states:
  "future_run es s = Some s' \<Longrightarrow> future_inv s \<Longrightarrow> t < nextTask s' \<Longrightarrow>
     sharedStates s' t = future_state s' t \<and> (poolAlive s' \<or> sharedStates s' t \<noteq> None)"
proof (induction es arbitrary: s)
  case Nil
  then show ?case using future_invD(3,6) [of s] by (simp add: future_state_def)
next
  case (Cons e es)
  then obtain s1 where s1: "future_do e s = Some s1" "future_run es s1 = Some s'" by (auto split: if_splits option.splits)
  show ?case
  proof (cases "e = Clears")
    case True
    with s1(1) have c: "clear_tasks s = Some s1" by simp
    then have "\<not> poolAlive s1" by (auto simp: clear_tasks_def split: if_splits)
    with s1(2) have "s' = s1" by (cases es) auto
    with clear_state [OF Cons.prems(2) c, of t] Cons.prems(3) show ?thesis by metis
  next
    case False
    from Cons.IH [OF s1(2) inv_future_do [OF Cons.prems(2) s1(1) False] Cons.prems(3)] show ?thesis .
  qed
qed

text \<open>C10: The future that \<open>enqueue\<close> returns gets what its own task's callable returns or throws, once
  that task has run, and nothing before. When the destructor has returned every future is ready:
  one whose task was never started has a broken promise.\<close>

theorem future_outcomes:
  assumes "ThreadPool_new hw n = Inr p" and "future_run es (future_pool_new p) = Some s" and "t < nextTask s"
  shows "sharedStates s t = (if t \<in> set (startedTasks (fpool s))
       then if running (fpool s) t then None else Some (outcome_of (jobs s ! t))
       else if poolAlive s then None else Some BrokenPromise)
     \<and> (poolAlive s \<or> sharedStates s t \<noteq> None)"
  using run_states [OF assms(2) inv_future_new [OF assms(1)] assms(3)] unfolding future_state_def .

text \<open>One worker: the first task runs and throws, the second is still queued when the pool exits.\<close>

definition demo_events :: "(string, int) future_event list" where
  "demo_events = [Submit (Inl ''bad''), Submit (Inr 7), Step 0, Step 0, Step 0, Step 0, Exits, Notifies, Step 0, Clears]"

definition demo_futures :: "(string, int) future_pool" where
  "demo_futures = the (future_run demo_events (future_pool_new one_worker))"

lemma demo_futures_run:
  "future_run demo_events (future_pool_new one_worker) = Some demo_futures"
  "startedTasks (fpool demo_futures) = [0]" "nextTask demo_futures = 2" "\<not> poolAlive demo_futures"
  by (simp_all add: demo_futures_def demo_events_def future_pool_new_def one_worker_def enqueue_job_def enqueue_def
      notify_all_def future_work_def worker_next_def put_worker_def run_packaged_def clear_tasks_def)

theorem future_outcomes_witness:
  "sharedStates demo_futures 1 = Some BrokenPromise"
  using future_outcomes [OF one_worker_new demo_futures_run(1), of 1] demo_futures_run by simp

end
