(* ===== verification/LogServer.thy ===== *)
theory LogServer
  imports Decimal StringHelper
begin

text \<open>
  The logger: \<open>LogBuffer\<close> (\<open>include/base/LogBuffer.h\<close>, \<open>src/base/LogBuffer.cpp\<close>),
  \<open>LogServer\<close> (\<open>include/base/LogServer.h\<close>, \<open>src/base/LogServer.cpp\<close>), its
  configuration (\<open>include/base/LogConfig.h\<close>) and the macros of \<open>include/base/Log.h\<close>.

  Threads write lines into the current buffer under a mutex; one flush thread writes full
  buffers to the log file. A mutex section, a plain assignment to a shared flag and the
  writing of one buffer are one step each. \<open>log_event\<close> names the steps, and a run of
  the program is a list of events in any order. Clock and file system answer through
  \<open>log_env\<close>.
\<close>

section \<open>Configuration\<close>

datatype LogLevel = Fatal | Error | Warning | Info | Debug | Version

fun level_num :: "LogLevel \<Rightarrow> nat" where
  "level_num Fatal = 0"
| "level_num Error = 1"
| "level_num Warning = 2"
| "level_num Info = 3"
| "level_num Debug = 4"
| "level_num Version = 5"

definition DEFAULT_LOG_LEVEL :: nat where "DEFAULT_LOG_LEVEL = 4"
definition LOG_MAX_FILE_SIZE :: nat where "LOG_MAX_FILE_SIZE = 2 ^ 28"
definition LOG_BUFFER_SIZE :: nat where "LOG_BUFFER_SIZE = 2 ^ 18"
definition MAX_PENDING_BUFFERS :: nat where "MAX_PENDING_BUFFERS = 6"

fun log_level_to_string :: "LogLevel \<Rightarrow> string" where
  "log_level_to_string Version = ''Ver  ''"
| "log_level_to_string Debug = ''Debug''"
| "log_level_to_string Info = ''Info ''"
| "log_level_to_string Warning = ''Warn ''"
| "log_level_to_string Error = ''Error''"
| "log_level_to_string Fatal = ''Fatal''"

section \<open>Time and text\<close>

text \<open>
  \<open>gmtime_r\<close> of the C library: the proleptic Gregorian calendar, for years that fit
  \<open>tm_year\<close>. A time is in seconds.
\<close>

record tm =
  tm_year :: int
  tm_mon :: int
  tm_mday :: int
  tm_hour :: int
  tm_min :: int
  tm_sec :: int

definition civil_from_days :: "int \<Rightarrow> int \<times> int \<times> int" where
  "civil_from_days days =
     (let z = days + 719468; era = z div 146097; doe = z mod 146097;
          yoe = (doe - doe div 1460 + doe div 36524 - doe div 146096) div 365;
          doy = doe - (365 * yoe + yoe div 4 - yoe div 100);
          mp = (5 * doy + 2) div 153;
          m = (if mp < 10 then mp + 3 else mp - 9)
      in (yoe + era * 400 + (if m \<le> 2 then 1 else 0), m, doy - (153 * mp + 2) div 5 + 1))"

definition gmtime_r :: "int \<Rightarrow> tm option" where
  "gmtime_r t =
     (let (y, m, d) = civil_from_days (t div 86400); s = t mod 86400 in
      if - (2 ^ 31) \<le> y - 1900 \<and> y - 1900 < 2 ^ 31
      then Some \<lparr>tm_year = y - 1900, tm_mon = m - 1, tm_mday = d,
                tm_hour = s div 3600, tm_min = s mod 3600 div 60, tm_sec = s mod 60\<rparr>
      else None)"

text \<open>\<open>fmt\<close>'s \<open>{:0wd}\<close> and \<open>{:wd}\<close>.\<close>

definition fmt_zero :: "nat \<Rightarrow> int \<Rightarrow> string" where
  "fmt_zero w i =
     (let ds = to_dec (nat \<bar>i\<bar>); sign = (if i < 0 then ''-'' else [])
      in sign @ replicate (w - length sign - length ds) CHR ''0'' @ ds)"

definition fmt_right :: "nat \<Rightarrow> int \<Rightarrow> string" where
  "fmt_right w i =
     (let ds = (if i < 0 then ''-'' else []) @ to_dec (nat \<bar>i\<bar>)
      in replicate (w - length ds) CHR '' '' @ ds)"

text \<open>\<open>duration_cast\<close> to a coarser unit truncates toward zero.\<close>

definition duration_cast :: "int \<Rightarrow> int \<Rightarrow> int" where
  "duration_cast unit t = (if t < 0 then - ((- t) div unit) else t div unit)"

section \<open>LogBuffer\<close>

text \<open>
  A buffer is the written part of its array; \<open>mUsedSize\<close> is its length. A write behind
  the array is undefined.
\<close>

type_synonym log_buffer = string

definition LogBuffer_new :: log_buffer where "LogBuffer_new = []"

definition LogBuffer_size :: "log_buffer \<Rightarrow> nat" where "LogBuffer_size b = length b"

definition LogBuffer_writable :: "log_buffer \<Rightarrow> nat \<Rightarrow> bool" where
  "LogBuffer_writable b n \<longleftrightarrow> LOG_BUFFER_SIZE - LogBuffer_size b \<ge> n"

definition flushEnable :: "log_buffer \<Rightarrow> bool" where
  "flushEnable b \<longleftrightarrow> LogBuffer_size b > 0"

definition LogBuffer_write :: "log_buffer \<Rightarrow> string \<Rightarrow> failure + log_buffer" where
  "LogBuffer_write b line =
     (if LogBuffer_size b + length line > LOG_BUFFER_SIZE then Inl (Undefined buffer_overrun) else Inr (b @ line))"

section \<open>The server\<close>

text \<open>
  The log files in the order of their creation, newest first; \<open>mLogFileStream\<close> is the
  name of the open one. A write to a stream that is not open is ignored.
\<close>

record log_env =
  env_now :: int
  env_dir_ok :: bool
  env_open_ok :: bool

record log_server =
  logFiles :: "(string \<times> string) list"
  mLogFileStream :: "string option"
  mLogAlreadyWritenBytes :: nat
  mStopThread :: bool
  mNeedFlushNow :: bool
  mpCurrentBuffer :: log_buffer
  mvAvailbleBuffers :: "log_buffer list"
  mvPendingBuffers :: "log_buffer list"
  mProcessId :: int
  mProcessIdStr :: string
  mProcessName :: string
  mCurrentDate :: int

text \<open>Where the flush thread is: before the loop's test, in the wait, writing, returning buffers, done.\<close>

datatype flush_pc =
  FHead | FWait | FFlush "log_buffer list" "log_buffer list" | FReturn "log_buffer list" | FExited

record log_system = log_server +
  flushPc :: flush_pc

type_synonym 'a log_exec = "(failure, log_system, 'a) exec"

fun file_write :: "string \<Rightarrow> string \<Rightarrow> (string \<times> string) list \<Rightarrow> (string \<times> string) list" where
  "file_write n txt [] = []"
| "file_write n txt ((n', c) # fs) = (if n' = n then (n', c @ txt) # fs else (n', c) # file_write n txt fs)"

text \<open>\<open>LogBuffer::flush\<close>: the buffer is empty afterwards.\<close>

definition LogBuffer_flush :: "log_buffer \<Rightarrow> unit log_exec" where
  "LogBuffer_flush b = modifyE (\<lambda>s. case mLogFileStream s of
     None \<Rightarrow> s | Some n \<Rightarrow> s\<lparr>logFiles := file_write n b (logFiles s)\<rparr>)"

definition log_file_name :: "log_server \<Rightarrow> int \<Rightarrow> string" where
  "log_file_name s t =
     (let now = (case gmtime_r t of Some d \<Rightarrow> d
         | None \<Rightarrow> \<lparr>tm_year = 0, tm_mon = 0, tm_mday = 0, tm_hour = 0, tm_min = 0, tm_sec = 0\<rparr>)
      in c_str (mProcessName s) @ ''_'' @ fmt_zero 0 (mProcessId s) @ ''_''
         @ fmt_zero 4 (tm_year now + 1900) @ ''-'' @ fmt_zero 2 (tm_mon now + 1) @ ''-'' @ fmt_zero 2 (tm_mday now) @ ''_''
         @ fmt_zero 2 (tm_hour now) @ ''-'' @ fmt_zero 2 (tm_min now) @ ''-'' @ fmt_zero 2 (tm_sec now) @ ''.log'')"

definition env_days :: "log_env \<Rightarrow> int" where
  "env_days e = duration_cast 86400000 (env_now e)"

definition env_secs :: "log_env \<Rightarrow> int" where
  "env_secs e = duration_cast 1000 (env_now e)"

text \<open>
  The directory is made first, or the call throws. A file that cannot be opened is no
  exception: the stream is only not open. A file of the same name is truncated.
\<close>

definition createLogFileStream :: "log_env \<Rightarrow> unit log_exec" where
  "createLogFileStream e =
     (if \<not> env_dir_ok e then throwE (SystemException ''Can't create log filePath because:'')
      else modifyE (\<lambda>s. let n = log_file_name (log_server.truncate s) (env_secs e) in
        if env_open_ok e
        then s\<lparr>logFiles := (n, []) # filter (\<lambda>f. fst f \<noteq> n) (logFiles s), mLogFileStream := Some n\<rparr>
        else s\<lparr>mLogFileStream := None\<rparr>))"

text \<open>
  \<open>getLinuxProcessName\<close>; \<open>cmdline\<close> is what was read, \<open>None\<close> when the file could
  not be opened or read. The buffer has 256 bytes.
\<close>

definition getLinuxProcessName :: "string option \<Rightarrow> string" where
  "getLinuxProcessName cmdline =
     (let raw = (case cmdline of
          Some s \<Rightarrow> rev (takeWhile (\<lambda>c. c \<noteq> CHR ''/'') (rev (take 256 s)))
        | None \<Rightarrow> replicate 256 (CHR 0x00))
      in if raw = [] then ''Unknown'' else strip raw)"

text \<open>The constructor, in a process whose number and command line are given.\<close>

definition LogServer_init :: "log_env \<Rightarrow> int \<Rightarrow> string option \<Rightarrow> log_system" where
  "LogServer_init e pid cmdline =
     \<lparr>logFiles = [], mLogFileStream = None, mLogAlreadyWritenBytes = 0, mStopThread = False, mNeedFlushNow = False,
      mpCurrentBuffer = LogBuffer_new, mvAvailbleBuffers = [], mvPendingBuffers = [], mProcessId = pid,
      mProcessIdStr = fmt_right 5 pid, mProcessName = getLinuxProcessName cmdline, mCurrentDate = env_days e,
      flushPc = FHead\<rparr>"

definition LogServer_new :: "log_env \<Rightarrow> int \<Rightarrow> string option \<Rightarrow> failure + log_system" where
  "LogServer_new e pid cmdline = (case createLogFileStream e (LogServer_init e pid cmdline) of
     (Inl f, _) \<Rightarrow> Inl f | (Inr _, s) \<Rightarrow> Inr s)"

text \<open>\<open>forceDestroy\<close> up to the join, and \<open>forceFlush\<close>. The destructor is \<open>forceDestroy\<close>.\<close>

definition forceDestroy :: "unit log_exec" where
  "forceDestroy = modifyE (\<lambda>s. s\<lparr>mStopThread := True\<rparr>)"

definition forceFlush :: "unit log_exec" where
  "forceFlush = modifyE (\<lambda>s. s\<lparr>mNeedFlushNow := True\<rparr>)"

section \<open>Writing a line\<close>

text \<open>What a thread keeps for itself.\<close>

record log_thread =
  tCurThreadIdStr :: string
  tCurDate :: int
  tCurDateStr :: string

definition log_thread_new :: "int \<Rightarrow> log_thread" where
  "log_thread_new tid = \<lparr>tCurThreadIdStr = fmt_right 5 tid, tCurDate = 0, tCurDateStr = []\<rparr>"

definition update_date :: "log_env \<Rightarrow> log_server \<Rightarrow> log_thread \<Rightarrow> failure + log_thread" where
  "update_date e s th =
     (if tCurDate th < mCurrentDate s then
        (case gmtime_r (env_secs e) of
           None \<Rightarrow> Inl (SystemException ''[LogServer] invoke gmtime_r failed.'')
         | Some d \<Rightarrow> Inr (th\<lparr>tCurDate := mCurrentDate s,
             tCurDateStr := fmt_zero 4 (tm_year d + 1900) @ ''-'' @ fmt_zero 2 (tm_mon d + 1) @ ''-'' @ fmt_zero 2 (tm_mday d)\<rparr>))
      else Inr th)"

text \<open>Hours, minutes, seconds and milliseconds since the start of the thread's day.\<close>

definition time_fields :: "int \<Rightarrow> int \<Rightarrow> int \<times> int \<times> int \<times> int" where
  "time_fields now day =
     (let t0 = now - day * 86400000;
          h = duration_cast 3600000 t0; t1 = t0 - h * 3600000;
          m = duration_cast 60000 t1; t2 = t1 - m * 60000;
          s = duration_cast 1000 t2
      in (h, m, s, t2 - s * 1000))"

definition log_line :: "log_env \<Rightarrow> log_server \<Rightarrow> log_thread \<Rightarrow> LogLevel \<Rightarrow> string \<Rightarrow> string \<Rightarrow> string" where
  "log_line e s th level formatted tag =
     (let (h, m, sec, ms) = time_fields (env_now e) (tCurDate th) in
      tCurDateStr th @ '' '' @ fmt_zero 2 h @ '':'' @ fmt_zero 2 m @ '':'' @ fmt_zero 2 sec @ ''.'' @ fmt_zero 3 ms
      @ '' '' @ mProcessIdStr s @ '' '' @ tCurThreadIdStr th @ '' ['' @ log_level_to_string level @ ''][''
      @ tag @ ''] '' @ formatted @ [CHR 0x0A])"

text \<open>A buffer for the lines to come: a returned one, the last of them first, or a new one.\<close>

definition take_buffer :: "unit log_exec" where
  "take_buffer = modifyE (\<lambda>s. if mvAvailbleBuffers s = [] then s\<lparr>mpCurrentBuffer := LogBuffer_new\<rparr>
     else s\<lparr>mpCurrentBuffer := last (mvAvailbleBuffers s), mvAvailbleBuffers := butlast (mvAvailbleBuffers s)\<rparr>)"

definition push_current :: "unit log_exec" where
  "push_current = thenE (modifyE (\<lambda>s. s\<lparr>mvPendingBuffers := mvPendingBuffers s @ [mpCurrentBuffer s]\<rparr>)) take_buffer"

definition write_current :: "string \<Rightarrow> unit log_exec" where
  "write_current line = withE (\<lambda>s. bindE (liftE (LogBuffer_write (mpCurrentBuffer s) line))
     (\<lambda>b. modifyE (\<lambda>s. s\<lparr>mpCurrentBuffer := b\<rparr>)))"

text \<open>The section under the mutex: with too many pending buffers the line is dropped.\<close>

definition write_line :: "string \<Rightarrow> unit log_exec" where
  "write_line line = withE (\<lambda>s.
     if LogBuffer_writable (mpCurrentBuffer s) (length line) then write_current line
     else if length (mvPendingBuffers s) \<le> MAX_PENDING_BUFFERS then thenE push_current (write_current line)
     else retE ())"

definition LogServer_write :: "log_env \<Rightarrow> log_thread \<Rightarrow> LogLevel \<Rightarrow> string \<Rightarrow> string \<Rightarrow> log_thread log_exec" where
  "LogServer_write e th level formatted tag = withE (\<lambda>s.
     bindE (liftE (update_date e (log_server.truncate s) th)) (\<lambda>th'.
     thenE (write_line (log_line e (log_server.truncate s) th' level formatted tag)) (retE th')))"

text \<open>
  The macros: a level above \<open>DEFAULT_LOG_LEVEL\<close> is compiled out, \<open>LOG_ERR\<close> asks for a
  flush, \<open>LOG_FATAL\<close> stops the flush thread and then the process.
\<close>

definition LOG_AT :: "log_env \<Rightarrow> log_thread \<Rightarrow> LogLevel \<Rightarrow> string \<Rightarrow> string \<Rightarrow> log_thread log_exec" where
  "LOG_AT e th level str tag =
     (if DEFAULT_LOG_LEVEL \<ge> level_num level then LogServer_write e th level str tag else retE th)"

definition LOG_ERR :: "log_env \<Rightarrow> log_thread \<Rightarrow> string \<Rightarrow> string \<Rightarrow> log_thread log_exec" where
  "LOG_ERR e th str tag = bindE (LogServer_write e th Error str tag) (\<lambda>th'. thenE forceFlush (retE th'))"

text \<open>\<open>printBacktrace\<close>: all lines of the trace but the first.\<close>

definition printBacktrace :: "log_env \<Rightarrow> log_thread \<Rightarrow> string list \<Rightarrow> log_thread log_exec" where
  "printBacktrace e th backtraces =
     bindE (LOG_AT e th Warning (replicate 80 CHR ''='') ''LOG'') (\<lambda>th.
     bindE (LOG_AT e th Warning (replicate 30 CHR ''='' @ '' Start print backtrace '' @ replicate 27 CHR ''='') ''LOG'') (\<lambda>th.
     bindE (foldl (\<lambda>m l. bindE m (\<lambda>th. LogServer_write e th Warning l ''LOG'')) (retE th) (tl backtraces)) (\<lambda>th.
     bindE (LOG_AT e th Warning (replicate 31 CHR ''='' @ '' End print backtrace  '' @ replicate 27 CHR ''='') ''LOG'') (\<lambda>th.
       LOG_ERR e th (replicate 80 CHR ''='') ''LOG''))))"

text \<open>\<open>ScopeTracer\<close>: a line at the entry of a function and one at its exit.\<close>

definition ScopeTracer_enter :: "log_env \<Rightarrow> log_thread \<Rightarrow> string \<Rightarrow> string \<Rightarrow> log_thread log_exec" where
  "ScopeTracer_enter e th tag funcName = LOG_AT e th Debug (funcName @ '': E'') tag"

definition ScopeTracer_exit :: "log_env \<Rightarrow> log_thread \<Rightarrow> string \<Rightarrow> string \<Rightarrow> log_thread log_exec" where
  "ScopeTracer_exit e th tag funcName = noexcept (LOG_AT e th Debug (funcName @ '': X'') tag)"

section \<open>The flush thread\<close>

text \<open>A buffer goes to the file, which is changed first when it would become too large.\<close>

definition flush_one :: "log_env \<Rightarrow> log_buffer \<Rightarrow> unit log_exec" where
  "flush_one e b = block
     [withE (\<lambda>s. whenE (LogBuffer_size b + mLogAlreadyWritenBytes s \<ge> LOG_MAX_FILE_SIZE)
        (block [modifyE (\<lambda>s. s\<lparr>mLogFileStream := None\<rparr>), createLogFileStream e,
                modifyE (\<lambda>s. s\<lparr>mLogAlreadyWritenBytes := 0\<rparr>)])),
      modifyE (\<lambda>s. s\<lparr>mLogAlreadyWritenBytes := mLogAlreadyWritenBytes s + LogBuffer_size b\<rparr>),
      LogBuffer_flush b]"

text \<open>The exit under the mutex: everything is written, every buffer is empty, the file closed.\<close>

definition final_flush :: "unit log_exec" where
  "final_flush = block
     [withE (\<lambda>s. forE LogBuffer_flush (mvPendingBuffers s)),
      modifyE (\<lambda>s. s\<lparr>mvPendingBuffers := map (\<lambda>_. []) (mvPendingBuffers s)\<rparr>),
      withE (\<lambda>s. whenE (flushEnable (mpCurrentBuffer s)) (LogBuffer_flush (mpCurrentBuffer s))),
      modifyE (\<lambda>s. s\<lparr>mpCurrentBuffer := [], mLogFileStream := None, flushPc := FExited\<rparr>)]"

text \<open>
  The section under the mutex after the wait. The wait ends when its condition holds, or
  after two seconds; \<open>timeout\<close> is that the condition still does not hold.
\<close>

definition collect_buffers :: "unit log_exec" where
  "collect_buffers = withE (\<lambda>s.
     let timeout = \<not> (mStopThread s \<or> mvPendingBuffers s \<noteq> [] \<or> mNeedFlushNow s) in
     if mStopThread s then final_flush
     else block
       [whenE (timeout \<or> mNeedFlushNow s) (thenE push_current (modifyE (\<lambda>s. s\<lparr>mNeedFlushNow := False\<rparr>))),
        modifyE (\<lambda>s. s\<lparr>flushPc := FFlush [] (mvPendingBuffers s), mvPendingBuffers := []\<rparr>)])"

definition doFlushAsync :: "log_env \<Rightarrow> unit log_exec" where
  "doFlushAsync e = withE (\<lambda>s. case flushPc s of
     FHead \<Rightarrow> modifyE (\<lambda>s. s\<lparr>flushPc := if mStopThread s then FExited else FWait\<rparr>)
   | FWait \<Rightarrow> collect_buffers
   | FFlush done [] \<Rightarrow> modifyE (\<lambda>s. s\<lparr>flushPc := FReturn done\<rparr>)
   | FFlush done (b # todo) \<Rightarrow> thenE (flush_one e b) (modifyE (\<lambda>s. s\<lparr>flushPc := FFlush (done @ [[]]) todo\<rparr>))
   | FReturn done \<Rightarrow> modifyE (\<lambda>s. s\<lparr>mvAvailbleBuffers := mvAvailbleBuffers s @ done,
       mCurrentDate := env_days e, flushPc := FHead\<rparr>)
   | FExited \<Rightarrow> retE ())"

text \<open>Events: a thread writes a line or asks for a flush, somebody stops the logger, the flush thread moves.\<close>

datatype log_event = EWrite string | EFlush | EStop | EThread log_env

fun log_do :: "log_event \<Rightarrow> unit log_exec" where
  "log_do (EWrite line) = write_line line"
| "log_do EFlush = forceFlush"
| "log_do EStop = forceDestroy"
| "log_do (EThread e) = doFlushAsync e"

end
