(* ===== verification/Histories.thy ===== *)
theory Histories
  imports Errors
begin

text \<open>
  Runs of components whose steps interleave. A run is a list of events; \<open>step\<close> says what
  an event does. The locale \<open>history\<close> is the contract of a component that only ever
  appends to what it has produced: its invariant holds along every run, no run fails, and
  what it shows at the end is what it showed at the start and then the output of the
  events, in their order.
\<close>

primrec run_pre :: "('ev \<Rightarrow> ('e, 's, unit) exec) \<Rightarrow> ('ev \<Rightarrow> 's \<Rightarrow> bool) \<Rightarrow> 'ev list \<Rightarrow> 's \<Rightarrow> bool" where
  "run_pre step pre [] s \<longleftrightarrow> True"
| "run_pre step pre (ev # evs) s \<longleftrightarrow> pre ev s \<and> run_pre step pre evs (snd (step ev s))"

primrec run_out :: "('ev \<Rightarrow> ('e, 's, unit) exec) \<Rightarrow> ('ev \<Rightarrow> 's \<Rightarrow> 'a list) \<Rightarrow> 'ev list \<Rightarrow> 's \<Rightarrow> 'a list" where
  "run_out step out [] s = []"
| "run_out step out (ev # evs) s = out ev s @ run_out step out evs (snd (step ev s))"

lemma thenE_eq: "thenE m n s = (case m s of (Inl e, s') \<Rightarrow> (Inl e, s') | (Inr _, s') \<Rightarrow> n s')"
  by (simp add: thenE_def bindE_def)

locale history =
  fixes step :: "'ev \<Rightarrow> ('e, 's, unit) exec"
    and inv :: "'s \<Rightarrow> bool"
    and pre :: "'ev \<Rightarrow> 's \<Rightarrow> bool"
    and view :: "'s \<Rightarrow> 'a list"
    and out :: "'ev \<Rightarrow> 's \<Rightarrow> 'a list"
  assumes step_ok: "inv s \<Longrightarrow> pre ev s \<Longrightarrow>
    \<exists>s'. step ev s = (Inr (), s') \<and> inv s' \<and> view s' = view s @ out ev s"
begin

lemma run_ok:
  "inv s \<Longrightarrow> run_pre step pre evs s \<Longrightarrow>
   \<exists>s'. forE step evs s = (Inr (), s') \<and> inv s' \<and> view s' = view s @ run_out step out evs s"
proof (induction evs arbitrary: s)
  case Nil
  then show ?case by simp
next
  case (Cons ev evs)
  from Cons.prems have "pre ev s" by simp
  with step_ok Cons.prems(1) obtain s1 where
    s1: "step ev s = (Inr (), s1)" "inv s1" "view s1 = view s @ out ev s" by blast
  with Cons.prems Cons.IH [of s1] obtain s' where
    "forE step evs s1 = (Inr (), s')" "inv s'" "view s' = view s1 @ run_out step out evs s1"
    by auto
  with s1 show ?case by (auto simp: thenE_eq)
qed

end

text \<open>
  A component that comes to rest: every step counts a measure down, and keeps a value.
\<close>

locale countdown =
  fixes step :: "'ev \<Rightarrow> ('e, 's, unit) exec"
    and inv :: "'s \<Rightarrow> bool"
    and pre :: "'ev \<Rightarrow> 's \<Rightarrow> bool"
    and left :: "'s \<Rightarrow> nat"
    and result :: "'s \<Rightarrow> 'r"
  assumes step_down: "inv s \<Longrightarrow> pre ev s \<Longrightarrow>
    \<exists>s'. step ev s = (Inr (), s') \<and> inv s' \<and> left s' = left s - 1 \<and> result s' = result s"
begin

lemma run_down:
  "inv s \<Longrightarrow> run_pre step pre evs s \<Longrightarrow>
   \<exists>s'. forE step evs s = (Inr (), s') \<and> inv s' \<and> left s' = left s - length evs \<and> result s' = result s"
proof (induction evs arbitrary: s)
  case Nil
  then show ?case by simp
next
  case (Cons ev evs)
  from Cons.prems have "pre ev s" by simp
  with step_down Cons.prems(1) obtain s1 where
    s1: "step ev s = (Inr (), s1)" "inv s1" "left s1 = left s - 1" "result s1 = result s" by blast
  with Cons.prems Cons.IH [of s1] obtain s' where
    "forE step evs s1 = (Inr (), s')" "inv s'" "left s' = left s1 - length evs" "result s' = result s1"
    by auto
  with s1 show ?case by (auto simp: thenE_eq)
qed

end

end
