(* ===== verification/LogProofs.thy ===== *)
theory LogProofs
  imports LogServer Histories
begin

text \<open>
  What the logger promises: it is a queue of lines (\<open>log_order\<close>), and what stopping it
  does (\<open>stop_outcomes\<close>).
\<close>

section \<open>What is in the logger\<close>

definition file_text :: "log_system \<Rightarrow> string" where
  "file_text s = concat (rev (map snd (logFiles s)))"

fun pc_text :: "flush_pc \<Rightarrow> string" where
  "pc_text (FFlush _ todo) = concat todo"
| "pc_text _ = []"

definition all_text :: "log_system \<Rightarrow> string" where
  "all_text s = file_text s @ pc_text (flushPc s) @ concat (mvPendingBuffers s) @ mpCurrentBuffer s"

definition fits :: "log_buffer \<Rightarrow> bool" where
  "fits b \<longleftrightarrow> length b \<le> LOG_BUFFER_SIZE"

fun pc_ok :: "flush_pc \<Rightarrow> bool" where
  "pc_ok (FFlush done todo) \<longleftrightarrow> set done \<subseteq> {[]} \<and> (\<forall>b \<in> set todo. fits b) \<and> length todo \<le> MAX_PENDING_BUFFERS + 2"
| "pc_ok (FReturn done) \<longleftrightarrow> set done \<subseteq> {[]}"
| "pc_ok _ \<longleftrightarrow> True"

text \<open>While the flush thread lives, the newest file is open and counted.\<close>

definition stream_ok :: "log_system \<Rightarrow> bool" where
  "stream_ok s \<longleftrightarrow> (\<exists>n c fs. logFiles s = (n, c) # fs \<and> mLogFileStream s = Some n
     \<and> length c = mLogAlreadyWritenBytes s \<and> (\<forall>f \<in> set (logFiles s). length (snd f) < LOG_MAX_FILE_SIZE))"

definition log_inv :: "log_system \<Rightarrow> bool" where
  "log_inv s \<longleftrightarrow> set (mvAvailbleBuffers s) \<subseteq> {[]} \<and> (\<forall>b \<in> set (mvPendingBuffers s). fits b)
     \<and> length (mvPendingBuffers s) \<le> MAX_PENDING_BUFFERS + 1 \<and> fits (mpCurrentBuffer s)
     \<and> pc_ok (flushPc s) \<and> (flushPc s = FExited \<or> stream_ok s)"

text \<open>Events a run may have: lines that fit into a buffer, files that can be made under a new name.\<close>

definition new_file_ok :: "log_env \<Rightarrow> log_system \<Rightarrow> bool" where
  "new_file_ok e s \<longleftrightarrow> env_dir_ok e \<and> env_open_ok e
     \<and> log_file_name (log_server.truncate s) (env_secs e) \<notin> fst ` set (logFiles s)"

fun event_ok :: "log_event \<Rightarrow> log_system \<Rightarrow> bool" where
  "event_ok (EWrite line) s \<longleftrightarrow> fits line"
| "event_ok (EThread e) s \<longleftrightarrow> new_file_ok e s"
| "event_ok _ s \<longleftrightarrow> True"

text \<open>The text an event adds: nothing for a line that is dropped.\<close>

fun event_text :: "log_event \<Rightarrow> log_system \<Rightarrow> string" where
  "event_text (EWrite line) s =
     (if LogBuffer_writable (mpCurrentBuffer s) (length line) \<or> length (mvPendingBuffers s) \<le> MAX_PENDING_BUFFERS
      then line else [])"
| "event_text _ s = []"

section \<open>Steps\<close>

lemmas log_defs = withE_def block.simps bindE_def thenE_def modifyE_def liftE_def whenE_def retE_def throwE_def

lemma push_current_eq:
  assumes "set (mvAvailbleBuffers s) \<subseteq> {[]}"
  shows "\<exists>av. push_current s = (Inr (), s\<lparr>mvPendingBuffers := mvPendingBuffers s @ [mpCurrentBuffer s],
      mpCurrentBuffer := [], mvAvailbleBuffers := av\<rparr>) \<and> set av \<subseteq> {[]}"
proof (cases "mvAvailbleBuffers s = []")
  case True
  then show ?thesis
    by (intro exI [of _ "[]"]) (simp add: push_current_def take_buffer_def LogBuffer_new_def exec_simps)
next
  case False
  with assms have "last (mvAvailbleBuffers s) = []" using last_in_set by blast
  moreover have "set (butlast (mvAvailbleBuffers s)) \<subseteq> {[]}" using assms by (meson in_set_butlastD subset_eq)
  ultimately show ?thesis using False
    by (intro exI [of _ "butlast (mvAvailbleBuffers s)"]) (simp add: push_current_def take_buffer_def exec_simps)
qed

lemma write_current_eq:
  "length (mpCurrentBuffer s) + length line \<le> LOG_BUFFER_SIZE \<Longrightarrow>
   write_current line s = (Inr (), s\<lparr>mpCurrentBuffer := mpCurrentBuffer s @ line\<rparr>)"
  by (simp add: write_current_def LogBuffer_write_def LogBuffer_size_def exec_simps)

lemma stream_ok_fields [simp]:
  "stream_ok (s\<lparr>mvPendingBuffers := p\<rparr>) = stream_ok s" "stream_ok (s\<lparr>mpCurrentBuffer := b\<rparr>) = stream_ok s"
  "stream_ok (s\<lparr>mvAvailbleBuffers := av\<rparr>) = stream_ok s" "stream_ok (s\<lparr>flushPc := pc\<rparr>) = stream_ok s"
  "stream_ok (s\<lparr>mNeedFlushNow := x\<rparr>) = stream_ok s" "stream_ok (s\<lparr>mStopThread := x\<rparr>) = stream_ok s"
  "stream_ok (s\<lparr>mCurrentDate := d\<rparr>) = stream_ok s"
  by (simp_all add: stream_ok_def)

lemma file_text_fields [simp]:
  "file_text (s\<lparr>mvPendingBuffers := p\<rparr>) = file_text s" "file_text (s\<lparr>mpCurrentBuffer := b\<rparr>) = file_text s"
  "file_text (s\<lparr>mvAvailbleBuffers := av\<rparr>) = file_text s" "file_text (s\<lparr>flushPc := pc\<rparr>) = file_text s"
  "file_text (s\<lparr>mNeedFlushNow := x\<rparr>) = file_text s" "file_text (s\<lparr>mStopThread := x\<rparr>) = file_text s"
  "file_text (s\<lparr>mCurrentDate := d\<rparr>) = file_text s" "file_text (s\<lparr>mLogFileStream := n\<rparr>) = file_text s"
  "file_text (s\<lparr>mLogAlreadyWritenBytes := k\<rparr>) = file_text s"
  by (simp_all add: file_text_def)

lemma write_line_step:
  assumes "log_inv s" and "fits line"
  shows "\<exists>s'. write_line line s = (Inr (), s') \<and> log_inv s' \<and> all_text s' = all_text s @ event_text (EWrite line) s"
proof -
  let ?cur = "mpCurrentBuffer s"
  have cur: "length ?cur \<le> LOG_BUFFER_SIZE" using assms(1) by (simp add: log_inv_def fits_def)
  consider (room) "length ?cur + length line \<le> LOG_BUFFER_SIZE"
    | (rotate) "LOG_BUFFER_SIZE < length ?cur + length line" "length (mvPendingBuffers s) \<le> MAX_PENDING_BUFFERS"
    | (lost) "LOG_BUFFER_SIZE < length ?cur + length line" "MAX_PENDING_BUFFERS < length (mvPendingBuffers s)"
    by linarith
  then show ?thesis
  proof cases
    case room
    then have "LogBuffer_writable ?cur (length line)" by (simp add: LogBuffer_writable_def LogBuffer_size_def)
    with room assms(1) write_current_eq [OF room] show ?thesis
      by (auto simp: write_line_def all_text_def log_inv_def fits_def)
  next
    case rotate
    then have n: "\<not> LogBuffer_writable ?cur (length line)" using cur by (simp add: LogBuffer_writable_def LogBuffer_size_def)
    have "set (mvAvailbleBuffers s) \<subseteq> {[]}" using assms(1) by (simp add: log_inv_def)
    from push_current_eq [OF this] obtain av where
      av: "push_current s = (Inr (), s\<lparr>mvPendingBuffers := mvPendingBuffers s @ [?cur], mpCurrentBuffer := [], mvAvailbleBuffers := av\<rparr>)"
        "set av \<subseteq> {[]}" by blast
    have len: "length line \<le> LOG_BUFFER_SIZE" using assms(2) by (simp add: fits_def)
    have "write_line line s = (Inr (), s\<lparr>mvPendingBuffers := mvPendingBuffers s @ [?cur], mvAvailbleBuffers := av, mpCurrentBuffer := line\<rparr>)"
      using n rotate(2) by (simp add: write_line_def thenE_eq av(1) write_current_eq len)
    then show ?thesis using n rotate(2) av(2) assms
      by (auto simp: all_text_def log_inv_def)
  next
    case lost
    then have "\<not> LogBuffer_writable ?cur (length line)" using cur by (simp add: LogBuffer_writable_def LogBuffer_size_def)
    with lost assms(1) show ?thesis by (auto simp: write_line_def)
  qed
qed

text \<open>Writing one buffer.\<close>

lemma flush_open:
  assumes "logFiles s = (n, c) # fs" and "mLogFileStream s = Some n"
  shows "LogBuffer_flush b s = (Inr (), s\<lparr>logFiles := (n, c @ b) # fs\<rparr>)"
  using assms by (simp add: LogBuffer_flush_def)

lemma flush_one_step:
  assumes st: "stream_ok s" and fit: "fits b" and e: "new_file_ok e s"
  shows "\<exists>fl n k. flush_one e b s = (Inr (), s\<lparr>logFiles := fl, mLogFileStream := Some n, mLogAlreadyWritenBytes := k\<rparr>)
    \<and> stream_ok (s\<lparr>logFiles := fl, mLogFileStream := Some n, mLogAlreadyWritenBytes := k\<rparr>)
    \<and> concat (rev (map snd fl)) = file_text s @ b"
proof -
  from st obtain n c fs where f: "logFiles s = (n, c) # fs" "mLogFileStream s = Some n"
    "length c = mLogAlreadyWritenBytes s" and small: "\<forall>f \<in> set (logFiles s). length (snd f) < LOG_MAX_FILE_SIZE"
    by (auto simp: stream_ok_def)
  let ?w = "mLogAlreadyWritenBytes s"
  show ?thesis
  proof (cases "length b + ?w \<ge> LOG_MAX_FILE_SIZE")
    case True
    let ?n = "log_file_name (log_server.truncate s) (env_secs e)"
    let ?s = "s\<lparr>logFiles := (?n, b) # logFiles s, mLogFileStream := Some ?n, mLogAlreadyWritenBytes := length b\<rparr>"
    have fresh: "filter (\<lambda>f. fst f \<noteq> ?n) (logFiles s) = logFiles s"
      using e by (force simp: new_file_ok_def filter_id_conv)
    have "log_file_name (log_server.truncate (s\<lparr>mLogFileStream := None\<rparr>)) (env_secs e) = ?n"
      by (simp add: log_file_name_def log_server.truncate_def)
    then have "flush_one e b s = (Inr (), ?s)" using True e fresh
      by (simp add: flush_one_def LogBuffer_size_def createLogFileStream_def new_file_ok_def LogBuffer_flush_def
          Let_def exec_simps)
    moreover have "stream_ok ?s" using fit small
      by (simp add: stream_ok_def fits_def LOG_BUFFER_SIZE_def LOG_MAX_FILE_SIZE_def)
    ultimately show ?thesis by (intro exI [of _ "(?n, b) # logFiles s"] exI [of _ ?n] exI [of _ "length b"]) (simp add: file_text_def)
  next
    case False
    let ?s = "s\<lparr>logFiles := (n, c @ b) # fs, mLogFileStream := Some n, mLogAlreadyWritenBytes := ?w + length b\<rparr>"
    have "flush_one e b s = (Inr (), ?s)" using False f
      by (simp add: flush_one_def LogBuffer_size_def LogBuffer_flush_def exec_simps)
    moreover have "stream_ok ?s" using False f small by (simp add: stream_ok_def)
    ultimately show ?thesis
      by (intro exI [of _ "(n, c @ b) # fs"] exI [of _ n] exI [of _ "?w + length b"]) (simp add: file_text_def f)
  qed
qed

lemma flush_all:
  assumes "logFiles s = (n, c) # fs" and "mLogFileStream s = Some n"
  shows "forE LogBuffer_flush bs s = (Inr (), s\<lparr>logFiles := (n, c @ concat bs) # fs\<rparr>)"
  using assms
proof (induction bs arbitrary: s c)
  case Nil
  then show ?case by simp
next
  case (Cons b bs)
  have "logFiles (s\<lparr>logFiles := (n, c @ b) # fs\<rparr>) = (n, c @ b) # fs" by simp
  with Cons.prems Cons.IH [of "s\<lparr>logFiles := (n, c @ b) # fs\<rparr>" "c @ b"] show ?case
    by (simp add: thenE_eq flush_open [OF Cons.prems])
qed

lemma final_flush_eq:
  assumes "stream_ok s"
  shows "\<exists>fl p. final_flush s = (Inr (), s\<lparr>logFiles := fl, mvPendingBuffers := p, mpCurrentBuffer := [], mLogFileStream := None, flushPc := FExited\<rparr>)
    \<and> concat (rev (map snd fl)) = file_text s @ concat (mvPendingBuffers s) @ mpCurrentBuffer s
    \<and> set p \<subseteq> {[]} \<and> length p = length (mvPendingBuffers s)"
proof -
  from assms obtain n c fs where f: "logFiles s = (n, c) # fs" "mLogFileStream s = Some n"
    by (auto simp: stream_ok_def)
  let ?p = "map (\<lambda>_. []) (mvPendingBuffers s) :: log_buffer list"
  let ?fl = "(n, (c @ concat (mvPendingBuffers s)) @ mpCurrentBuffer s) # fs"
  have "final_flush s = (Inr (), s\<lparr>logFiles := ?fl, mvPendingBuffers := ?p, mpCurrentBuffer := [], mLogFileStream := None, flushPc := FExited\<rparr>)"
    using f by (cases "mpCurrentBuffer s = []")
      (simp_all add: final_flush_def exec_simps flush_all [OF f] flushEnable_def LogBuffer_size_def LogBuffer_flush_def)
  then show ?thesis using f by (intro exI [of _ ?fl] exI [of _ ?p]) (auto simp: file_text_def)
qed

text \<open>The section after the wait.\<close>

lemma collect_stop:
  "mStopThread s \<Longrightarrow> collect_buffers s = final_flush s"
  by (simp add: collect_buffers_def)

lemma collect_step:
  assumes "log_inv s" and "flushPc s = FWait" and "\<not> mStopThread s"
  shows "\<exists>s'. collect_buffers s = (Inr (), s') \<and> log_inv s' \<and> all_text s' = all_text s"
proof (cases "mvPendingBuffers s = [] \<or> mNeedFlushNow s")
  case True
  have "set (mvAvailbleBuffers s) \<subseteq> {[]}" using assms(1) by (simp add: log_inv_def)
  from push_current_eq [OF this] obtain av where
    av: "push_current s = (Inr (), s\<lparr>mvPendingBuffers := mvPendingBuffers s @ [mpCurrentBuffer s], mpCurrentBuffer := [], mvAvailbleBuffers := av\<rparr>)"
      "set av \<subseteq> {[]}" by blast
  have "collect_buffers s = (Inr (), s\<lparr>mvPendingBuffers := [], mpCurrentBuffer := [], mvAvailbleBuffers := av,
      mNeedFlushNow := False, flushPc := FFlush [] (mvPendingBuffers s @ [mpCurrentBuffer s])\<rparr>)"
    using True assms(3) by (auto simp: collect_buffers_def Let_def thenE_eq av(1))
  then show ?thesis using assms av(2) by (auto simp: log_inv_def all_text_def fits_def)
next
  case False
  then have "collect_buffers s = (Inr (), s\<lparr>flushPc := FFlush [] (mvPendingBuffers s), mvPendingBuffers := []\<rparr>)"
    using assms(3) by (simp add: collect_buffers_def Let_def thenE_eq)
  then show ?thesis using assms by (auto simp: log_inv_def all_text_def)
qed

lemma final_step:
  assumes "log_inv s" and "flushPc s = FWait"
  shows "\<exists>s'. final_flush s = (Inr (), s') \<and> log_inv s' \<and> flushPc s' = FExited \<and> mStopThread s' = mStopThread s
    \<and> file_text s' = file_text s @ concat (mvPendingBuffers s) @ mpCurrentBuffer s
    \<and> concat (mvPendingBuffers s') = [] \<and> mpCurrentBuffer s' = []"
proof -
  have "stream_ok s" using assms by (simp add: log_inv_def)
  from final_flush_eq [OF this] obtain fl p where
    f: "final_flush s = (Inr (), s\<lparr>logFiles := fl, mvPendingBuffers := p, mpCurrentBuffer := [], mLogFileStream := None, flushPc := FExited\<rparr>)"
      "concat (rev (map snd fl)) = file_text s @ concat (mvPendingBuffers s) @ mpCurrentBuffer s"
      "set p \<subseteq> {[]}" "length p = length (mvPendingBuffers s)" by blast
  with assms show ?thesis
    by (auto simp: log_inv_def fits_def file_text_def)
qed

lemma thread_step:
  assumes inv: "log_inv s" and e: "new_file_ok e s"
  shows "\<exists>s'. doFlushAsync e s = (Inr (), s') \<and> log_inv s' \<and> all_text s' = all_text s"
proof (cases "flushPc s")
  case FHead
  with inv show ?thesis by (auto simp: doFlushAsync_def log_inv_def all_text_def)
next
  case FWait
  show ?thesis
  proof (cases "mStopThread s")
    case True
    from final_step [OF inv FWait] obtain s' where s': "final_flush s = (Inr (), s')" "log_inv s'" "flushPc s' = FExited"
      "file_text s' = file_text s @ concat (mvPendingBuffers s) @ mpCurrentBuffer s"
      "concat (mvPendingBuffers s') = []" "mpCurrentBuffer s' = []" by blast
    then have "all_text s' = all_text s" by (simp add: all_text_def FWait)
    with s'(1,2) FWait True show ?thesis by (auto simp: doFlushAsync_def collect_stop)
  next
    case False
    with collect_step [OF inv FWait] FWait show ?thesis by (simp add: doFlushAsync_def)
  qed
next
  case (FFlush dn todo)
  show ?thesis
  proof (cases todo)
    case Nil
    with FFlush inv show ?thesis by (auto simp: doFlushAsync_def log_inv_def all_text_def)
  next
    case (Cons b bs)
    have st: "stream_ok s" "fits b" using inv FFlush Cons by (auto simp: log_inv_def)
    from flush_one_step [OF this e] obtain fl n k where
      f: "flush_one e b s = (Inr (), s\<lparr>logFiles := fl, mLogFileStream := Some n, mLogAlreadyWritenBytes := k\<rparr>)"
      "stream_ok (s\<lparr>logFiles := fl, mLogFileStream := Some n, mLogAlreadyWritenBytes := k\<rparr>)"
      "concat (rev (map snd fl)) = file_text s @ b" by blast
    let ?s = "s\<lparr>logFiles := fl, mLogFileStream := Some n, mLogAlreadyWritenBytes := k, flushPc := FFlush (dn @ [[]]) bs\<rparr>"
    have "doFlushAsync e s = (Inr (), ?s)" using FFlush Cons by (simp add: doFlushAsync_def thenE_eq f(1))
    moreover have "log_inv ?s" using inv f(2) FFlush Cons by (auto simp: log_inv_def stream_ok_def)
    moreover have "all_text ?s = all_text s" using f(3) FFlush Cons by (simp add: all_text_def file_text_def)
    ultimately show ?thesis by blast
  qed
next
  case (FReturn dn)
  with inv show ?thesis by (auto simp: doFlushAsync_def log_inv_def all_text_def)
next
  case FExited
  with inv show ?thesis by (auto simp: doFlushAsync_def)
qed

lemma log_step_ok:
  assumes "log_inv s" and "event_ok ev s"
  shows "\<exists>s'. log_do ev s = (Inr (), s') \<and> log_inv s' \<and> all_text s' = all_text s @ event_text ev s"
proof (cases ev)
  case (EWrite line)
  with write_line_step [of s line] assms show ?thesis by simp
next
  case EFlush
  with assms show ?thesis by (auto simp: forceFlush_def log_inv_def all_text_def)
next
  case EStop
  with assms show ?thesis by (auto simp: forceDestroy_def log_inv_def all_text_def)
next
  case (EThread e)
  with thread_step [of s e] assms show ?thesis by simp
qed

interpretation log: history log_do log_inv event_ok all_text event_text
  by unfold_locales (rule log_step_ok)

section \<open>Stopping\<close>

text \<open>
  How many steps the flush thread takes to its end once the stop flag is set, and what
  the files hold then: all there is when it is in the wait, and otherwise only what it
  has already taken out of the pending buffers.
\<close>

fun steps_left :: "flush_pc \<Rightarrow> nat" where
  "steps_left FHead = 1"
| "steps_left FWait = 1"
| "steps_left (FFlush done todo) = length todo + 3"
| "steps_left (FReturn done) = 2"
| "steps_left FExited = 0"

definition final_text :: "log_system \<Rightarrow> string" where
  "final_text s = (if flushPc s = FWait then all_text s else file_text s @ pc_text (flushPc s))"

definition stopping :: "log_system \<Rightarrow> bool" where
  "stopping s \<longleftrightarrow> log_inv s \<and> mStopThread s"

lemma stop_step:
  assumes st: "stopping s" and e: "new_file_ok e s"
  shows "\<exists>s'. doFlushAsync e s = (Inr (), s') \<and> stopping s'
    \<and> steps_left (flushPc s') = steps_left (flushPc s) - 1 \<and> final_text s' = final_text s"
proof -
  from st have inv: "log_inv s" and stop: "mStopThread s" by (simp_all add: stopping_def)
  from thread_step [OF inv e] obtain s' where s': "doFlushAsync e s = (Inr (), s')" "log_inv s'" by blast
  show ?thesis
  proof (cases "flushPc s")
    case FHead
    with s' stop show ?thesis by (auto simp: doFlushAsync_def stopping_def final_text_def)
  next
    case FWait
    from final_step [OF inv FWait] obtain t where t: "final_flush s = (Inr (), t)" "log_inv t" "flushPc t = FExited"
      "mStopThread t = mStopThread s" "file_text t = file_text s @ concat (mvPendingBuffers s) @ mpCurrentBuffer s" by blast
    with FWait stop show ?thesis
      by (simp add: doFlushAsync_def collect_stop stopping_def final_text_def all_text_def)
  next
    case (FFlush dn todo)
    show ?thesis
    proof (cases todo)
      case Nil
      with FFlush s' stop show ?thesis by (auto simp: doFlushAsync_def stopping_def final_text_def)
    next
      case (Cons b bs)
      have "stream_ok s" "fits b" using inv FFlush Cons by (auto simp: log_inv_def)
      from flush_one_step [OF this e] obtain fl n k where
        f: "flush_one e b s = (Inr (), s\<lparr>logFiles := fl, mLogFileStream := Some n, mLogAlreadyWritenBytes := k\<rparr>)"
        "concat (rev (map snd fl)) = file_text s @ b" by blast
      from s' f(1) FFlush Cons have "s' = s\<lparr>logFiles := fl, mLogFileStream := Some n, mLogAlreadyWritenBytes := k,
          flushPc := FFlush (dn @ [[]]) bs\<rparr>" by (simp add: doFlushAsync_def thenE_eq)
      with s' f(2) FFlush Cons stop show ?thesis by (simp add: stopping_def final_text_def file_text_def)
    qed
  next
    case (FReturn dn)
    with s' stop show ?thesis by (auto simp: doFlushAsync_def stopping_def final_text_def)
  next
    case FExited
    with inv stop show ?thesis by (simp add: doFlushAsync_def stopping_def)
  qed
qed

interpretation stop: countdown doFlushAsync stopping new_file_ok "\<lambda>s. steps_left (flushPc s)" final_text
  by unfold_locales (rule stop_step)

section \<open>Properties\<close>

lemma new_inv:
  assumes "LogServer_new e pid cmdline = Inr s" and "env_open_ok e"
  shows "log_inv s" and "all_text s = []"
  using assms
  by (auto simp: LogServer_new_def LogServer_init_def createLogFileStream_def Let_def log_inv_def stream_ok_def fits_def
      LogBuffer_new_def LOG_MAX_FILE_SIZE_def all_text_def file_text_def split: if_splits)

text \<open>C8: The logger is a queue of lines. However the writers, the requests to flush, the stop and
  the steps of the flush thread interleave, no step fails; the files hold a prefix of the
  lines that were not dropped, in the order in which they were written, and the rest is
  still in the buffers. At most seven buffers are pending. A line is dropped only when the
  current buffer has no room and seven buffers are pending.\<close>

theorem log_order:
  assumes "LogServer_new e pid cmdline = Inr s" and "env_open_ok e" and "run_pre log_do event_ok evs s"
  shows "\<exists>s'. forE log_do evs s = (Inr (), s')
    \<and> file_text s' @ pc_text (flushPc s') @ concat (mvPendingBuffers s') @ mpCurrentBuffer s' = run_out log_do event_text evs s
    \<and> length (mvPendingBuffers s') \<le> MAX_PENDING_BUFFERS + 1"
proof -
  from log.run_ok [OF new_inv(1) [OF assms(1,2)] assms(3)] obtain s' where
    "forE log_do evs s = (Inr (), s')" "log_inv s'" "all_text s' = all_text s @ run_out log_do event_text evs s" by blast
  with new_inv(2) [OF assms(1,2)] show ?thesis by (auto simp: all_text_def log_inv_def)
qed

definition demo_env :: "int \<Rightarrow> log_env" where
  "demo_env now = \<lparr>env_now = now, env_dir_ok = True, env_open_ok = True\<rparr>"

definition demo_init :: log_system where
  "demo_init = LogServer_init (demo_env 0) 7 (Some ''/bin/echo'')"

definition demo_name :: string where
  "demo_name = log_file_name (log_server.truncate demo_init) 0"

definition demo_server :: log_system where
  "demo_server = demo_init\<lparr>logFiles := [(demo_name, [])], mLogFileStream := Some demo_name\<rparr>"

definition demo_events :: "log_event list" where
  "demo_events = [EWrite ''one'', EThread (demo_env 1000), EFlush, EWrite ''two'']"

lemma demo_env_simps:
  "env_dir_ok (demo_env t)" "env_open_ok (demo_env t)" "env_secs (demo_env t) = duration_cast 1000 t"
  by (simp_all add: demo_env_def env_secs_def)

lemma demo_init_fields:
  "logFiles demo_init = []" "mpCurrentBuffer demo_init = []" "mvPendingBuffers demo_init = []"
  "flushPc demo_init = FHead" "mStopThread demo_init = False"
  by (simp_all add: demo_init_def LogServer_init_def LogBuffer_new_def)

lemma demo_server: "LogServer_new (demo_env 0) 7 (Some ''/bin/echo'') = Inr demo_server"
proof -
  have "createLogFileStream (demo_env 0) demo_init = (Inr (), demo_server)"
    by (simp add: createLogFileStream_def demo_env_simps duration_cast_def Let_def demo_init_fields demo_server_def demo_name_def)
  then show ?thesis by (simp add: LogServer_new_def demo_init_def)
qed

lemma demo_fields:
  "logFiles demo_server = [(demo_name, [])]"
  "mpCurrentBuffer demo_server = []" "mvPendingBuffers demo_server = []" "flushPc demo_server = FHead"
  "mStopThread demo_server = False"
  by (simp_all add: demo_server_def demo_init_fields)

lemma log_file_name_cong:
  "mProcessName s = mProcessName s' \<Longrightarrow> mProcessId s = mProcessId s' \<Longrightarrow> log_file_name s t = log_file_name s' t"
  by (simp add: log_file_name_def)

lemma names_differ: "log_file_name s 1 \<noteq> log_file_name s 0"
proof -
  have g: "gmtime_r 0 = Some \<lparr>tm_year = 70, tm_mon = 0, tm_mday = 1, tm_hour = 0, tm_min = 0, tm_sec = 0\<rparr>"
    "gmtime_r 1 = Some \<lparr>tm_year = 70, tm_mon = 0, tm_mday = 1, tm_hour = 0, tm_min = 0, tm_sec = 1\<rparr>"
    by code_simp+
  have "fmt_zero 2 1 \<noteq> fmt_zero 2 0" by code_simp
  then show ?thesis by (simp add: log_file_name_def g)
qed

theorem log_order_witness:
  "\<exists>s'. forE log_do demo_events demo_server = (Inr (), s')
    \<and> file_text s' @ pc_text (flushPc s') @ concat (mvPendingBuffers s') @ mpCurrentBuffer s'
        = run_out log_do event_text demo_events demo_server
    \<and> length (mvPendingBuffers s') \<le> MAX_PENDING_BUFFERS + 1"
proof (rule log_order [OF demo_server], goal_cases)
  case 1
  show ?case by (simp add: demo_env_def)
next
  case 2
  have "log_file_name (log_server.truncate (demo_server\<lparr>mpCurrentBuffer := b\<rparr>)) 1 = log_file_name (log_server.truncate demo_init) 1" for b
    by (rule log_file_name_cong) (simp_all add: log_server.truncate_def demo_server_def)
  then have "log_file_name (log_server.truncate (demo_server\<lparr>mpCurrentBuffer := b\<rparr>)) 1 \<noteq> demo_name" for b
    using names_differ by (simp add: demo_name_def)
  then show ?case
    by (simp add: demo_events_def fits_def new_file_ok_def demo_env_simps duration_cast_def write_line_def
        LogBuffer_writable_def LogBuffer_size_def LogBuffer_write_def write_current_def bindE_def LOG_BUFFER_SIZE_def
        doFlushAsync_def forceFlush_def demo_fields)
qed

text \<open>C32: Stopping the logger. Once the stop flag is set the flush thread ends after at most
  \<open>steps_left\<close> of its steps, so \<open>forceDestroy\<close> returns. If it was in the wait, everything
  is in the files then. If it was anywhere else, only the buffers it had already taken are:
  what is pending or in the current buffer is never written.\<close>

theorem stop_outcomes:
  assumes "log_inv s" and "mStopThread s" and "run_pre doFlushAsync new_file_ok es s"
    and "steps_left (flushPc s) \<le> length es"
  shows "\<exists>s'. forE doFlushAsync es s = (Inr (), s') \<and> flushPc s' = FExited
    \<and> file_text s' = file_text s @ (case flushPc s of
         FWait \<Rightarrow> concat (mvPendingBuffers s) @ mpCurrentBuffer s | FFlush _ todo \<Rightarrow> concat todo | _ \<Rightarrow> [])"
proof -
  have "stopping s" using assms(1,2) by (simp add: stopping_def)
  from stop.run_down [OF this assms(3)] obtain s' where
    s': "forE doFlushAsync es s = (Inr (), s')" "steps_left (flushPc s') = 0" "final_text s' = final_text s"
    using assms(4) by auto
  then have "flushPc s' = FExited" by (cases "flushPc s'") auto
  moreover from this s'(3) have "file_text s' = final_text s" by (simp add: final_text_def)
  ultimately show ?thesis using s'(1)
    by (cases "flushPc s") (simp_all add: final_text_def all_text_def)
qed

definition demo_stopped :: log_system where
  "demo_stopped = demo_server\<lparr>mpCurrentBuffer := ''lost'', mStopThread := True\<rparr>"

theorem stop_outcomes_witness:
  "\<exists>s'. forE doFlushAsync [demo_env 1000] demo_stopped = (Inr (), s') \<and> flushPc s' = FExited
    \<and> file_text s' = file_text demo_stopped @ (case flushPc demo_stopped of
         FWait \<Rightarrow> concat (mvPendingBuffers demo_stopped) @ mpCurrentBuffer demo_stopped
       | FFlush _ todo \<Rightarrow> concat todo | _ \<Rightarrow> [])"
proof (rule stop_outcomes, goal_cases)
  case 1
  have "log_inv demo_server" using demo_server by (rule new_inv(1)) (simp add: demo_env_def)
  then show ?case by (simp add: demo_stopped_def log_inv_def fits_def LOG_BUFFER_SIZE_def)
next
  case 2
  show ?case by (simp add: demo_stopped_def)
next
  case 3
  have "log_file_name (log_server.truncate demo_stopped) 1 = log_file_name (log_server.truncate demo_init) 1"
    by (rule log_file_name_cong) (simp_all add: log_server.truncate_def demo_stopped_def demo_server_def)
  then have "log_file_name (log_server.truncate demo_stopped) 1 \<noteq> demo_name"
    using names_differ by (simp add: demo_name_def)
  moreover have "logFiles demo_stopped = [(demo_name, [])]" by (simp add: demo_stopped_def demo_fields)
  ultimately show ?case by (simp add: new_file_ok_def demo_env_simps duration_cast_def)
next
  case 4
  show ?case by (simp add: demo_stopped_def demo_fields)
qed

text \<open>C33: What happens to a line, by its length and the state of the buffers: it is appended; or a
  fresh buffer takes it; or it is dropped because too many buffers are pending; or, longer
  than a buffer, it is copied behind the end of one.\<close>

theorem write_line_outcomes:
  assumes "length (mpCurrentBuffer s) \<le> LOG_BUFFER_SIZE" and "set (mvAvailbleBuffers s) \<subseteq> {[]}"
  shows "case write_line line s of
     (Inr _, s') \<Rightarrow>
       if length (mpCurrentBuffer s) + length line \<le> LOG_BUFFER_SIZE
       then s' = s\<lparr>mpCurrentBuffer := mpCurrentBuffer s @ line\<rparr>
       else if length (mvPendingBuffers s) > MAX_PENDING_BUFFERS then s' = s
       else mpCurrentBuffer s' = line \<and> mvPendingBuffers s' = mvPendingBuffers s @ [mpCurrentBuffer s]
         \<and> length line \<le> LOG_BUFFER_SIZE
   | (Inl f, _) \<Rightarrow> f = Undefined buffer_overrun \<and> length line > LOG_BUFFER_SIZE
       \<and> length (mvPendingBuffers s) \<le> MAX_PENDING_BUFFERS"
proof -
  let ?cur = "mpCurrentBuffer s"
  have w: "LogBuffer_writable ?cur (length line) \<longleftrightarrow> length ?cur + length line \<le> LOG_BUFFER_SIZE"
    using assms(1) by (simp add: LogBuffer_writable_def LogBuffer_size_def le_diff_conv2 add.commute)
  from push_current_eq [OF assms(2)] obtain av where
    av: "push_current s = (Inr (), s\<lparr>mvPendingBuffers := mvPendingBuffers s @ [?cur], mpCurrentBuffer := [], mvAvailbleBuffers := av\<rparr>)" by blast
  show ?thesis
    by (simp add: write_line_def w thenE_eq av(1)) (simp add: write_current_def LogBuffer_write_def LogBuffer_size_def bindE_def)
qed

theorem write_line_outcomes_witness:
  "case write_line (replicate (LOG_BUFFER_SIZE + 1) CHR ''x'') demo_server of
     (Inr _, s') \<Rightarrow>
       if length (mpCurrentBuffer demo_server) + length (replicate (LOG_BUFFER_SIZE + 1) CHR ''x'') \<le> LOG_BUFFER_SIZE
       then s' = demo_server\<lparr>mpCurrentBuffer := mpCurrentBuffer demo_server @ replicate (LOG_BUFFER_SIZE + 1) CHR ''x''\<rparr>
       else if length (mvPendingBuffers demo_server) > MAX_PENDING_BUFFERS then s' = demo_server
       else mpCurrentBuffer s' = replicate (LOG_BUFFER_SIZE + 1) CHR ''x''
         \<and> mvPendingBuffers s' = mvPendingBuffers demo_server @ [mpCurrentBuffer demo_server]
         \<and> length (replicate (LOG_BUFFER_SIZE + 1) CHR ''x'') \<le> LOG_BUFFER_SIZE
   | (Inl f, _) \<Rightarrow> f = Undefined buffer_overrun \<and> length (replicate (LOG_BUFFER_SIZE + 1) CHR ''x'') > LOG_BUFFER_SIZE
       \<and> length (mvPendingBuffers demo_server) \<le> MAX_PENDING_BUFFERS"
proof (rule write_line_outcomes, goal_cases)
  case 1
  have "log_inv demo_server" using demo_server by (rule new_inv(1)) (simp add: demo_env_def)
  then show ?case by (simp add: log_inv_def fits_def)
next
  case 2
  have "log_inv demo_server" using demo_server by (rule new_inv(1)) (simp add: demo_env_def)
  then show ?case by (simp add: log_inv_def)
qed

section \<open>Timestamps\<close>

text \<open>
  Within the day a thread has noted, the fields are those of the clock. In the first two
  seconds of a new day a thread that writes its first line takes the date of today and
  counts the hours from yesterday: hour 24 of the new day.
\<close>

lemma time_fields_day:
  assumes "0 \<le> now - day * 86400000" and "now - day * 86400000 < 86400000"
  shows "case time_fields now day of (h, m, s, ms) \<Rightarrow>
    0 \<le> h \<and> h < 24 \<and> 0 \<le> m \<and> m < 60 \<and> 0 \<le> s \<and> s < 60 \<and> 0 \<le> ms \<and> ms < 1000
    \<and> now = day * 86400000 + ((h * 60 + m) * 60 + s) * 1000 + ms"
proof -
  define t where "t = now - day * 86400000"
  define h where "h = t div 3600000"
  define t1 where "t1 = t mod 3600000"
  define m where "m = t1 div 60000"
  define t2 where "t2 = t1 mod 60000"
  define sec where "sec = t2 div 1000"
  define ms where "ms = t2 mod 1000"
  have t: "0 \<le> t" "t < 86400000" using assms by (simp_all add: t_def)
  have c: "duration_cast 3600000 t = h" "duration_cast 60000 t1 = m" "duration_cast 1000 t2 = sec"
    using t(1) by (simp_all add: duration_cast_def h_def m_def sec_def t1_def t2_def)
  have d: "t - h * 3600000 = t1" "t1 - m * 60000 = t2" "t2 - sec * 1000 = ms"
    by (simp_all only: h_def t1_def m_def t2_def sec_def ms_def minus_div_mult_eq_mod)
  have e: "time_fields now day = (h, m, sec, ms)"
    unfolding time_fields_def Let_def t_def [symmetric] c(1) d(1) c(2) d(2) c(3) d(3) by (rule refl)
  have "t = h * 3600000 + t1" "t1 = m * 60000 + t2" "t2 = sec * 1000 + ms"
    by (simp_all add: h_def t1_def m_def t2_def sec_def ms_def)
  moreover have "0 \<le> h" "0 \<le> m" "0 \<le> t1" "t1 < 3600000" "0 \<le> t2" "t2 < 60000"
    using t(1) by (simp_all add: h_def m_def t1_def t2_def pos_imp_zdiv_nonneg_iff)
  moreover have "0 \<le> sec" "0 \<le> ms" "ms < 1000"
    using \<open>0 \<le> t2\<close> by (simp_all add: sec_def ms_def pos_imp_zdiv_nonneg_iff)
  moreover have "now = day * 86400000 + t" by (simp add: t_def)
  ultimately show ?thesis using t unfolding e prod.case by (intro conjI) (linarith | simp add: algebra_simps)+
qed

lemma midnight_stamp:
  "time_fields (86400000 * 20000 + 500) 19999 = (24, 0, 0, 500)"
  by code_simp

end
